(* ===== verification/Prelude.thy ===== *)
theory Prelude
  imports Main "HOL-Library.AList"
begin

text \<open>
  Shared vocabulary of the development: Go's 64-bit \<^verbatim>\<open>int\<close> with its wrap-around
  written out, Go maps as association lists with distinct keys (the list order stands for one
  iteration order of the map), and the lemma collections the component theories fill.
\<close>

named_theorems gomap_simps \<open>lookups in updated Go maps\<close>
named_theorems f64_simps \<open>evaluation of binary64 operations\<close>
named_theorems engine_defs \<open>unfolding of the routing engine\<close>

subsection \<open>Go's int and int64 (two's complement, 64 bits)\<close>

type_synonym int64 = int

definition wrap64 :: "int \<Rightarrow> int64" where
  "wrap64 x = (x + 2 ^ 63) mod 2 ^ 64 - 2 ^ 63"

definition is_int64 :: "int \<Rightarrow> bool" where
  "is_int64 x \<longleftrightarrow> - (2 ^ 63) \<le> x \<and> x < 2 ^ 63"

lemma is_int64_wrap64 [simp]: "is_int64 (wrap64 x)"
proof -
  have "0 \<le> (x + 2 ^ 63) mod 2 ^ 64" and "(x + 2 ^ 63) mod 2 ^ 64 < (2 ^ 64 :: int)"
    by simp_all
  then show ?thesis by (simp add: wrap64_def is_int64_def)
qed

lemma wrap64_id: "is_int64 x \<Longrightarrow> wrap64 x = x"
  by (simp add: wrap64_def is_int64_def)

lemma wrap64_overflow:
  assumes "2 ^ 63 \<le> x" and "x < 2 ^ 64"
  shows "wrap64 x < 0"
proof -
  have "(x + 2 ^ 63) mod 2 ^ 64 = (x - 2 ^ 63) mod 2 ^ 64"
    using mod_add_self2 [of "x - 2 ^ 63" "2 ^ 64"] by (simp add: add.commute)
  then show ?thesis using assms by (simp add: wrap64_def)
qed

text \<open>A chain of guards that returns a text at the first failing one.\<close>

lemma if_Cons_eq_Nil: "(if P then x # xs else t) = [] \<longleftrightarrow> \<not> P \<and> t = []"
  by simp

text \<open>A chain of guards that returns an error at the first failing one.\<close>

lemma if_Some_eq_None: "(if P then Some x else t) = None \<longleftrightarrow> \<not> P \<and> t = None"
  by simp

lemma case_Some_eq_None:
  "(case t of None \<Rightarrow> u | Some x \<Rightarrow> Some (f x)) = None \<longleftrightarrow> t = None \<and> u = None"
  by (cases t) simp_all

lemmas guard_chain = if_Some_eq_None case_Some_eq_None

subsection \<open>Go maps with string keys\<close>

type_synonym 'v gomap = "(string \<times> 'v) list"

definition wf_gomap :: "'v gomap \<Rightarrow> bool" where
  "wf_gomap m \<longleftrightarrow> distinct (map fst m)"

lemma map_of_AList_update [gomap_simps]:
  "map_of (AList.update k v m) k' = (if k = k' then Some v else map_of m k')"
  by (simp add: update_conv')

lemma map_of_AList_delete [gomap_simps]:
  "map_of (AList.delete k m) k' = (if k = k' then None else map_of m k')"
  by (simp add: delete_conv')

lemma wf_gomap_Nil [simp]: "wf_gomap []"
  by (simp add: wf_gomap_def)

lemma wf_gomap_update [simp, intro]: "wf_gomap m \<Longrightarrow> wf_gomap (AList.update k v m)"
  by (simp add: wf_gomap_def distinct_update)

lemma wf_gomap_delete [simp, intro]: "wf_gomap m \<Longrightarrow> wf_gomap (AList.delete k m)"
  by (simp add: wf_gomap_def distinct_delete)

lemma wf_gomap_in_set: "wf_gomap m \<Longrightarrow> (k, v) \<in> set m \<longleftrightarrow> map_of m k = Some v"
  by (simp add: wf_gomap_def)

lemma wf_gomap_keys: "k \<in> fst ` set m \<longleftrightarrow> map_of m k \<noteq> None"
  by (simp add: map_of_eq_None_iff)

text \<open>Reading a key that is absent yields the zero value of the element type.\<close>

definition lookup_zero :: "'v \<Rightarrow> 'v gomap \<Rightarrow> string \<Rightarrow> 'v" where
  "lookup_zero z m k = (case map_of m k of None \<Rightarrow> z | Some v \<Rightarrow> v)"

lemma lookup_zero_Some [simp]: "map_of m k = Some v \<Longrightarrow> lookup_zero z m k = v"
  by (simp add: lookup_zero_def)

lemma lookup_zero_None [simp]: "map_of m k = None \<Longrightarrow> lookup_zero z m k = z"
  by (simp add: lookup_zero_def)

lemma lookup_zero_update [gomap_simps]:
  "lookup_zero z (AList.update k v m) k' = (if k = k' then v else lookup_zero z m k')"
  by (simp add: lookup_zero_def map_of_AList_update)

end
