(* ===== verification/Float64.thy ===== *)
theory Float64
  imports Prelude "HOL-Library.Log_Nat"
begin

text \<open>
  Go's \<^verbatim>\<open>float64\<close>: IEEE-754 binary64 with round-to-nearest, ties to even, as executable
  functions on exact rationals. A finite value is the rational it denotes; every operation
  computes the exact result and rounds it once (no fused multiply-add, which is what the Go
  compiler emits on amd64). The two zeros are identified: comparisons, \<^verbatim>\<open>math.Max\<close> and
  \<^verbatim>\<open>math.Min\<close> do not tell them apart for the purposes of this program, and the program
  never divides by a zero.
\<close>

subsection \<open>Rounding a rational to 53 bits\<close>

datatype float64 = NaN | PosInf | NegInf | Fin rat

definition round_half_even :: "rat \<Rightarrow> int" where
  "round_half_even x =
     (let f = \<lfloor>x\<rfloor>; r = x - of_int f
      in if r < 1 / 2 then f else if 1 / 2 < r then f + 1 else if even f then f else f + 1)"

text \<open>\<open>ilog2 x\<close> is the binary logarithm of a positive rational, rounded down.\<close>

definition ilog2 :: "rat \<Rightarrow> int" where
  "ilog2 x = (if 1 \<le> x then bitlen \<lfloor>x\<rfloor> - 1 else - bitlen (\<lceil>1 / x\<rceil> - 1))"

text \<open>The exponent of the last place of the binary64 result, subnormals included.\<close>

definition ulp_exp :: "rat \<Rightarrow> int" where
  "ulp_exp q = (if q = 0 then - 1074 else max (ilog2 \<bar>q\<bar> - 52) (- 1074))"

text \<open>Powers of two with an integer exponent.\<close>

definition pow2 :: "int \<Rightarrow> rat" where
  "pow2 e = (if 0 \<le> e then of_int (2 ^ nat e) else 1 / of_int (2 ^ nat (- e)))"

definition rnd_rat :: "rat \<Rightarrow> rat" where
  "rnd_rat q = (let u = pow2 (ulp_exp q) in of_int (round_half_even (q / u)) * u)"

text \<open>A rounded value of magnitude \<open>2 ^ 1024\<close> or more overflows to an infinity.\<close>

definition overflows :: "rat \<Rightarrow> bool" where
  "overflows v \<longleftrightarrow> v \<noteq> 0 \<and> 1024 \<le> ilog2 \<bar>v\<bar>"

definition f64 :: "rat \<Rightarrow> float64" where
  "f64 q = (let v = rnd_rat q
            in if overflows v then (if 0 < v then PosInf else NegInf) else Fin v)"

subsection \<open>Arithmetic, comparisons and the functions of package math\<close>

fun fneg :: "float64 \<Rightarrow> float64" where
  "fneg NaN = NaN"
| "fneg PosInf = NegInf"
| "fneg NegInf = PosInf"
| "fneg (Fin a) = Fin (- a)"

fun fadd :: "float64 \<Rightarrow> float64 \<Rightarrow> float64" where
  "fadd (Fin a) (Fin b) = f64 (a + b)"
| "fadd NaN y = NaN"
| "fadd x NaN = NaN"
| "fadd PosInf NegInf = NaN"
| "fadd NegInf PosInf = NaN"
| "fadd PosInf y = PosInf"
| "fadd x PosInf = PosInf"
| "fadd NegInf y = NegInf"
| "fadd x NegInf = NegInf"

definition fsub :: "float64 \<Rightarrow> float64 \<Rightarrow> float64" where
  "fsub x y = fadd x (fneg y)"

fun fsgn :: "float64 \<Rightarrow> int" where
  "fsgn NaN = 0"
| "fsgn PosInf = 1"
| "fsgn NegInf = - 1"
| "fsgn (Fin a) = (if a = 0 then 0 else if 0 < a then 1 else - 1)"

definition inf_of_sgn :: "int \<Rightarrow> float64" where
  "inf_of_sgn s = (if s = 0 then NaN else if 0 < s then PosInf else NegInf)"

fun fmul :: "float64 \<Rightarrow> float64 \<Rightarrow> float64" where
  "fmul (Fin a) (Fin b) = f64 (a * b)"
| "fmul NaN y = NaN"
| "fmul x NaN = NaN"
| "fmul x y = inf_of_sgn (fsgn x * fsgn y)"

fun fdiv :: "float64 \<Rightarrow> float64 \<Rightarrow> float64" where
  "fdiv (Fin a) (Fin b) = (if b = 0 then inf_of_sgn (fsgn (Fin a)) else f64 (a / b))"
| "fdiv NaN y = NaN"
| "fdiv x NaN = NaN"
| "fdiv (Fin a) y = Fin 0"
| "fdiv x (Fin b) = inf_of_sgn (fsgn x * (if b < 0 then - 1 else 1))"
| "fdiv x y = NaN"

fun flt :: "float64 \<Rightarrow> float64 \<Rightarrow> bool" where
  "flt (Fin a) (Fin b) \<longleftrightarrow> a < b"
| "flt NegInf (Fin b) \<longleftrightarrow> True"
| "flt NegInf PosInf \<longleftrightarrow> True"
| "flt (Fin a) PosInf \<longleftrightarrow> True"
| "flt x y \<longleftrightarrow> False"

fun fle :: "float64 \<Rightarrow> float64 \<Rightarrow> bool" where
  "fle (Fin a) (Fin b) \<longleftrightarrow> a \<le> b"
| "fle NaN y \<longleftrightarrow> False"
| "fle x NaN \<longleftrightarrow> False"
| "fle NegInf y \<longleftrightarrow> True"
| "fle x PosInf \<longleftrightarrow> True"
| "fle x y \<longleftrightarrow> False"

text \<open>\<^verbatim>\<open>==\<close> on \<^verbatim>\<open>float64\<close>: a NaN equals nothing.\<close>

definition feq :: "float64 \<Rightarrow> float64 \<Rightarrow> bool" where
  "feq x y \<longleftrightarrow> x \<noteq> NaN \<and> x = y"

fun fabs :: "float64 \<Rightarrow> float64" where
  "fabs NaN = NaN"
| "fabs PosInf = PosInf"
| "fabs NegInf = PosInf"
| "fabs (Fin a) = Fin \<bar>a\<bar>"

definition fmax :: "float64 \<Rightarrow> float64 \<Rightarrow> float64" where
  "fmax x y = (if x = PosInf \<or> y = PosInf then PosInf
     else if x = NaN \<or> y = NaN then NaN
     else if flt y x then x else y)"

definition fmin :: "float64 \<Rightarrow> float64 \<Rightarrow> float64" where
  "fmin x y = (if x = NegInf \<or> y = NegInf then NegInf
     else if x = NaN \<or> y = NaN then NaN
     else if flt x y then x else y)"

text \<open>
  Conversions: \<^verbatim>\<open>float64(n)\<close> rounds; \<^verbatim>\<open>int(x)\<close> truncates towards zero and, out of
  range, is the amd64 conversion's \<open>- 2 ^ 63\<close>.
\<close>

definition f64_of_int :: "int64 \<Rightarrow> float64" where
  "f64_of_int n = f64 (of_int n)"

definition trunc_rat :: "rat \<Rightarrow> int" where
  "trunc_rat q = (if 0 \<le> q then \<lfloor>q\<rfloor> else \<lceil>q\<rceil>)"

fun int_of_f64 :: "float64 \<Rightarrow> int64" where
  "int_of_f64 (Fin q) = (if is_int64 (trunc_rat q) then trunc_rat q else - (2 ^ 63))"
| "int_of_f64 x = - (2 ^ 63)"

subsection \<open>Rounding is exact where it can be and monotone everywhere\<close>

lemma round_half_even_of_int [simp]: "round_half_even (of_int n) = n"
  by (simp add: round_half_even_def)

lemma round_half_even_bounds: "\<lfloor>x\<rfloor> \<le> round_half_even x" "round_half_even x \<le> \<lfloor>x\<rfloor> + 1"
  by (simp_all add: round_half_even_def Let_def)

lemma round_half_even_mono: "x \<le> y \<Longrightarrow> round_half_even x \<le> round_half_even y"
proof (cases "\<lfloor>x\<rfloor> = \<lfloor>y\<rfloor>")
  case True
  assume "x \<le> y"
  with True show ?thesis by (simp add: round_half_even_def Let_def)
next
  case False
  assume "x \<le> y"
  with False have "\<lfloor>x\<rfloor> + 1 \<le> \<lfloor>y\<rfloor>"
    using floor_mono [of x y] by linarith
  then show ?thesis
    using round_half_even_bounds(2) [of x] round_half_even_bounds(1) [of y] by linarith
qed

lemma round_half_even_minus [simp]: "round_half_even (- x) = - round_half_even x"
proof (cases "x \<in> \<int>")
  case True
  then obtain n where "x = of_int n" by (rule Ints_cases)
  then show ?thesis
    using round_half_even_of_int [of "- n"] by simp
next
  case False
  then have fl: "\<lfloor>- x\<rfloor> = - \<lfloor>x\<rfloor> - 1"
    by (simp add: floor_minus ceiling_altdef) (metis Ints_of_int)
  show ?thesis
    unfolding round_half_even_def Let_def fl by (auto simp: )
qed

lemma pow2_pos [simp]: "0 < pow2 e"
  by (simp add: pow2_def)

lemma pow2_powi: "pow2 e = 2 powi e"
  by (simp add: pow2_def power_int_def field_simps)

lemma pow2_add: "pow2 (a + b) = pow2 a * pow2 b"
  by (simp add: pow2_powi power_int_add)

lemma pow2_diff: "pow2 (a - b) = pow2 a / pow2 b"
  by (simp add: pow2_powi power_int_diff)

lemma pow2_mono: "a \<le> b \<Longrightarrow> pow2 a \<le> pow2 b"
  by (simp add: pow2_powi power_int_increasing)

lemma pow2_less_iff [simp]: "pow2 a < pow2 b \<longleftrightarrow> a < b"
proof
  assume "pow2 a < pow2 b"
  then show "a < b" using pow2_mono [of b a] by linarith
next
  assume "a < b"
  then show "pow2 a < pow2 b" by (simp add: pow2_powi power_int_strict_increasing)
qed

lemma pow2_of_int: "0 \<le> e \<Longrightarrow> pow2 e = of_int (2 ^ nat e)"
  by (simp add: pow2_def)

lemma ilog2_bounds:
  assumes "0 < x"
  shows "pow2 (ilog2 x) \<le> x" and "x < pow2 (ilog2 x + 1)"
proof -
  have "pow2 (ilog2 x) \<le> x \<and> x < pow2 (ilog2 x + 1)"
  proof (cases "1 \<le> x")
    case True
    let ?n = "\<lfloor>x\<rfloor>"
    from True have n: "0 < ?n" by simp
    have "2 ^ nat (bitlen ?n - 1) \<le> ?n" and u: "?n < 2 ^ nat (bitlen ?n)"
      using bitlen_bounds [OF n] by auto
    then have l: "(of_int (2 ^ nat (bitlen ?n - 1)) :: rat) \<le> x"
      by (simp add: le_floor_iff)
    have u': "x < of_int (2 ^ nat (bitlen ?n))" using u by linarith
    have "0 < bitlen ?n" using u n by (cases "bitlen ?n \<le> 0") auto
    with True l u' show ?thesis by (simp add: ilog2_def pow2_def)
  next
    case False
    let ?y = "1 / x" let ?n = "\<lceil>?y\<rceil> - 1" let ?k = "bitlen ?n"
    from False assms have y: "1 < ?y" by simp
    then have n: "0 < ?n" by linarith
    have l: "2 ^ nat (?k - 1) \<le> ?n" and u: "?n < 2 ^ nat ?k"
      using bitlen_bounds [OF n] by auto
    have k: "0 < ?k" using u n by (cases "?k \<le> 0") auto
    from u have "\<lceil>?y\<rceil> \<le> 2 ^ nat ?k" by linarith
    then have u': "?y \<le> of_int (2 ^ nat ?k)" by linarith
    from l have l': "of_int (2 ^ nat (?k - 1)) < ?y" by linarith
    from u' have a: "pow2 (- ?k) \<le> x"
      using assms k by (simp add: pow2_def field_simps)
    from l' have b: "x < pow2 (- ?k + 1)"
      using assms k by (auto simp: pow2_def field_simps)
    show ?thesis using False a b by (simp add: ilog2_def)
  qed
  then show "pow2 (ilog2 x) \<le> x" and "x < pow2 (ilog2 x + 1)" by auto
qed

lemma ilog2_less: "0 < x \<Longrightarrow> x < pow2 k \<Longrightarrow> ilog2 x < k"
  using ilog2_bounds(1) [of x] pow2_less_iff [of "ilog2 x" k] by linarith

lemma ilog2_ge: "0 < x \<Longrightarrow> pow2 k \<le> x \<Longrightarrow> k \<le> ilog2 x"
  using ilog2_bounds(2) [of x] pow2_less_iff [of k "ilog2 x + 1"] by linarith

lemma ilog2_mono: "0 < x \<Longrightarrow> x \<le> y \<Longrightarrow> ilog2 x \<le> ilog2 y"
  using ilog2_bounds(1) [of x] by (intro ilog2_ge) auto

text \<open>Rounding: zero, negation, the non-negative range, monotonicity, exact values.\<close>

lemma rnd_rat_0 [simp]: "rnd_rat 0 = 0"
  using round_half_even_of_int [of 0] by (simp add: rnd_rat_def)

lemma ulp_exp_minus [simp]: "ulp_exp (- q) = ulp_exp q"
  by (simp add: ulp_exp_def)

lemma rnd_rat_minus [simp]: "rnd_rat (- q) = - rnd_rat q"
  by (simp add: rnd_rat_def Let_def)

lemma rnd_rat_nonneg: "0 \<le> q \<Longrightarrow> 0 \<le> rnd_rat q"
  using round_half_even_mono [of 0 "q / pow2 (ulp_exp q)"] round_half_even_of_int [of 0]
  by (simp add: rnd_rat_def Let_def less_imp_le)

lemma rnd_rat_mono_pos:
  assumes x: "0 < x" and xy: "x \<le> y"
  shows "rnd_rat x \<le> rnd_rat y"
proof -
  let ?ex = "ulp_exp x" and ?ey = "ulp_exp y" and ?l = "ilog2 y"
  from x xy have y: "0 < y" by simp
  have l: "ilog2 x \<le> ?l" using x xy by (rule ilog2_mono)
  consider "?ex = ?ey" | "ilog2 x < ?l" "?ey = ?l - 52" "?ex < ?l"
    using x y l by (fastforce simp: ulp_exp_def)
  then show ?thesis
  proof cases
    case 1
    have "x / pow2 ?ey \<le> y / pow2 ?ey" using xy by (simp add: divide_right_mono less_imp_le)
    with 1 show ?thesis
      by (simp add: rnd_rat_def Let_def round_half_even_mono mult_right_mono less_imp_le)
  next
    case 2
    have "x \<le> pow2 ?l"
      using ilog2_bounds(2) [OF x] pow2_mono [of "ilog2 x + 1" ?l] 2(1) by linarith
    then have "x / pow2 ?ex \<le> pow2 (?l - ?ex)"
      by (simp add: pow2_diff divide_right_mono less_imp_le)
    also have "pow2 (?l - ?ex) = of_int (2 ^ nat (?l - ?ex))"
      using 2(3) by (intro pow2_of_int) simp
    finally have "round_half_even (x / pow2 ?ex) \<le> 2 ^ nat (?l - ?ex)"
      using round_half_even_mono round_half_even_of_int by metis
    then have "of_int (round_half_even (x / pow2 ?ex)) \<le> pow2 (?l - ?ex)"
      using 2(3) pow2_of_int [of "?l - ?ex"] by simp
    then have hx: "rnd_rat x \<le> pow2 ?l"
      by (simp add: rnd_rat_def Let_def pow2_diff pos_le_divide_eq)
    have "pow2 (?l - ?ey) \<le> y / pow2 ?ey"
      using ilog2_bounds(1) [OF y] by (simp add: pow2_diff divide_right_mono less_imp_le)
    then have "of_int (2 ^ 52) \<le> y / pow2 ?ey"
      using 2(2) pow2_of_int [of 52] by simp
    then have "2 ^ 52 \<le> round_half_even (y / pow2 ?ey)"
      using round_half_even_mono round_half_even_of_int by metis
    then have "pow2 (?l - ?ey) \<le> of_int (round_half_even (y / pow2 ?ey))"
      using 2(2) pow2_of_int [of 52] by simp
    then have "pow2 ?l \<le> rnd_rat y"
      by (simp add: rnd_rat_def Let_def pow2_diff pos_divide_le_eq)
    with hx show ?thesis by simp
  qed
qed

lemma rnd_rat_mono: "x \<le> y \<Longrightarrow> rnd_rat x \<le> rnd_rat y"
proof -
  assume xy: "x \<le> y"
  consider "0 < x" | "x \<le> 0" "0 \<le> y" | "y < 0" by linarith
  then show ?thesis
  proof cases
    case 1 then show ?thesis using xy by (rule rnd_rat_mono_pos)
  next
    case 2
    have "0 \<le> rnd_rat (- x)" using 2(1) by (intro rnd_rat_nonneg) simp
    moreover have "0 \<le> rnd_rat y" using 2(2) by (rule rnd_rat_nonneg)
    ultimately show ?thesis by simp
  next
    case 3
    then have "rnd_rat (- y) \<le> rnd_rat (- x)" using xy by (intro rnd_rat_mono_pos) auto
    then show ?thesis by simp
  qed
qed

text \<open>\<open>is_f64 v\<close>: the rational is a 53-bit multiple of a power of two, so rounding keeps it.\<close>

definition is_f64 :: "rat \<Rightarrow> bool" where
  "is_f64 v \<longleftrightarrow> rnd_rat v = v"

lemma is_f64I:
  assumes m: "\<bar>m\<bar> < 2 ^ 53" and e: "- 1074 \<le> e"
  shows "is_f64 (of_int m * pow2 e)"
proof (cases "m = 0")
  case True
  then show ?thesis by (simp add: is_f64_def)
next
  case False
  let ?v = "of_int m * pow2 e" and ?u = "ulp_exp (of_int m * pow2 e)"
  have "pow2 (53 + e) = of_int (2 ^ 53) * pow2 e" using pow2_of_int [of 53] by (simp add: pow2_add)
  moreover have "\<bar>?v\<bar> = of_int \<bar>m\<bar> * pow2 e" by (simp add: abs_mult less_imp_le)
  moreover have "(of_int \<bar>m\<bar> :: rat) < of_int (2 ^ 53)" using m by (simp only: of_int_less_iff)
  ultimately have "\<bar>?v\<bar> < pow2 (53 + e)" by (metis mult_strict_right_mono pow2_pos)
  then have "ilog2 \<bar>?v\<bar> < 53 + e" using False by (intro ilog2_less) (auto simp: less_imp_neq [symmetric])
  then have ue: "?u \<le> e" using e by (auto simp: ulp_exp_def)
  have "pow2 e = of_int (2 ^ nat (e - ?u)) * pow2 ?u"
    using pow2_of_int [of "e - ?u"] ue pow2_add [of "e - ?u" ?u] by simp
  then have v: "?v = of_int (m * 2 ^ nat (e - ?u)) * pow2 ?u" by simp
  then have "?v / pow2 ?u = of_int (m * 2 ^ nat (e - ?u))"
    by (metis less_numeral_extra(3) nonzero_mult_div_cancel_right pow2_pos)
  then have "rnd_rat ?v = of_int (m * 2 ^ nat (e - ?u)) * pow2 ?u"
    unfolding rnd_rat_def Let_def by (simp only: round_half_even_of_int)
  then show ?thesis unfolding is_f64_def using v by metis
qed

lemma is_f64_0 [simp]: "is_f64 0"
  by (simp add: is_f64_def)

lemma is_f64_minus [simp]: "is_f64 (- v) \<longleftrightarrow> is_f64 v"
  by (simp add: is_f64_def)

lemma is_f64_pow2: "- 1074 \<le> e \<Longrightarrow> is_f64 (pow2 e)"
  using is_f64I [of 1 e] by simp

lemma is_f64_int: "\<bar>n\<bar> \<le> 2 ^ 53 \<Longrightarrow> is_f64 (of_int n)"
proof (cases "\<bar>n\<bar> = 2 ^ 53")
  case True
  then have "n = 2 ^ 53 \<or> n = - (2 ^ 53)" by linarith
  then show ?thesis using is_f64_pow2 [of 53] pow2_of_int [of 53] by auto
next
  case False
  assume "\<bar>n\<bar> \<le> 2 ^ 53"
  with False have "\<bar>n\<bar> < 2 ^ 53" by linarith
  then show ?thesis using is_f64I [of n 0] by (simp add: pow2_def)
qed

lemma is_f64_1 [simp]: "is_f64 1"
  using is_f64_int [of 1] by simp

lemma is_f64_rnd [simp]: "is_f64 (rnd_rat q)"
proof (cases "q = 0")
  case False
  let ?e = "ulp_exp q" and ?m = "round_half_even (q / pow2 (ulp_exp q))"
  have e: "- 1074 \<le> ?e" "ilog2 \<bar>q\<bar> - 52 \<le> ?e" using False by (auto simp: ulp_exp_def)
  have r: "rnd_rat q = of_int ?m * pow2 ?e" by (simp add: rnd_rat_def Let_def)
  have "\<bar>q\<bar> < pow2 (ilog2 \<bar>q\<bar> + 1)" using False by (intro ilog2_bounds) simp
  also have "\<dots> \<le> pow2 (53 + ?e)" using e by (intro pow2_mono) simp
  finally have q: "\<bar>q\<bar> \<le> of_int (2 ^ 53) * pow2 ?e" using pow2_of_int [of 53] by (simp add: pow2_add)
  then have "q / pow2 ?e \<le> of_int (2 ^ 53)" "of_int (- (2 ^ 53)) \<le> q / pow2 ?e"
    by (simp_all add: pos_divide_le_eq pos_le_divide_eq abs_le_iff)
  then have "?m \<le> 2 ^ 53" "- (2 ^ 53) \<le> ?m"
    using round_half_even_mono round_half_even_of_int by metis+
  then consider "\<bar>?m\<bar> < 2 ^ 53" | "?m = 2 ^ 53" | "?m = - (2 ^ 53)" by linarith
  then show ?thesis
  proof cases
    case 1 then show ?thesis unfolding r using e by (intro is_f64I)
  next
    case 2 then show ?thesis unfolding r using e is_f64_pow2 [of "53 + ?e"] pow2_of_int [of 53]
      by (simp add: pow2_add)
  next
    case 3 then show ?thesis unfolding r using e is_f64_pow2 [of "53 + ?e"] pow2_of_int [of 53]
      by (simp add: pow2_add)
  qed
qed simp

lemma rnd_rat_le: "q \<le> v \<Longrightarrow> is_f64 v \<Longrightarrow> rnd_rat q \<le> v"
  using rnd_rat_mono [of q v] by (simp add: is_f64_def)

lemma rnd_rat_ge: "v \<le> q \<Longrightarrow> is_f64 v \<Longrightarrow> v \<le> rnd_rat q"
  using rnd_rat_mono [of v q] by (simp add: is_f64_def)

lemma overflows_iff: "overflows v \<longleftrightarrow> pow2 1024 \<le> \<bar>v\<bar>"
proof (cases "v = 0")
  case False
  then have "1024 \<le> ilog2 \<bar>v\<bar> \<longleftrightarrow> pow2 1024 \<le> \<bar>v\<bar>"
    using ilog2_ge [of "\<bar>v\<bar>" 1024] ilog2_less [of "\<bar>v\<bar>" 1024] by force
  with False show ?thesis by (simp add: overflows_def)
next
  case True
  have "\<not> pow2 1024 \<le> 0" using pow2_pos [of 1024] by linarith
  with True show ?thesis by (simp add: overflows_def)
qed

lemma f64_exact: "is_f64 v \<Longrightarrow> \<bar>v\<bar> < pow2 1024 \<Longrightarrow> f64 v = Fin v"
  by (simp add: f64_def is_f64_def overflows_iff Let_def)

lemma f64_bounded:
  assumes "\<bar>q\<bar> \<le> v" and "is_f64 v" and "v < pow2 1024"
  shows "f64 q = Fin (rnd_rat q)"
proof -
  have "rnd_rat q \<le> v" "- v \<le> rnd_rat q"
    using assms by (auto intro!: rnd_rat_le rnd_rat_ge)
  with assms(3) show ?thesis by (simp add: f64_def overflows_iff Let_def)
qed

lemma f64_not_NaN [simp]: "f64 q \<noteq> NaN"
  by (simp add: f64_def Let_def)

lemma pow2_1024_big: "of_int (2 ^ 64) < pow2 1024"
  using pow2_less_iff [of 64 1024] pow2_of_int [of 64] by simp

lemma f64_int_exact: "\<bar>n\<bar> \<le> 2 ^ 53 \<Longrightarrow> f64 (of_int n) = Fin (of_int n)"
proof (rule f64_exact)
  assume n: "\<bar>n\<bar> \<le> 2 ^ 53"
  then show "is_f64 (of_int n)" by (rule is_f64_int)
  have "(of_int \<bar>n\<bar> :: rat) \<le> of_int (2 ^ 53)" using n by (simp only: of_int_le_iff)
  then show "\<bar>of_int n\<bar> < pow2 1024" using pow2_1024_big by simp
qed

lemma f64_0 [simp]: "f64 0 = Fin 0" using f64_int_exact [of 0] by simp
lemma f64_1 [simp]: "f64 1 = Fin 1" using f64_int_exact [of 1] by simp
lemma f64_numeral: "numeral k \<le> (2 ^ 53 :: int) \<Longrightarrow> f64 (numeral k) = Fin (numeral k)"
  using f64_int_exact [of "numeral k"] by simp

subsection \<open>Order\<close>

lemma flt_irrefl [simp]: "\<not> flt x x"
  by (cases x) auto

lemma flt_not_NaN: "flt x y \<Longrightarrow> x \<noteq> NaN \<and> y \<noteq> NaN"
  by (cases x; cases y) auto

lemma fle_not_NaN: "fle x y \<Longrightarrow> x \<noteq> NaN \<and> y \<noteq> NaN"
  by (cases x; cases y) auto

lemma flt_asym: "flt x y \<Longrightarrow> \<not> flt y x"
  by (cases x; cases y) auto

lemma flt_trans: "flt x y \<Longrightarrow> flt y z \<Longrightarrow> flt x z"
  by (cases x; cases y; cases z) auto

lemma fle_trans: "fle x y \<Longrightarrow> fle y z \<Longrightarrow> fle x z"
  by (cases x; cases y; cases z) auto

lemma fle_flt_trans: "fle x y \<Longrightarrow> flt y z \<Longrightarrow> flt x z"
  by (cases x; cases y; cases z) auto

lemma flt_fle_trans: "flt x y \<Longrightarrow> fle y z \<Longrightarrow> flt x z"
  by (cases x; cases y; cases z) auto

lemma flt_imp_fle: "flt x y \<Longrightarrow> fle x y"
  by (cases x; cases y) auto

lemma not_flt_iff: "x \<noteq> NaN \<Longrightarrow> y \<noteq> NaN \<Longrightarrow> \<not> flt x y \<longleftrightarrow> fle y x"
  by (cases x; cases y) auto

lemma fle_refl [simp]: "fle x x \<longleftrightarrow> x \<noteq> NaN"
  by (cases x) auto

lemma fle_antisym: "fle x y \<Longrightarrow> fle y x \<Longrightarrow> x = y"
  by (cases x; cases y) auto

lemma f64_mono: "p \<le> q \<Longrightarrow> fle (f64 p) (f64 q)"
proof -
  assume "p \<le> q"
  then have "rnd_rat p \<le> rnd_rat q" by (rule rnd_rat_mono)
  then show ?thesis by (auto simp: f64_def Let_def overflows_iff)
qed

lemma fle_f64I: "is_f64 v \<Longrightarrow> \<bar>v\<bar> < pow2 1024 \<Longrightarrow> v \<le> q \<Longrightarrow> fle (Fin v) (f64 q)"
  using f64_mono [of v q] f64_exact [of v] by simp

lemma f64_fleI: "is_f64 v \<Longrightarrow> \<bar>v\<bar> < pow2 1024 \<Longrightarrow> q \<le> v \<Longrightarrow> fle (f64 q) (Fin v)"
  using f64_mono [of q v] f64_exact [of v] by simp

lemma fmax_ge: "x \<noteq> NaN \<Longrightarrow> y \<noteq> NaN \<Longrightarrow> fle x (fmax x y) \<and> fle y (fmax x y)"
  by (cases x; cases y) (auto simp: fmax_def)

lemma fmin_le: "x \<noteq> NaN \<Longrightarrow> y \<noteq> NaN \<Longrightarrow> fle (fmin x y) x \<and> fle (fmin x y) y"
  by (cases x; cases y) (auto simp: fmin_def)

lemma fmax_cases: "x \<noteq> NaN \<Longrightarrow> y \<noteq> NaN \<Longrightarrow> fmax x y = x \<or> fmax x y = y"
  by (cases x; cases y) (auto simp: fmax_def)

lemma fmin_cases: "x \<noteq> NaN \<Longrightarrow> y \<noteq> NaN \<Longrightarrow> fmin x y = x \<or> fmin x y = y"
  by (cases x; cases y) (auto simp: fmin_def)

lemma fmax_le: "fle x z \<Longrightarrow> fle y z \<Longrightarrow> fle (fmax x y) z"
  by (cases x; cases y; cases z) (auto simp: fmax_def)

lemma fmin_ge: "fle z x \<Longrightarrow> fle z y \<Longrightarrow> fle z (fmin x y)"
  by (cases x; cases y; cases z) (auto simp: fmin_def)

subsection \<open>Well-formed results and monotone arithmetic\<close>

text \<open>\<open>wf64 x\<close>: a finite \<open>x\<close> is a binary64 number. Every rounded result is.\<close>

definition wf64 :: "float64 \<Rightarrow> bool" where
  "wf64 x \<longleftrightarrow> (\<forall>r. x = Fin r \<longrightarrow> is_f64 r \<and> \<bar>r\<bar> < pow2 1024)"

lemma wf64_f64 [simp]: "wf64 (f64 q)"
  by (auto simp: wf64_def f64_def Let_def overflows_iff)

lemma wf64_fadd [simp]: "wf64 (fadd x y)"
  by (cases x; cases y) (simp_all add: wf64_def [of NaN] wf64_def [of PosInf] wf64_def [of NegInf])

lemma wf64_fsub [simp]: "wf64 (fsub x y)"
  by (simp add: fsub_def)

lemma wf64_0 [simp]: "wf64 (Fin 0)" and wf64_1 [simp]: "wf64 (Fin 1)"
  using wf64_f64 [of 0] wf64_f64 [of 1] by simp_all

lemma wf64_fmax: "wf64 x \<Longrightarrow> wf64 y \<Longrightarrow> wf64 (fmax x y)"
  by (auto simp: fmax_def wf64_def split: if_splits)

lemma wf64_fmin: "wf64 x \<Longrightarrow> wf64 y \<Longrightarrow> wf64 (fmin x y)"
  by (auto simp: fmin_def wf64_def split: if_splits)

lemma f64_nonneg: "0 \<le> q \<Longrightarrow> fle (Fin 0) (f64 q)"
  using f64_mono [of 0 q] by simp

lemma fmul_nonneg: "fle (Fin 0) (Fin a) \<Longrightarrow> fle (Fin 0) (Fin b) \<Longrightarrow> fle (Fin 0) (fmul (Fin a) (Fin b))"
  by (simp add: f64_nonneg)

lemma fle_PosInf [simp]: "fle x PosInf \<longleftrightarrow> x \<noteq> NaN"
  by (cases x) auto

lemma fadd_mono_nonneg:
  assumes "fle (Fin 0) x" "fle x x'" "fle (Fin 0) y" "fle y y'"
  shows "fle (Fin 0) (fadd x y)" "fle (fadd x y) (fadd x' y')"
proof -
  show "fle (Fin 0) (fadd x y)" using assms(1,3)
    by (cases x; cases y) (simp_all add: f64_nonneg)
  show "fle (fadd x y) (fadd x' y')"
    using assms by (cases x; cases x'; cases y; cases y') (auto intro: f64_mono)
qed

lemma fdiv_mono:
  assumes "fle (Fin 0) x" "fle x y" "0 < c"
  shows "fle (Fin 0) (fdiv x (Fin c))" "fle (fdiv x (Fin c)) (fdiv y (Fin c))"
proof -
  have m: "a \<le> b \<Longrightarrow> a / c \<le> b / c" for a b :: rat using assms(3) by (simp add: divide_right_mono)
  show "fle (Fin 0) (fdiv x (Fin c))"
    using assms(1,3) m [of 0] by (cases x) (simp_all add: inf_of_sgn_def f64_nonneg)
  show "fle (fdiv x (Fin c)) (fdiv y (Fin c))"
    using assms by (cases x; cases y) (simp_all add: inf_of_sgn_def f64_mono m)
qed

lemma fsub_le:
  assumes "wf64 (Fin r)" and "fle (Fin 0) t"
  shows "fle (fsub (Fin r) t) (Fin r)"
  using assms by (cases t) (auto simp: fsub_def wf64_def intro!: f64_fleI)

lemma f64_of_int_mono: "m \<le> n \<Longrightarrow> fle (f64_of_int m) (f64_of_int n)"
  by (simp add: f64_of_int_def f64_mono)

lemma f64_of_int_small: "\<bar>n\<bar> \<le> 2 ^ 53 \<Longrightarrow> f64_of_int n = Fin (of_int n)"
  by (simp add: f64_of_int_def f64_int_exact)

text \<open>Every 64-bit integer converts to a finite number.\<close>

lemma f64_of_int_finite:
  assumes "is_int64 n"
  obtains r where "f64_of_int n = Fin r" and "\<bar>r\<bar> \<le> 2 ^ 63" and "0 \<le> n \<longrightarrow> 0 \<le> r"
proof -
  have p: "is_f64 (2 ^ 63)" using is_f64_pow2 [of 63] pow2_of_int [of 63] by simp
  have "\<bar>n\<bar> \<le> 2 ^ 63" using assms by (auto simp: is_int64_def abs_le_iff)
  then have n: "\<bar>of_int n :: rat\<bar> \<le> 2 ^ 63"
    by (metis of_int_abs of_int_le_iff of_int_numeral of_int_power)
  have "(2 ^ 63 :: rat) < pow2 1024" using pow2_1024_big by simp
  with n p have "f64_of_int n = Fin (rnd_rat (of_int n))"
    unfolding f64_of_int_def by (intro f64_bounded)
  moreover have "rnd_rat (of_int n) \<le> 2 ^ 63" "- (2 ^ 63) \<le> rnd_rat (of_int n)"
    using n p by (auto intro!: rnd_rat_le rnd_rat_ge)
  moreover have "0 \<le> n \<longrightarrow> 0 \<le> rnd_rat (of_int n)" by (simp add: rnd_rat_nonneg)
  ultimately show thesis using that by (simp add: abs_le_iff)
qed
lemma fadd_0_right: "wf64 x \<Longrightarrow> fadd x (Fin 0) = x"
  by (cases x) (auto simp: wf64_def f64_exact)

lemma fadd_f64_0 [simp]: "fadd (f64 q) (Fin 0) = f64 q"
  by (simp add: fadd_0_right)

end
