(* ===== verification/GoText.thy ===== *)
theory GoText
  imports Prelude "HOL-Library.Word" "HOL-Library.Sublist"
begin

text \<open>
  The string functions of Go's standard library that the program calls. A Go string is a byte
  sequence, so it is a \<^typ>\<open>string\<close>: \<open>TrimSpace\<close> recognises the UTF-8 encodings of the Unicode
  white space, \<open>EqualFold\<close> folds ASCII letters and compares other bytes as they are, and
  \<open>fnv1a64\<close> is the 64-bit FNV-1a hash of \<^verbatim>\<open>hash/fnv\<close>.
\<close>

unbundle bit_operations_syntax

subsection \<open>strings.TrimPrefix and strings.TrimSpace\<close>

definition TrimPrefix :: "string \<Rightarrow> string \<Rightarrow> string" where
  "TrimPrefix s p = (if prefix p s then drop (length p) s else s)"

definition space_runes :: "string list" where
  "space_runes =
     [[CHR 0x09], [CHR 0x0A], [CHR 0x0B], [CHR 0x0C], [CHR 0x0D], [CHR 0x20],
      [CHR 0xC2, CHR 0x85], [CHR 0xC2, CHR 0xA0], [CHR 0xE1, CHR 0x9A, CHR 0x80],
      [CHR 0xE2, CHR 0x80, CHR 0x80], [CHR 0xE2, CHR 0x80, CHR 0x81],
      [CHR 0xE2, CHR 0x80, CHR 0x82], [CHR 0xE2, CHR 0x80, CHR 0x83],
      [CHR 0xE2, CHR 0x80, CHR 0x84], [CHR 0xE2, CHR 0x80, CHR 0x85],
      [CHR 0xE2, CHR 0x80, CHR 0x86], [CHR 0xE2, CHR 0x80, CHR 0x87],
      [CHR 0xE2, CHR 0x80, CHR 0x88], [CHR 0xE2, CHR 0x80, CHR 0x89],
      [CHR 0xE2, CHR 0x80, CHR 0x8A], [CHR 0xE2, CHR 0x80, CHR 0xA8],
      [CHR 0xE2, CHR 0x80, CHR 0xA9], [CHR 0xE2, CHR 0x80, CHR 0xAF],
      [CHR 0xE2, CHR 0x81, CHR 0x9F], [CHR 0xE3, CHR 0x80, CHR 0x80]]"

text \<open>Strip leading members of a list of patterns; an empty pattern is never taken.\<close>

function strip_left :: "string list \<Rightarrow> string \<Rightarrow> string" where
  "strip_left ps s =
     (case find (\<lambda>p. p \<noteq> [] \<and> prefix p s) ps of
        None \<Rightarrow> s
      | Some p \<Rightarrow> strip_left ps (drop (length p) s))"
  by pat_completeness auto
termination
proof (relation "measure (\<lambda>(ps, s). length s)", goal_cases)
  case (2 ps s p)
  then have "p \<noteq> []" "prefix p s" by (auto simp: find_Some_iff)
  then show ?case by (cases s) (auto simp: prefix_def)
qed simp

declare strip_left.simps [simp del]

definition TrimSpace :: "string \<Rightarrow> string" where
  "TrimSpace s = rev (strip_left (map rev space_runes) (rev (strip_left space_runes s)))"

lemma strip_left_no_prefix: "p \<in> set ps \<Longrightarrow> p \<noteq> [] \<Longrightarrow> \<not> prefix p (strip_left ps s)"
proof (induction ps s rule: strip_left.induct)
  case (1 ps s)
  then show ?case
    by (subst strip_left.simps) (auto simp: find_None_iff split: option.splits)
qed

lemma strip_left_id: "(\<And>p. p \<in> set ps \<Longrightarrow> p \<noteq> [] \<Longrightarrow> \<not> prefix p s) \<Longrightarrow> strip_left ps s = s"
  by (subst strip_left.simps) (auto simp: find_None_iff find_Some_iff split: option.splits)

lemma strip_left_suffix: "suffix (strip_left ps s) s"
proof (induction ps s rule: strip_left.induct)
  case (1 ps s)
  show ?case
  proof (cases "find (\<lambda>p. p \<noteq> [] \<and> prefix p s) ps")
    case (Some p)
    with "1.IH" have "suffix (strip_left ps (drop (length p) s)) (drop (length p) s)" by blast
    then have "suffix (strip_left ps (drop (length p) s)) s"
      using suffix_drop suffix_order.trans by blast
    with Some show ?thesis by (subst strip_left.simps) simp
  qed (subst strip_left.simps, simp)
qed

lemma TrimSpace_prefix_of_left: "prefix (TrimSpace s) (strip_left space_runes s)"
  using strip_left_suffix [of "map rev space_runes" "rev (strip_left space_runes s)"]
  by (simp add: TrimSpace_def suffix_to_prefix)

lemma TrimSpace_idem [simp]: "TrimSpace (TrimSpace s) = TrimSpace s"
proof -
  let ?r = "rev (TrimSpace s)"
  have "\<not> prefix p (TrimSpace s)" if "p \<in> set space_runes" "p \<noteq> []" for p
    using strip_left_no_prefix [OF that, of s] TrimSpace_prefix_of_left [of s]
      prefix_order.trans by blast
  then have l: "strip_left space_runes (TrimSpace s) = TrimSpace s" by (rule strip_left_id)
  have "strip_left (map rev space_runes) ?r = ?r"
    by (rule strip_left_id) (simp add: TrimSpace_def strip_left_no_prefix)
  then show ?thesis unfolding TrimSpace_def [of "TrimSpace s"] l by simp
qed

subsection \<open>strings.EqualFold\<close>

definition fold_char :: "char \<Rightarrow> char" where
  "fold_char c = (let n = (of_char c :: nat) in if 65 \<le> n \<and> n \<le> 90 then char_of (n + 32) else c)"

definition EqualFold :: "string \<Rightarrow> string \<Rightarrow> bool" where
  "EqualFold s t \<longleftrightarrow> map fold_char s = map fold_char t"

lemma EqualFold_refl [simp]: "EqualFold s s"
  by (simp add: EqualFold_def)

lemma EqualFold_sym: "EqualFold s t \<longleftrightarrow> EqualFold t s"
  by (auto simp: EqualFold_def)

lemma EqualFold_trans: "EqualFold s t \<Longrightarrow> EqualFold t u \<Longrightarrow> EqualFold s u"
  by (simp add: EqualFold_def)

subsection \<open>hash/fnv: New64a, Write, Sum64\<close>

definition fnv_step :: "64 word \<Rightarrow> char \<Rightarrow> 64 word" where
  "fnv_step h c = (h XOR of_nat (of_char c)) * 1099511628211"

definition fnv1a64 :: "string \<Rightarrow> 64 word" where
  "fnv1a64 s = foldl fnv_step 14695981039346656037 s"

subsection \<open>encoding/hex and decimal printing\<close>

definition hex_digit :: "nat \<Rightarrow> char" where
  "hex_digit n = (if n < 10 then char_of (48 + n) else char_of (87 + n))"

definition hex_encode :: "nat list \<Rightarrow> string" where
  "hex_encode bs = concat (map (\<lambda>b. [hex_digit (b div 16), hex_digit (b mod 16)]) bs)"

fun decimal_nat :: "nat \<Rightarrow> string" where
  "decimal_nat n = (if n < 10 then [char_of (48 + n)]
     else decimal_nat (n div 10) @ [char_of (48 + n mod 10)])"

declare decimal_nat.simps [simp del]

definition decimal_int :: "int \<Rightarrow> string" where
  "decimal_int i = (if i < 0 then ''-'' @ decimal_nat (nat (- i)) else decimal_nat (nat i))"

subsection \<open>The order of strings\<close>

text \<open>\<^verbatim>\<open><\<close> on Go strings compares them byte by byte.\<close>

fun string_less :: "string \<Rightarrow> string \<Rightarrow> bool" where
  "string_less xs [] = False"
| "string_less [] (y # ys) = True"
| "string_less (x # xs) (y # ys) =
     (if x = y then string_less xs ys else (of_char x :: nat) < of_char y)"

lemma string_less_irrefl [simp]: "\<not> string_less xs xs"
  by (induction xs) auto

lemma string_less_asym: "string_less xs ys \<Longrightarrow> \<not> string_less ys xs"
  by (induction xs ys rule: string_less.induct) auto

lemma string_less_linear: "\<not> string_less xs ys \<Longrightarrow> \<not> string_less ys xs \<Longrightarrow> xs = ys"
proof (induction xs ys rule: string_less.induct)
  case (1 xs)
  then show ?case by (cases xs) auto
next
  case (3 x xs y ys)
  then show ?case by (auto split: if_splits simp: not_less dest: antisym)
qed auto

lemma string_less_trans: "string_less xs ys \<Longrightarrow> string_less ys zs \<Longrightarrow> string_less xs zs"
proof (induction xs zs arbitrary: ys rule: string_less.induct)
  case (1 xs)
  then show ?case by (cases ys) auto
next
  case (3 x xs z zs)
  then show ?case by (cases ys) (auto split: if_splits)
qed auto

lemma string_less_weak_trans: "\<not> string_less xs ys \<Longrightarrow> \<not> string_less ys zs \<Longrightarrow> \<not> string_less xs zs"
  using string_less_trans string_less_linear by metis

end
