(* ===== verification/Domain.thy ===== *)
theory Domain
  imports Float64 GoText
begin

text \<open>
  The data model of \<^verbatim>\<open>internal/domain/types.go\<close>: one record per struct, with the Go field names
  under a short prefix per record. \<^verbatim>\<open>Mode\<close>, \<^verbatim>\<open>Privacy\<close> and \<^verbatim>\<open>RiskClass\<close> are Go strings with
  named constants and stay strings, because decoded JSON can hold any string there. A
  \<^verbatim>\<open>time.Time\<close> is the number of nanoseconds since the zero time; a \<^verbatim>\<open>json.RawMessage\<close> is its
  decoded value, \<open>None\<close> when empty.
\<close>

subsection \<open>Modes, privacy levels and risk classes\<close>

type_synonym Mode = string
type_synonym Privacy = string
type_synonym RiskClass = string
type_synonym time = int

abbreviation ModeObserve :: string where "ModeObserve \<equiv> ''observe''"
abbreviation ModeShadow :: string where "ModeShadow \<equiv> ''shadow''"
abbreviation ModeCanary :: string where "ModeCanary \<equiv> ''canary''"
abbreviation ModeActive :: string where "ModeActive \<equiv> ''active''"

abbreviation PrivacyStandard :: string where "PrivacyStandard \<equiv> ''standard''"
abbreviation PrivacyZDR :: string where "PrivacyZDR \<equiv> ''zdr''"
abbreviation PrivacyLocal :: string where "PrivacyLocal \<equiv> ''local''"

abbreviation RiskLow :: string where "RiskLow \<equiv> ''low''"
abbreviation RiskNormal :: string where "RiskNormal \<equiv> ''normal''"
abbreviation RiskHigh :: string where "RiskHigh \<equiv> ''high''"
abbreviation RiskRegulated :: string where "RiskRegulated \<equiv> ''regulated''"

subsection \<open>Catalog, policies and snapshots\<close>

record model =
  m_ID :: string
  m_Provider :: string
  m_UpstreamModel :: string
  m_Region :: string
  m_Privacy :: Privacy
  m_ContextWindow :: int64
  m_SupportsTools :: bool
  m_SupportsStructured :: bool
  m_SupportsVision :: bool
  m_InputCostPerMTokens :: float64
  m_OutputCostPerMTokens :: float64
  m_P95LatencyMS :: int64
  m_QualityPrior :: float64
  m_Enabled :: bool
  m_Version :: string

record policy_constraints =
  pc_AllowedRegions :: "string list"
  pc_RequiredPrivacy :: Privacy
  pc_MaxEstimatedCostUSD :: float64
  pc_MaxP95LatencyMS :: int64

record model_score =
  sc_SuccessRate :: float64
  sc_Uncertainty :: float64
  sc_Samples :: int64
  sc_Weights :: "float64 gomap"
  sc_Bias :: float64

record snapshot =
  sn_Version :: string
  sn_CatalogVersion :: string
  sn_TrainedAt :: time
  sn_Global :: "model_score gomap"
  sn_ByWorkflow :: "model_score gomap gomap"

record policy =
  p_ID :: string
  p_TenantID :: string
  p_Version :: string
  p_Mode :: Mode
  p_IncumbentModel :: string
  p_CandidateModels :: "string list"
  p_FallbackModels :: "string list"
  p_QualityTolerance :: float64
  p_ConfidenceZ :: float64
  p_MinimumSamples :: int64
  p_ControlPercent :: float64
  p_CanaryPercent :: float64
  p_ExplorationPercent :: float64
  p_ShadowBudgetUSDPerDay :: float64
  p_PrimaryOutcome :: string
  p_Constraints :: policy_constraints
  p_Snapshot :: snapshot
  p_Drifted :: bool
  p_CreatedAt :: time

subsection \<open>Requests, predictions and decisions\<close>

record routing_metadata =
  md_TraceID :: string
  md_Workflow :: string
  md_Step :: string
  md_RiskClass :: RiskClass
  md_DeadlineMS :: int64
  md_PolicyID :: string
  md_RequiredRegion :: string
  md_RequiredPrivacy :: Privacy
  md_MaxCostUSD :: float64

record features =
  f_InputTokens :: int64
  f_ExpectedOutputTokens :: int64
  f_MessageCount :: int64
  f_ToolCount :: int64
  f_HasVision :: bool
  f_HasStructuredOutput :: bool
  f_Risk :: float64

definition boolFloat :: "bool \<Rightarrow> float64" where
  "boolFloat v = (if v then Fin 1 else Fin 0)"

definition Vector :: "features \<Rightarrow> float64 gomap" where
  "Vector f =
     [(''input_tokens_k'', fdiv (f64_of_int (f_InputTokens f)) (Fin 1000)),
      (''expected_output_tokens_k'', fdiv (f64_of_int (f_ExpectedOutputTokens f)) (Fin 1000)),
      (''message_count'', f64_of_int (f_MessageCount f)),
      (''tool_count'', f64_of_int (f_ToolCount f)),
      (''has_vision'', boolFloat (f_HasVision f)),
      (''has_structured_output'', boolFloat (f_HasStructuredOutput f)),
      (''risk'', f_Risk f)]"

record prediction =
  pr_ModelID :: string
  pr_Success :: float64
  pr_LowerBound :: float64
  pr_Uncertainty :: float64
  pr_Samples :: int64
  pr_EstimatedCostUSD :: float64
  pr_P95LatencyMS :: int64
  pr_Eligible :: bool
  pr_Reason :: string

text \<open>The zero value, which reading an absent key of \<^verbatim>\<open>map[string]Prediction\<close> yields.\<close>

definition zero_prediction :: prediction where
  "zero_prediction = \<lparr>pr_ModelID = [], pr_Success = Fin 0, pr_LowerBound = Fin 0,
     pr_Uncertainty = Fin 0, pr_Samples = 0, pr_EstimatedCostUSD = Fin 0, pr_P95LatencyMS = 0,
     pr_Eligible = False, pr_Reason = []\<rparr>"

record route_decision =
  d_ID :: string
  d_ParentDecisionID :: string
  d_TenantID :: string
  d_TraceID :: string
  d_Workflow :: string
  d_Step :: string
  d_RiskClass :: RiskClass
  d_PolicyID :: string
  d_PolicyVersion :: string
  d_SnapshotVersion :: string
  d_CatalogVersion :: string
  d_IncumbentModel :: string
  d_SelectedModel :: string
  d_FinalModel :: string
  d_Bucket :: string
  d_FallbackReason :: string
  d_FeasibleModels :: "string list"
  d_ShadowModels :: "string list"
  d_Predictions :: "prediction gomap"
  d_Features :: features
  d_EstimatedCostUSD :: float64
  d_IncumbentEstimatedCostUSD :: float64
  d_ActualCostUSD :: float64
  d_InputTokens :: int64
  d_OutputTokens :: int64
  d_RoutingLatencyMicros :: int64
  d_ProviderLatencyMS :: int64
  d_AttemptedModels :: "string list"
  d_UpstreamStatus :: int64
  d_Error :: string
  d_CreatedAt :: time
  d_CompletedAt :: "time option"

subsection \<open>Outcomes\<close>

text \<open>A decoded JSON value; a number is the exact rational its literal denotes.\<close>

datatype json = JNull | JBool bool | JNum rat | JStr string | JArr "json list"
  | JObj "(string \<times> json) list"

record outcome =
  o_ID :: string
  o_TenantID :: string
  o_DecisionID :: string
  o_TraceID :: string
  o_Type :: string
  o_Value :: "json option"
  o_OccurredAt :: time
  o_Metadata :: "json gomap"
  o_CreatedAt :: time

text \<open>
  \<^verbatim>\<open>json.Unmarshal\<close> into a \<^verbatim>\<open>float64\<close> and into a \<^verbatim>\<open>bool\<close>: the variable after the call, or
  \<open>None\<close> for an error. JSON null is no error and leaves the variable as it was; a number that
  overflows binary64 is an error, and so is an empty message.
\<close>

fun unmarshal_float64 :: "float64 \<Rightarrow> json option \<Rightarrow> float64 option" where
  "unmarshal_float64 cur (Some JNull) = Some cur"
| "unmarshal_float64 cur (Some (JNum q)) = (case f64 q of Fin v \<Rightarrow> Some (Fin v) | _ \<Rightarrow> None)"
| "unmarshal_float64 cur _ = None"

fun unmarshal_bool :: "bool \<Rightarrow> json option \<Rightarrow> bool option" where
  "unmarshal_bool cur (Some JNull) = Some cur"
| "unmarshal_bool cur (Some (JBool b)) = Some b"
| "unmarshal_bool cur _ = None"

definition NumericValue :: "outcome \<Rightarrow> float64 \<times> bool" where
  "NumericValue out =
     (let number = unmarshal_float64 (Fin 0) (o_Value out)
      in if number \<noteq> None \<and> the number \<noteq> NaN then (the number, True)
         else (case unmarshal_bool False (o_Value out) of
                 Some b \<Rightarrow> if b then (Fin 1, True) else (Fin 0, True)
               | None \<Rightarrow> (Fin 0, False)))"

subsection \<open>Audit summaries\<close>

record model_summary =
  ms_Requests :: int64
  ms_CostUSD :: float64
  ms_Successes :: float64
  ms_Outcomes :: int64
  ms_SuccessRate :: float64

definition zero_model_summary :: model_summary where
  "zero_model_summary = \<lparr>ms_Requests = 0, ms_CostUSD = Fin 0, ms_Successes = Fin 0,
     ms_Outcomes = 0, ms_SuccessRate = Fin 0\<rparr>"

record interval =
  i_Estimate :: float64
  i_Lower :: float64
  i_Upper :: float64
  i_N :: int64

definition zero_interval :: interval where
  "zero_interval = \<lparr>i_Estimate = Fin 0, i_Lower = Fin 0, i_Upper = Fin 0, i_N = 0\<rparr>"

record audit_summary =
  s_TenantID :: string
  s_PolicyID :: string
  s_Since :: time
  s_Requests :: int64
  s_RoutedRequests :: int64
  s_ControlRequests :: int64
  s_ShadowRequests :: int64
  s_ActualCostUSD :: float64
  s_EstimatedCostUSD :: float64
  s_IncumbentCostUSD :: float64
  s_VerifiedGrossSavingsUSD :: float64
  s_SavingsPercent :: float64
  s_PrimaryOutcome :: string
  s_TreatmentOutcome :: interval
  s_ControlOutcome :: interval
  s_NonInferiorityDelta :: float64
  s_ByModel :: "model_summary gomap"
  s_ByBucket :: "int64 gomap"
  s_GeneratedAt :: time

subsection \<open>Policy.Validate\<close>

datatype policy_error =
    IdentityRequired
  | UnsupportedMode Mode
  | IncumbentNotInCatalog string
  | ModelNotInCatalog string
  | ModelRepeated string
  | QualityToleranceRange
  | PercentRange string
  | ExplorationLimit
  | ConfidenceZNotPositive

fun check_models :: "model gomap \<Rightarrow> string list \<Rightarrow> string list \<Rightarrow> policy_error option" where
  "check_models catalog seen [] = None"
| "check_models catalog seen (i # ids) =
     (if map_of catalog i = None then Some (ModelNotInCatalog i)
      else if i \<in> set seen then Some (ModelRepeated i)
      else check_models catalog (i # seen) ids)"

definition percent_fields :: "policy \<Rightarrow> float64 gomap" where
  "percent_fields p = [(''control_percent'', p_ControlPercent p),
     (''canary_percent'', p_CanaryPercent p), (''exploration_percent'', p_ExplorationPercent p)]"

text \<open>The loop ranges over a Go map: \<open>ord\<close> is the order this run visits its keys in.\<close>

fun check_percents :: "string list \<Rightarrow> policy \<Rightarrow> policy_error option" where
  "check_percents [] p = None"
| "check_percents (name # ord) p =
     (let v = lookup_zero (Fin 0) (percent_fields p) name
      in if flt v (Fin 0) \<or> flt (Fin 100) v then Some (PercentRange name)
         else check_percents ord p)"

definition policy_Validate :: "string list \<Rightarrow> policy \<Rightarrow> model gomap \<Rightarrow> policy_error option" where
  "policy_Validate ord p catalog =
     (if TrimSpace (p_ID p) = [] \<or> TrimSpace (p_TenantID p) = [] \<or> TrimSpace (p_Version p) = []
      then Some IdentityRequired
      else if p_Mode p \<notin> set [ModeObserve, ModeShadow, ModeCanary, ModeActive]
      then Some (UnsupportedMode (p_Mode p))
      else if map_of catalog (p_IncumbentModel p) = None
      then Some (IncumbentNotInCatalog (p_IncumbentModel p))
      else case check_models catalog [] (p_CandidateModels p @ p_FallbackModels p) of
        Some e \<Rightarrow> Some e
      | None \<Rightarrow>
          if flt (p_QualityTolerance p) (Fin 0) \<or> flt (Fin 1) (p_QualityTolerance p)
          then Some QualityToleranceRange
          else case check_percents ord p of
            Some e \<Rightarrow> Some e
          | None \<Rightarrow>
              if flt (Fin 3) (p_ExplorationPercent p) then Some ExplorationLimit
              else if fle (p_ConfidenceZ p) (Fin 0) then Some ConfidenceZNotPositive
              else None)"

end
