(* ===== verification/Json.thy ===== *)
theory Json
  imports Domain
begin

text \<open>
  What the program uses of \<^verbatim>\<open>encoding/json\<close> and \<^verbatim>\<open>unicode/utf8\<close>: a reader of JSON texts that
  keeps the text of every member and element (a \<^verbatim>\<open>json.RawMessage\<close> is that text), the decoding of
  a value into the Go types the program decodes into, and the writer used by \<^verbatim>\<open>json.Marshal\<close>.
\<close>

subsection \<open>UTF-8\<close>

definition byte :: "char \<Rightarrow> nat" where
  "byte c = of_char c"

definition byte_in :: "nat \<Rightarrow> nat \<Rightarrow> char \<Rightarrow> bool" where
  "byte_in a b c \<longleftrightarrow> a \<le> byte c \<and> byte c \<le> b"

definition rune_error :: nat where
  "rune_error = 0xFFFD"

text \<open>\<^verbatim>\<open>utf8.DecodeRune\<close>: the rune and its width; a byte that starts no rune is an error of width 1.\<close>

fun decode_rune :: "string \<Rightarrow> nat \<times> nat" where
  "decode_rune [] = (rune_error, 0)"
| "decode_rune (c # s) =
    (let b = byte c in
     if b < 0x80 then (b, 1)
     else if b < 0xC2 then (rune_error, 1)
     else if b < 0xE0
     then (case s of
         c1 # _ \<Rightarrow> if byte_in 0x80 0xBF c1 then ((b - 0xC0) * 64 + (byte c1 - 0x80), 2) else (rune_error, 1)
       | _ \<Rightarrow> (rune_error, 1))
     else if b < 0xF0
     then (case s of
         c1 # c2 # _ \<Rightarrow>
           if byte_in (if b = 0xE0 then 0xA0 else 0x80) (if b = 0xED then 0x9F else 0xBF) c1 \<and> byte_in 0x80 0xBF c2
           then ((b - 0xE0) * 4096 + (byte c1 - 0x80) * 64 + (byte c2 - 0x80), 3) else (rune_error, 1)
       | _ \<Rightarrow> (rune_error, 1))
     else if b < 0xF5
     then (case s of
         c1 # c2 # c3 # _ \<Rightarrow>
           if byte_in (if b = 0xF0 then 0x90 else 0x80) (if b = 0xF4 then 0x8F else 0xBF) c1
              \<and> byte_in 0x80 0xBF c2 \<and> byte_in 0x80 0xBF c3
           then ((b - 0xF0) * 262144 + (byte c1 - 0x80) * 4096 + (byte c2 - 0x80) * 64 + (byte c3 - 0x80), 4)
           else (rune_error, 1)
       | _ \<Rightarrow> (rune_error, 1))
     else (rune_error, 1))"

definition is_surrogate :: "nat \<Rightarrow> bool" where
  "is_surrogate r \<longleftrightarrow> 0xD800 \<le> r \<and> r < 0xE000"

text \<open>\<^verbatim>\<open>utf8.EncodeRune\<close>.\<close>

fun encode_rune :: "nat \<Rightarrow> string" where
  "encode_rune r =
    (if r < 0x80 then [char_of r]
     else if r < 0x800 then [char_of (0xC0 + r div 64), char_of (0x80 + r mod 64)]
     else if is_surrogate r \<or> 0x110000 \<le> r then [CHR 0xEF, CHR 0xBF, CHR 0xBD]
     else if r < 0x10000
     then [char_of (0xE0 + r div 4096), char_of (0x80 + r div 64 mod 64), char_of (0x80 + r mod 64)]
     else [char_of (0xF0 + r div 262144), char_of (0x80 + r div 4096 mod 64),
           char_of (0x80 + r div 64 mod 64), char_of (0x80 + r mod 64)])"

declare encode_rune.simps [simp del]

text \<open>\<^verbatim>\<open>len([]rune(s))\<close>.\<close>

function rune_count :: "string \<Rightarrow> int" where
  "rune_count [] = 0"
| "rune_count (c # s) = 1 + rune_count (drop (snd (decode_rune (c # s)) - 1) s)"
  by pat_completeness auto
termination by (relation "measure length") auto

subsection \<open>Reading a JSON text\<close>

text \<open>Numbers keep their literal, strings are unquoted, and every element and member keeps its text.\<close>

datatype jv = VNull | VBool bool | VNum string | VStr string
  | VArr "(string \<times> jv) list" | VObj "(string \<times> string \<times> jv) list"

definition is_ws :: "char \<Rightarrow> bool" where
  "is_ws c \<longleftrightarrow> c \<in> {CHR '' '', CHR 0x09, CHR 0x0A, CHR 0x0D}"

abbreviation skip_ws :: "string \<Rightarrow> string" where
  "skip_ws \<equiv> dropWhile is_ws"

definition is_digit :: "char \<Rightarrow> bool" where
  "is_digit c \<longleftrightarrow> byte_in 48 57 c"

definition hex_value :: "char \<Rightarrow> nat option" where
  "hex_value c =
    (if byte_in 48 57 c then Some (byte c - 48)
     else if byte_in 97 102 c then Some (byte c - 87)
     else if byte_in 65 70 c then Some (byte c - 55)
     else None)"

fun hex4 :: "string \<Rightarrow> nat option" where
  "hex4 (a # b # c # d # _) =
    (case (hex_value a, hex_value b, hex_value c, hex_value d) of
       (Some a', Some b', Some c', Some d') \<Rightarrow> Some (((a' * 16 + b') * 16 + c') * 16 + d')
     | _ \<Rightarrow> None)"
| "hex4 _ = None"

definition low_surrogate :: "string \<Rightarrow> nat option" where
  "low_surrogate s =
    (case s of
       b # u # t \<Rightarrow> if b = CHR 0x5C \<and> u = CHR ''u'' then
           (case hex4 t of Some r \<Rightarrow> if 0xDC00 \<le> r \<and> r < 0xE000 then Some r else None | None \<Rightarrow> None) else None
     | _ \<Rightarrow> None)"

text \<open>The characters after a backslash: what they stand for and how many they are.\<close>

fun escape :: "string \<Rightarrow> (string \<times> nat) option" where
  "escape [] = None"
| "escape (c # s) =
    (if c \<in> {CHR 0x22, CHR 0x5C, CHR ''/''} then Some ([c], 1)
     else if c = CHR ''b'' then Some ([CHR 0x08], 1)
     else if c = CHR ''f'' then Some ([CHR 0x0C], 1)
     else if c = CHR ''n'' then Some ([CHR 0x0A], 1)
     else if c = CHR ''r'' then Some ([CHR 0x0D], 1)
     else if c = CHR ''t'' then Some ([CHR 0x09], 1)
     else if c = CHR ''u''
     then (case hex4 s of
             None \<Rightarrow> None
           | Some r \<Rightarrow>
               if is_surrogate r
               then (case (r < 0xDC00, low_surrogate (drop 4 s)) of
                   (True, Some r1) \<Rightarrow> Some (encode_rune (0x10000 + (r - 0xD800) * 1024 + (r1 - 0xDC00)), 11)
                 | _ \<Rightarrow> Some (encode_rune rune_error, 5))
               else Some (encode_rune r, 5))
     else None)"

text \<open>A string literal after its opening quote: its value and the rest of the text.\<close>

function scan_string :: "string \<Rightarrow> (string \<times> string) option" where
  "scan_string [] = None"
| "scan_string (c # s) =
    (if c = CHR 0x22 then Some ([], s)
     else if c = CHR 0x5C
     then (case escape s of
             None \<Rightarrow> None
           | Some (out, k) \<Rightarrow> map_option (\<lambda>(x, r). (out @ x, r)) (scan_string (drop k s)))
     else if byte c < 0x20 then None
     else (case decode_rune (c # s) of
             (u, n) \<Rightarrow> map_option (\<lambda>(x, r). (encode_rune u @ x, r)) (scan_string (drop (n - 1) s))))"
  by pat_completeness auto
termination by (relation "measure length") auto

lemma scan_string_shorter: "scan_string s = Some (x, r) \<Longrightarrow> length r < length s"
proof (induction s arbitrary: x rule: scan_string.induct)
  case (2 c s)
  then show ?case
    by (fastforce split: if_splits option.splits prod.splits)
qed simp

declare scan_string.simps(2) [simp del]

text \<open>A number literal and the rest of the text.\<close>

definition scan_digits :: "string \<Rightarrow> (string \<times> string) option" where
  "scan_digits s = (if takeWhile is_digit s = [] then None else Some (takeWhile is_digit s, dropWhile is_digit s))"

definition scan_integer :: "string \<Rightarrow> (string \<times> string) option" where
  "scan_integer s =
    (case s of
       [] \<Rightarrow> None
     | c # t \<Rightarrow> if c = CHR ''0'' then Some ([c], t) else scan_digits s)"

definition scan_fraction :: "string \<Rightarrow> (string \<times> string) option" where
  "scan_fraction s =
    (case s of
       [] \<Rightarrow> Some ([], s)
     | c # t \<Rightarrow> if c = CHR ''.'' then map_option (\<lambda>(ds, r). (c # ds, r)) (scan_digits t) else Some ([], s))"

definition scan_exponent :: "string \<Rightarrow> (string \<times> string) option" where
  "scan_exponent s =
    (case s of
       [] \<Rightarrow> Some ([], s)
     | c # t \<Rightarrow>
         if c \<noteq> CHR ''e'' \<and> c \<noteq> CHR ''E'' then Some ([], s)
         else (case t of
             [] \<Rightarrow> None
           | g # u \<Rightarrow>
               if g = CHR ''+'' \<or> g = CHR ''-'' then map_option (\<lambda>(ds, r). (c # g # ds, r)) (scan_digits u)
               else map_option (\<lambda>(ds, r). (c # ds, r)) (scan_digits t)))"

definition scan_number :: "string \<Rightarrow> (string \<times> string) option" where
  "scan_number s =
    (case (if s \<noteq> [] \<and> hd s = CHR ''-'' then (''-'', tl s) else ([], s)) of (sign, s0) \<Rightarrow>
     case scan_integer s0 of None \<Rightarrow> None | Some (n, s1) \<Rightarrow>
     case scan_fraction s1 of None \<Rightarrow> None | Some (f, s2) \<Rightarrow>
     case scan_exponent s2 of None \<Rightarrow> None | Some (x, s3) \<Rightarrow> Some (sign @ n @ f @ x, s3))"

lemma length_skip_ws: "length (skip_ws s) \<le> length s"
  by (rule length_dropWhile_le)

lemma skip_ws_Cons_shorter: "skip_ws s = b # u \<Longrightarrow> length u < length s"
  using length_skip_ws [of s] by simp

text \<open>
  A value at the start of a text and the rest of the text; \<open>d\<close> is how many more levels of nesting
  the decoder accepts. The comparisons of lengths always hold (\<open>parse_shorter\<close>): they bound the loops.
\<close>

function parse_value :: "nat \<Rightarrow> string \<Rightarrow> (jv \<times> string) option"
  and parse_elems :: "nat \<Rightarrow> string \<Rightarrow> ((string \<times> jv) list \<times> string) option"
  and parse_members :: "nat \<Rightarrow> string \<Rightarrow> ((string \<times> string \<times> jv) list \<times> string) option" where
  "parse_value d s =
    (case s of
       [] \<Rightarrow> None
     | c # t \<Rightarrow>
         if c = CHR 0x22 then map_option (\<lambda>(x, r). (VStr x, r)) (scan_string t)
         else if c = CHR 0x7B
         then (if d = 0 then None
               else case skip_ws t of
                 [] \<Rightarrow> None
               | b # u \<Rightarrow> if b = CHR 0x7D then Some (VObj [], u)
                           else map_option (\<lambda>(ms, r). (VObj ms, r)) (parse_members (d - 1) (skip_ws t)))
         else if c = CHR 0x5B
         then (if d = 0 then None
               else case skip_ws t of
                 [] \<Rightarrow> None
               | b # u \<Rightarrow> if b = CHR 0x5D then Some (VArr [], u)
                           else map_option (\<lambda>(es, r). (VArr es, r)) (parse_elems (d - 1) (skip_ws t)))
         else if prefix ''null'' s then Some (VNull, drop 4 s)
         else if prefix ''true'' s then Some (VBool True, drop 4 s)
         else if prefix ''false'' s then Some (VBool False, drop 5 s)
         else map_option (\<lambda>(l, r). (VNum l, r)) (scan_number s))"
| "parse_elems d s =
    (case parse_value d s of
       None \<Rightarrow> None
     | Some (v, r) \<Rightarrow>
         (case skip_ws r of
            [] \<Rightarrow> None
          | b # u \<Rightarrow>
              if b = CHR 0x5D then Some ([(take (length s - length r) s, v)], u)
              else if b = CHR '','' \<and> length u < length s
              then map_option (\<lambda>(es, r'). ((take (length s - length r) s, v) # es, r')) (parse_elems d (skip_ws u))
              else None))"
| "parse_members d s =
    (case s of
       [] \<Rightarrow> None
     | q # t \<Rightarrow>
         if q \<noteq> CHR 0x22 then None
         else case scan_string t of
           None \<Rightarrow> None
         | Some (k, t1) \<Rightarrow>
             (case skip_ws t1 of
                [] \<Rightarrow> None
              | col # t2 \<Rightarrow>
                  if col \<noteq> CHR '':'' \<or> \<not> length t2 < length s then None
                  else case parse_value d (skip_ws t2) of
                    None \<Rightarrow> None
                  | Some (v, r) \<Rightarrow>
                      (let raw = take (length (skip_ws t2) - length r) (skip_ws t2) in
                       case skip_ws r of
                         [] \<Rightarrow> None
                       | b # u \<Rightarrow>
                           if b = CHR 0x7D then Some ([(k, raw, v)], u)
                           else if b = CHR '','' \<and> length u < length s
                           then map_option (\<lambda>(ms, r'). ((k, raw, v) # ms, r')) (parse_members d (skip_ws u))
                           else None)))"
  by pat_completeness auto

termination
  apply (relation "measure (\<lambda>x. case x of Inl (d, s) \<Rightarrow> 2 * length s
    | Inr (Inl (d, s)) \<Rightarrow> 2 * length s + 1 | Inr (Inr (d, s)) \<Rightarrow> 2 * length s + 1)")
  apply simp_all
  subgoal by (drule skip_ws_Cons_shorter) simp
  subgoal by (drule skip_ws_Cons_shorter) simp
  subgoal using length_skip_ws le_less_trans by blast
  subgoal for s q t a k t1 t2 using length_skip_ws [of t2] by linarith
  subgoal for d s q t a k t1 t2 m v r raw u using length_skip_ws [of u] by linarith
  done

declare parse_value.simps [simp del] parse_elems.simps [simp del] parse_members.simps [simp del]

text \<open>\<^verbatim>\<open>json.Unmarshal\<close> accepts one value and white space around it, at most 10000 levels deep;
  \<^verbatim>\<open>Decoder.Decode\<close> reads one value and leaves what follows.\<close>

definition max_nesting :: nat where
  "max_nesting = 10000"

definition json_value :: "string \<Rightarrow> jv option" where
  "json_value s =
    (case parse_value max_nesting (skip_ws s) of
       None \<Rightarrow> None
     | Some (v, r) \<Rightarrow> if skip_ws r = [] then Some v else None)"

definition first_value :: "string \<Rightarrow> jv option" where
  "first_value s = map_option fst (parse_value max_nesting (skip_ws s))"

subsection \<open>Decoding into Go types\<close>

text \<open>
  Decoding a value into a variable that holds \<open>cur\<close>: the variable afterwards, or \<open>None\<close> for an
  error. Null leaves a string, number or Boolean as it was and makes a map or slice empty. In a map
  the last of several members with one name counts.
\<close>

definition into_raw_map :: "jv \<Rightarrow> string gomap option" where
  "into_raw_map v =
    (case v of
       VNull \<Rightarrow> Some []
     | VObj ms \<Rightarrow> Some (foldl (\<lambda>m (k, raw, _). AList.update k raw m) [] ms)
     | _ \<Rightarrow> None)"

fun into_raw_maps :: "(string \<times> jv) list \<Rightarrow> string gomap list option" where
  "into_raw_maps [] = Some []"
| "into_raw_maps ((_, v) # es) =
    (case into_raw_map v of
       None \<Rightarrow> None
     | Some m \<Rightarrow> map_option (\<lambda>ms. m # ms) (into_raw_maps es))"

definition into_raw_map_slice :: "jv \<Rightarrow> string gomap list option" where
  "into_raw_map_slice v = (case v of VNull \<Rightarrow> Some [] | VArr es \<Rightarrow> into_raw_maps es | _ \<Rightarrow> None)"

definition into_raw_slice :: "jv \<Rightarrow> string list option" where
  "into_raw_slice v = (case v of VNull \<Rightarrow> Some [] | VArr es \<Rightarrow> Some (map fst es) | _ \<Rightarrow> None)"

definition into_string :: "string \<Rightarrow> jv \<Rightarrow> string option" where
  "into_string cur v = (case v of VNull \<Rightarrow> Some cur | VStr s \<Rightarrow> Some s | _ \<Rightarrow> None)"

definition into_bool :: "bool \<Rightarrow> jv \<Rightarrow> bool option" where
  "into_bool cur v = (case v of VNull \<Rightarrow> Some cur | VBool b \<Rightarrow> Some b | _ \<Rightarrow> None)"

definition digits_value :: "string \<Rightarrow> int" where
  "digits_value s = foldl (\<lambda>n c. 10 * n + (int (byte c) - 48)) 0 s"

text \<open>\<^verbatim>\<open>strconv.ParseInt\<close> on a number literal: a fraction, an exponent or overflow is an error.\<close>

definition into_int :: "int64 \<Rightarrow> jv \<Rightarrow> int64 option" where
  "into_int cur v =
    (case v of
       VNull \<Rightarrow> Some cur
     | VNum l \<Rightarrow>
         (case (if l \<noteq> [] \<and> hd l = CHR ''-'' then (True, tl l) else (False, l)) of (negative, ds) \<Rightarrow>
           let n = (if negative then - digits_value ds else digits_value ds)
           in if list_all is_digit ds \<and> is_int64 n then Some n else None)
     | _ \<Rightarrow> None)"

definition literal_value :: "string \<Rightarrow> rat" where
  "literal_value l =
    (let (sign, l0) = (if l \<noteq> [] \<and> hd l = CHR ''-'' then (-1, tl l) else (1, l));
         whole = takeWhile is_digit l0;
         l1 = dropWhile is_digit l0;
         fraction = (if l1 \<noteq> [] \<and> hd l1 = CHR ''.'' then takeWhile is_digit (tl l1) else []);
         l2 = (if l1 \<noteq> [] \<and> hd l1 = CHR ''.'' then dropWhile is_digit (tl l1) else l1);
         (down, ds) = (if l2 = [] then (False, [])
                       else if hd (tl l2) = CHR ''-'' then (True, tl (tl l2))
                       else if hd (tl l2) = CHR ''+'' then (False, tl (tl l2)) else (False, tl l2));
         e = nat (digits_value ds);
         mantissa = sign * (of_int (digits_value (whole @ fraction)) / 10 ^ length fraction)
     in if down then mantissa / 10 ^ e else mantissa * 10 ^ e)"

definition into_float64 :: "float64 \<Rightarrow> jv \<Rightarrow> float64 option" where
  "into_float64 cur v =
    (case v of
       VNull \<Rightarrow> Some cur
     | VNum l \<Rightarrow> (case f64 (literal_value l) of Fin x \<Rightarrow> Some (Fin x) | _ \<Rightarrow> None)
     | _ \<Rightarrow> None)"

text \<open>\<^verbatim>\<open>json.Unmarshal\<close> of a raw message into a variable that keeps its value on an error.\<close>

definition unmarshal_or_keep :: "('a \<Rightarrow> jv \<Rightarrow> 'a option) \<Rightarrow> string \<Rightarrow> 'a \<Rightarrow> 'a" where
  "unmarshal_or_keep into raw cur =
    (case json_value raw of None \<Rightarrow> cur | Some v \<Rightarrow> (case into cur v of None \<Rightarrow> cur | Some x \<Rightarrow> x))"

text \<open>The text under a key of a \<^verbatim>\<open>map[string]json.RawMessage\<close>, empty where the key is absent.\<close>

abbreviation raw_at :: "string gomap \<Rightarrow> string \<Rightarrow> string" where
  "raw_at \<equiv> lookup_zero []"

subsection \<open>Writing a JSON text\<close>

definition unicode_escape :: "nat \<Rightarrow> string" where
  "unicode_escape r = [CHR 0x5C, CHR ''u'', hex_digit (r div 4096 mod 16), hex_digit (r div 256 mod 16),
     hex_digit (r div 16 mod 16), hex_digit (r mod 16)]"

definition encode_ascii :: "bool \<Rightarrow> char \<Rightarrow> string" where
  "encode_ascii html c =
    (if c = CHR 0x22 \<or> c = CHR 0x5C then [CHR 0x5C, c]
     else if c = CHR 0x08 then [CHR 0x5C, CHR ''b'']
     else if c = CHR 0x0C then [CHR 0x5C, CHR ''f'']
     else if c = CHR 0x0A then [CHR 0x5C, CHR ''n'']
     else if c = CHR 0x0D then [CHR 0x5C, CHR ''r'']
     else if c = CHR 0x09 then [CHR 0x5C, CHR ''t'']
     else if byte c < 0x20 \<or> html \<and> c \<in> {CHR ''<'', CHR ''>'', CHR ''&''} then unicode_escape (byte c)
     else [c])"

function encode_chars :: "bool \<Rightarrow> string \<Rightarrow> string" where
  "encode_chars html [] = []"
| "encode_chars html (c # s) =
    (if byte c < 0x80 then encode_ascii html c @ encode_chars html s
     else case decode_rune (c # s) of (r, n) \<Rightarrow>
       (if r = rune_error \<and> n = 1 \<or> r = 0x2028 \<or> r = 0x2029 then unicode_escape r else take n (c # s))
       @ encode_chars html (drop (n - 1) s))"
  by pat_completeness auto
termination by (relation "measure (length \<circ> snd)") auto

declare encode_chars.simps(2) [simp del]

definition json_text :: "bool \<Rightarrow> string \<Rightarrow> string" where
  "json_text html s = CHR 0x22 # encode_chars html s @ [CHR 0x22]"

abbreviation json_string :: "string \<Rightarrow> string" where
  "json_string \<equiv> json_text True"

definition json_bool :: "bool \<Rightarrow> string" where
  "json_bool b = (if b then ''true'' else ''false'')"

text \<open>
  A raw message is compacted: white space between tokens goes, and in strings the characters
  that HTML treats specially and the two line separators are escaped. The flag tells
  whether the text is inside a string literal.
\<close>

fun compact :: "bool \<Rightarrow> string \<Rightarrow> string" where
  "compact inside [] = []"
| "compact False (c # s) = (if is_ws c then compact False s else c # compact (c = CHR 0x22) s)"
| "compact True (c # s) =
    (if c = CHR 0x22 then c # compact False s
     else if c = CHR 0x5C then c # (case s of [] \<Rightarrow> [] | e # t \<Rightarrow> e # compact True t)
     else if c \<in> {CHR ''<'', CHR ''>'', CHR ''&''} then unicode_escape (byte c) @ compact True s
     else if prefix [CHR 0xE2, CHR 0x80, CHR 0xA8] (c # s) then unicode_escape 0x2028 @ compact True (drop 2 s)
     else if prefix [CHR 0xE2, CHR 0x80, CHR 0xA9] (c # s) then unicode_escape 0x2029 @ compact True (drop 2 s)
     else c # compact True s)"

text \<open>\<^verbatim>\<open>RawMessage.MarshalJSON\<close> and the check of its text; an empty message is written as null.\<close>

definition marshal_raw :: "string \<Rightarrow> string option" where
  "marshal_raw raw =
    (if raw = [] then Some ''null'' else map_option (\<lambda>_. compact False raw) (json_value raw))"

fun marshal_members :: "(string \<times> string) list \<Rightarrow> string list option" where
  "marshal_members [] = Some []"
| "marshal_members ((k, raw) # ms) =
    (case marshal_raw raw of
       None \<Rightarrow> None
     | Some t \<Rightarrow> map_option (\<lambda>ts. (json_string k @ '':'' @ t) # ts) (marshal_members ms))"

fun comma_separated :: "string list \<Rightarrow> string" where
  "comma_separated [] = []"
| "comma_separated [t] = t"
| "comma_separated (t # ts) = t @ '','' @ comma_separated ts"

text \<open>\<^verbatim>\<open>json.Marshal\<close> of a \<^verbatim>\<open>map[string]json.RawMessage\<close> with its keys in order.\<close>

definition marshal_map :: "(string \<times> string) list \<Rightarrow> string option" where
  "marshal_map ms = map_option (\<lambda>ts. CHR 0x7B # comma_separated ts @ [CHR 0x7D]) (marshal_members ms)"

subsection \<open>Every reader consumes its text\<close>

lemma escape_width: "escape s = Some (out, k) \<Longrightarrow> 0 < k \<and> length out \<le> 4"
  by (cases s) (auto simp: encode_rune.simps split: if_splits option.splits prod.splits bool.splits)

lemma length_encode_rune: "length (encode_rune r) \<le> 4" "encode_rune r \<noteq> []"
  by (simp_all add: encode_rune.simps)

lemma scan_string_length: "scan_string s = Some (x, r) \<Longrightarrow> length x + 4 * length r \<le> 4 * length s"
proof (induction s arbitrary: x r rule: scan_string.induct)
  case (2 c s)
  consider (close) "c = CHR 0x22" | (esc) "c = CHR 0x5C" | (rune) "c \<noteq> CHR 0x22" "c \<noteq> CHR 0x5C" by blast
  then show ?case
  proof cases
    case close
    with "2.prems" show ?thesis by (simp add: scan_string.simps)
  next
    case esc
    with "2.prems" obtain out k y where e: "escape s = Some (out, k)" "scan_string (drop k s) = Some (y, r)" "x = out @ y"
      by (auto simp: scan_string.simps split: option.splits)
    have "length y + 4 * length r \<le> 4 * length (drop k s)" using "2.IH"(1) [OF _ esc e(1) refl e(2)] esc by simp
    then show ?thesis using escape_width [OF e(1)] e(3) by auto
  next
    case rune
    with "2.prems" obtain u n y where e: "decode_rune (c # s) = (u, n)" "scan_string (drop (n - 1) s) = Some (y, r)"
        "x = encode_rune u @ y" and c: "\<not> byte c < 0x20"
      by (auto simp: scan_string.simps split: if_splits prod.splits)
    have "length y + 4 * length r \<le> 4 * length (drop (n - 1) s)" using "2.IH"(2) [OF rune c e(1) [symmetric] e(2)] .
    then show ?thesis using length_encode_rune [of u] e(3) by auto
  qed
qed simp

lemma scan_number_shorter: "scan_number s = Some (l, r) \<Longrightarrow> length r < length s"
proof -
  have digits: "scan_digits s = Some (ds, r) \<Longrightarrow> length r < length s" for s ds r
    by (auto simp: scan_digits_def split: if_splits) (metis length_append length_greater_0_conv less_add_same_cancel2 takeWhile_dropWhile_id)
  have int: "scan_integer s = Some (ds, r) \<Longrightarrow> length r < length s" for s ds r
    by (auto simp: scan_integer_def dest: digits split: list.splits if_splits)
  have frac: "scan_fraction s = Some (ds, r) \<Longrightarrow> length r \<le> length s" for s ds r
    by (force simp: scan_fraction_def dest: digits split: list.splits if_splits)
  have expo: "scan_exponent s = Some (ds, r) \<Longrightarrow> length r \<le> length s" for s ds r
    by (force simp: scan_exponent_def dest: digits split: list.splits if_splits)
  show "scan_number s = Some (l, r) \<Longrightarrow> length r < length s"
    by (cases s) (force simp: scan_number_def dest!: int frac expo split: option.splits if_splits prod.splits)+
qed

text \<open>The texts kept in a value fit, without overlap, into the text of the value.\<close>

inductive sized :: "nat \<Rightarrow> jv \<Rightarrow> bool" where
  sized_null: "sized n VNull"
| sized_bool: "sized n (VBool b)"
| sized_num: "sized n (VNum l)"
| sized_str: "length x \<le> 4 * n \<Longrightarrow> sized n (VStr x)"
| sized_arr: "sum_list (map (\<lambda>(raw, v). Suc (length raw)) es) \<le> n \<Longrightarrow> (\<And>raw v. (raw, v) \<in> set es \<Longrightarrow> sized (length raw) v) \<Longrightarrow>
     sized n (VArr es)"
| sized_obj: "sum_list (map (\<lambda>(k, raw, v). Suc (length raw)) ms) \<le> n \<Longrightarrow> (\<And>k raw v. (k, raw, v) \<in> set ms \<Longrightarrow> sized (length raw) v) \<Longrightarrow>
     sized n (VObj ms)"

inductive_cases sized_arrE: "sized n (VArr es)"
inductive_cases sized_objE: "sized n (VObj ms)"
inductive_cases sized_strE: "sized n (VStr x)"

lemma sized_mono: "sized m v \<Longrightarrow> m \<le> n \<Longrightarrow> sized n v"
  by (cases v) (auto elim!: sized_arrE sized_objE sized_strE intro!: sized.intros elim: order_trans)

lemma parse_shorter:
  "parse_value d s = Some (v, r) \<Longrightarrow> length r < length s \<and> sized (length s - length r) v"
  "parse_elems d s = Some (es, r) \<Longrightarrow> sum_list (map (\<lambda>(raw, v). Suc (length raw)) es) + length r \<le> length s \<and>
     (\<forall>(raw, v)\<in>set es. sized (length raw) v)"
  "parse_members d s = Some (ms, r) \<Longrightarrow> sum_list (map (\<lambda>(k, raw, v). Suc (length raw)) ms) + length r \<le> length s \<and>
     (\<forall>(k, raw, v)\<in>set ms. sized (length raw) v)"
proof (induction d s and d s and d s arbitrary: v r and es r and ms r
    rule: parse_value_parse_elems_parse_members.induct)
  case (1 d s)
  obtain c t where s: "s = c # t" using "1.prems" by (cases s) (simp_all add: parse_value.simps)
  consider (str) "c = CHR 0x22" | (obj) "c = CHR 0x7B" | (arr) "c = CHR 0x5B"
    | (other) "c \<noteq> CHR 0x22" "c \<noteq> CHR 0x7B" "c \<noteq> CHR 0x5B" by blast
  then show ?case
  proof cases
    case str
    with "1.prems" s obtain x where x: "scan_string t = Some (x, r)" "v = VStr x"
      by (auto simp: parse_value.simps)
    show ?thesis using scan_string_length [OF x(1)] scan_string_shorter [OF x(1)] x(2) s
      by (auto intro!: sized.intros)
  next
    case obj
    with "1.prems" s obtain b u where d: "d \<noteq> 0" and b: "skip_ws t = b # u"
      by (auto simp: parse_value.simps split: if_splits list.splits)
    note u = skip_ws_Cons_shorter [OF b]
    show ?thesis
    proof (cases "b = CHR 0x7D")
      case True
      with "1.prems" s obj d b u show ?thesis by (auto simp: parse_value.simps intro!: sized.intros)
    next
      case False
      with "1.prems" s obj d b obtain ms where ms: "parse_members (d - 1) (b # u) = Some (ms, r)" "v = VObj ms"
        by (auto simp: parse_value.simps)
      have "sum_list (map (\<lambda>(k, raw, v). Suc (length raw)) ms) + length r \<le> length (b # u) \<and>
          (\<forall>(k, raw, v)\<in>set ms. sized (length raw) v)"
        using "1.IH"(1) [OF s _ obj d b False, of ms r] ms(1) b obj by simp
      then show ?thesis using u ms(2) s by (auto intro!: sized.intros)
    qed
  next
    case arr
    then have no: "c \<noteq> CHR 0x22" "c \<noteq> CHR 0x7B" by simp_all
    with "1.prems" s arr obtain b u where d: "d \<noteq> 0" and b: "skip_ws t = b # u"
      by (auto simp: parse_value.simps split: if_splits list.splits)
    note u = skip_ws_Cons_shorter [OF b]
    show ?thesis
    proof (cases "b = CHR 0x5D")
      case True
      with "1.prems" s arr d b u show ?thesis by (auto simp: parse_value.simps intro!: sized.intros)
    next
      case False
      with "1.prems" s arr d b obtain es where es: "parse_elems (d - 1) (b # u) = Some (es, r)" "v = VArr es"
        by (auto simp: parse_value.simps)
      have "sum_list (map (\<lambda>(raw, v). Suc (length raw)) es) + length r \<le> length (b # u) \<and>
          (\<forall>(raw, v)\<in>set es. sized (length raw) v)"
        using "1.IH"(2) [OF s no arr d b False, of es r] es(1) b by simp
      then show ?thesis using u es(2) s by (auto intro!: sized.intros)
    qed
  next
    case other
    have pv: "parse_value d s =
       (if prefix ''null'' s then Some (VNull, drop 4 s)
        else if prefix ''true'' s then Some (VBool True, drop 4 s)
        else if prefix ''false'' s then Some (VBool False, drop 5 s)
        else map_option (\<lambda>(l, r). (VNum l, r)) (scan_number s))"
      using other unfolding parse_value.simps [of d s] unfolding s by simp
    have ne: "0 < length s" by (simp add: s)
    show ?thesis
    proof (cases "prefix ''null'' s \<or> prefix ''true'' s \<or> prefix ''false'' s")
      case True
      then have "v \<in> {VNull, VBool True, VBool False} \<and> r \<in> {drop 4 s, drop 5 s}"
        using "1.prems" unfolding pv by (auto split: if_splits)
      then show ?thesis using ne by (auto intro: sized.intros)
    next
      case False
      then obtain l where "scan_number s = Some (l, r)" "v = VNum l"
        using "1.prems" unfolding pv by auto
      then show ?thesis using scan_number_shorter by (auto intro: sized.intros)
    qed
  qed
next
  case (2 d s)
  then obtain v r1 b u where v: "parse_value d s = Some (v, r1)" and b: "skip_ws r1 = b # u"
    by (auto simp: parse_elems.simps [of d s] split: option.splits list.splits)
  note head = "2.IH"(1) [OF v]
  note u = skip_ws_Cons_shorter [OF b]
  show ?case
  proof (cases "b = CHR 0x5D")
    case True
    with "2.prems" v b head u show ?thesis by (auto simp: parse_elems.simps [of d s])
  next
    case False
    with "2.prems" v b obtain es' where es: "b = CHR '','' \<and> length u < length s" "parse_elems d (skip_ws u) = Some (es', r)"
        "es = (take (length s - length r1) s, v) # es'"
      by (auto simp: parse_elems.simps [of d s] split: if_splits)
    have "sum_list (map (\<lambda>(raw, v). Suc (length raw)) es') + length r \<le> length (skip_ws u) \<and>
        (\<forall>(raw, v)\<in>set es'. sized (length raw) v)"
      using "2.IH"(2) [OF v refl b False es(1,2)] .
    then show ?thesis using head u length_skip_ws [of u] es(3) by auto
  qed
next
  case (3 d s)
  then obtain t k t1 t2 where s: "s = CHR 0x22 # t" and k: "scan_string t = Some (k, t1)"
      and col: "skip_ws t1 = CHR '':'' # t2" "length t2 < length s"
    by (auto simp: parse_members.simps [of d s] split: option.splits list.splits if_splits)
  with "3.prems" obtain v r1 b u where v: "parse_value d (skip_ws t2) = Some (v, r1)" and b: "skip_ws r1 = b # u"
    by (auto simp: parse_members.simps [of d "CHR 0x22 # t"] Let_def split: option.splits list.splits)
  have ncol: "\<not> (CHR '':'' \<noteq> CHR '':'' \<or> \<not> length t2 < length s)" using col(2) by simp
  note head = "3.IH"(1) [OF s _ k refl col(1) ncol v]
  note u = skip_ws_Cons_shorter [OF b]
  have t2: "length (skip_ws t2) < length s" using length_skip_ws [of t2] col(2) by simp
  show ?case
  proof (cases "b = CHR 0x7D")
    case True
    with "3.prems" s k col v b head u t2 show ?thesis by (auto simp: parse_members.simps [of d "CHR 0x22 # t"] Let_def)
  next
    case False
    with "3.prems" s k col v b obtain ms' where ms: "b = CHR '','' \<and> length u < length s" "parse_members d (skip_ws u) = Some (ms', r)"
        "ms = (k, take (length (skip_ws t2) - length r1) (skip_ws t2), v) # ms'"
      by (auto simp: parse_members.simps [of d "CHR 0x22 # t"] Let_def split: if_splits)
    have "sum_list (map (\<lambda>(k, raw, v). Suc (length raw)) ms') + length r \<le> length (skip_ws u) \<and>
        (\<forall>(k, raw, v)\<in>set ms'. sized (length raw) v)"
      using "3.IH"(2) [OF s _ k refl col(1) ncol v refl refl b False ms(1,2)] by simp
    then show ?thesis using head u t2 length_skip_ws [of u] ms(3) by auto
  qed
qed


lemma json_value_sized: "json_value s = Some v \<Longrightarrow> sized (length s) v"
proof -
  assume "json_value s = Some v"
  then obtain r where "parse_value max_nesting (skip_ws s) = Some (v, r)"
    by (auto simp: json_value_def split: option.splits if_splits)
  from parse_shorter(1) [OF this] show "sized (length s) v"
    using sized_mono [of "length (skip_ws s) - length r" v "length s"] length_skip_ws [of s] by simp
qed

lemma first_value_sized: "first_value s = Some v \<Longrightarrow> sized (length s) v"
proof -
  assume "first_value s = Some v"
  then obtain r where "parse_value max_nesting (skip_ws s) = Some (v, r)"
    by (auto simp: first_value_def)
  from parse_shorter(1) [OF this] show "sized (length s) v"
    using sized_mono [of "length (skip_ws s) - length r" v "length s"] length_skip_ws [of s] by simp
qed

lemma fold_raw_lookup:
  "lookup_zero [] (foldl (\<lambda>m (k, raw, _). AList.update k raw m) m0 ms) i \<in>
     insert (lookup_zero [] m0 i) ((\<lambda>(k, raw, v). raw) ` set ms)"
proof (induction ms arbitrary: m0)
  case (Cons a ms)
  obtain k raw v where a: "a = (k, raw, v)" by (cases a)
  show ?case using Cons.IH [of "AList.update k raw m0"] by (auto simp: a lookup_zero_update split: if_splits)
qed simp

lemma sum_list_member: "x \<in> set xs \<Longrightarrow> (f x :: nat) \<le> sum_list (map f xs)"
  by (simp add: member_le_sum_list)

lemma raw_map_length:
  assumes "sized n v" and "into_raw_map v = Some m"
  shows "length (raw_at m i) \<le> n"
proof (cases v)
  case (VObj ms)
  have total: "sum_list (map (\<lambda>(k, raw, v). Suc (length raw)) ms) \<le> n"
    using assms(1) VObj by (auto elim: sized_objE)
  have m: "m = foldl (\<lambda>m (k, raw, _). AList.update k raw m) [] ms" using assms(2) VObj by (simp add: into_raw_map_def)
  have "raw_at m i \<in> insert [] ((\<lambda>(k, raw, v). raw) ` set ms)"
    using fold_raw_lookup [of "[]" ms i] unfolding m by simp
  then consider "raw_at m i = []" | k raw w where "(k, raw, w) \<in> set ms" "raw_at m i = raw" by auto
  then show ?thesis
  proof cases
    case 2
    then show ?thesis using total sum_list_member [of "(k, raw, w)" ms "\<lambda>(k, raw, v). Suc (length raw)"] by simp
  qed simp
qed (use assms(2) in \<open>simp_all add: into_raw_map_def\<close>)

text \<open>The maps of a slice have as many bytes of text, and are as many, as the slice has.\<close>

lemma raw_maps_sized:
  assumes "into_raw_maps es = Some ms" and "\<And>raw v. (raw, v) \<in> set es \<Longrightarrow> sized (length raw) v"
  shows "\<exists>ns. length ns = length ms \<and> sum_list (map Suc ns) \<le> sum_list (map (\<lambda>(raw, v). Suc (length raw)) es) \<and>
    list_all2 (\<lambda>n m. \<forall>i. length (raw_at m i) \<le> n) ns ms"
  using assms
proof (induction es arbitrary: ms rule: into_raw_maps.induct)
  case (2 raw v es)
  then obtain m ms' where m: "into_raw_map v = Some m" "into_raw_maps es = Some ms'" "ms = m # ms'"
    by (auto split: option.splits)
  obtain ns where ns: "length ns = length ms'" "sum_list (map Suc ns) \<le> sum_list (map (\<lambda>(raw, v). Suc (length raw)) es)"
    "list_all2 (\<lambda>n m. \<forall>i. length (raw_at m i) \<le> n) ns ms'"
    using "2.IH" [OF m(1,2)] "2.prems"(2) by auto
  have "sized (length raw) v" using "2.prems"(2) by simp
  then show ?case
    using ns m raw_map_length by (intro exI [of _ "length raw # ns"]) auto
qed simp

lemma raw_map_slice_sized:
  assumes "sized n v" and "into_raw_map_slice v = Some ms"
  shows "\<exists>ns. length ns = length ms \<and> sum_list (map Suc ns) \<le> n \<and> list_all2 (\<lambda>n m. \<forall>i. length (raw_at m i) \<le> n) ns ms"
proof (cases v)
  case (VArr es)
  then show ?thesis
    using assms raw_maps_sized [of es ms] by (auto simp: into_raw_map_slice_def elim!: sized_arrE intro: order_trans)
qed (use assms(2) in \<open>simp_all add: into_raw_map_slice_def\<close>)

lemma rune_count_bounds: "0 \<le> rune_count s \<and> rune_count s \<le> int (length s)"
  by (induction s rule: rune_count.induct) auto

end
