(* ===== verification/SortSlice.thy ===== *)
theory SortSlice
  imports Prelude "HOL-Library.Multiset"
begin

text \<open>
  \<^verbatim>\<open>sort.Slice\<close>: the contract its callers rely on as the locale \<open>slice_sorter\<close>, and the insertion
  sort that the Go runtime uses for short slices as an instance of it.
\<close>

subsection \<open>sort.Slice\<close>

text \<open>
  Up to 12 elements \<^verbatim>\<open>sort.Slice\<close> is the insertion sort below: each element moves left while it
  is less than its left neighbour (\<open>sift\<close> works on the reversed prefix). Longer slices go
  through pattern-defeating quicksort, which is the runtime's \<open>rt_pdqsort\<close>.
\<close>

fun sift :: "('a \<Rightarrow> 'a \<Rightarrow> bool) \<Rightarrow> 'a \<Rightarrow> 'a list \<Rightarrow> 'a list" where
  "sift lt x [] = [x]"
| "sift lt x (y # ys) = (if lt x y then y # sift lt x ys else x # y # ys)"

definition insertionSort :: "('a \<Rightarrow> 'a \<Rightarrow> bool) \<Rightarrow> 'a list \<Rightarrow> 'a list" where
  "insertionSort lt xs = rev (foldl (\<lambda>acc x. sift lt x acc) [] xs)"

definition sort_Slice ::
  "(('a \<Rightarrow> 'a \<Rightarrow> bool) \<Rightarrow> 'a list \<Rightarrow> 'a list) \<Rightarrow> ('a \<Rightarrow> 'a \<Rightarrow> bool) \<Rightarrow> 'a list \<Rightarrow> 'a list" where
  "sort_Slice pdqsort lt xs = (if length xs \<le> 12 then insertionSort lt xs else pdqsort lt xs)"

subsection \<open>The contract of sort.Slice\<close>

definition strict_weak_on :: "('a \<Rightarrow> 'a \<Rightarrow> bool) \<Rightarrow> 'a set \<Rightarrow> bool" where
  "strict_weak_on lt A \<longleftrightarrow>
     (\<forall>a\<in>A. \<forall>b\<in>A. lt a b \<longrightarrow> \<not> lt b a) \<and>
     (\<forall>a\<in>A. \<forall>b\<in>A. \<forall>c\<in>A. \<not> lt a b \<longrightarrow> \<not> lt b c \<longrightarrow> \<not> lt a c)"

lemma strict_weak_on_subset: "strict_weak_on lt A \<Longrightarrow> B \<subseteq> A \<Longrightarrow> strict_weak_on lt B"
  unfolding strict_weak_on_def by (meson subsetD)

lemma strict_weak_on_asym:
  "strict_weak_on lt A \<Longrightarrow> a \<in> A \<Longrightarrow> b \<in> A \<Longrightarrow> lt a b \<Longrightarrow> \<not> lt b a"
  unfolding strict_weak_on_def by blast

lemma strict_weak_on_trans:
  "strict_weak_on lt A \<Longrightarrow> a \<in> A \<Longrightarrow> b \<in> A \<Longrightarrow> c \<in> A \<Longrightarrow> \<not> lt a b \<Longrightarrow> \<not> lt b c \<Longrightarrow> \<not> lt a c"
  unfolding strict_weak_on_def by blast

text \<open>
  What the documentation of \<^verbatim>\<open>sort.Slice\<close> promises: the same elements, and, where the
  comparison is a strict weak order, no element less than an earlier one.
\<close>

locale slice_sorter =
  fixes srt :: "('a \<Rightarrow> 'a \<Rightarrow> bool) \<Rightarrow> 'a list \<Rightarrow> 'a list"
  assumes permutes: "mset (srt lt xs) = mset xs"
    and ordered: "strict_weak_on lt (set xs) \<Longrightarrow> sorted_wrt (\<lambda>a b. \<not> lt b a) (srt lt xs)"
begin

lemma set_srt [simp]: "set (srt lt xs) = set xs"
  by (metis permutes set_mset_mset)

lemma length_srt [simp]: "length (srt lt xs) = length xs"
  by (metis permutes size_mset)

lemma srt_Nil_iff [simp]: "srt lt xs = [] \<longleftrightarrow> xs = []"
  by (metis length_0_conv length_srt)

lemma first_minimal:
  assumes "strict_weak_on lt (set xs)" and "srt lt xs = y # ys" and "x \<in> set xs"
  shows "\<not> lt x y"
proof -
  have "x \<in> set (y # ys)" using assms(2,3) set_srt by metis
  moreover have "\<not> lt y y" using strict_weak_on_asym [OF assms(1)] set_srt [of lt xs] assms(2)
    by (metis list.set_intros(1))
  ultimately show ?thesis
    using ordered [OF assms(1)] unfolding assms(2) by auto
qed

end

text \<open>The insertion sort of the Go runtime meets the contract.\<close>

lemma mset_sift: "mset (sift lt x ys) = add_mset x (mset ys)"
  by (induction ys) auto

lemma set_sift: "set (sift lt x ys) = insert x (set ys)"
  by (induction ys) auto

lemma mset_insertionSort: "mset (insertionSort lt xs) = mset xs"
proof -
  have "mset (foldl (\<lambda>acc x. sift lt x acc) acc xs) = mset acc + mset xs" for acc
    by (induction xs arbitrary: acc) (auto simp: mset_sift)
  then show ?thesis by (simp add: insertionSort_def)
qed

lemma sorted_sift:
  assumes "strict_weak_on lt (insert x (set ys))" and "sorted_wrt (\<lambda>a b. \<not> lt a b) ys"
  shows "sorted_wrt (\<lambda>a b. \<not> lt a b) (sift lt x ys)"
  using assms
proof (induction ys)
  case (Cons y ys)
  have sw: "strict_weak_on lt (insert x (set ys))"
    using Cons.prems(1) by (rule strict_weak_on_subset) auto
  show ?case
  proof (cases "lt x y")
    case True
    then have "\<not> lt y x" using strict_weak_on_asym [OF Cons.prems(1), of x y] by simp
    with True Cons.IH [OF sw] Cons.prems(2) show ?thesis by (auto simp: set_sift)
  next
    case False
    then have "\<not> lt x z" if "z \<in> set ys" for z
      using that Cons.prems(2) False strict_weak_on_trans [OF Cons.prems(1), of x y z] by simp
    with False Cons.prems(2) show ?thesis by auto
  qed
qed simp

lemma sorted_insertionSort:
  assumes "strict_weak_on lt (set xs)"
  shows "sorted_wrt (\<lambda>a b. \<not> lt b a) (insertionSort lt xs)"
proof -
  have "sorted_wrt (\<lambda>a b. \<not> lt a b) (foldl (\<lambda>acc x. sift lt x acc) acc ys)"
    if "sorted_wrt (\<lambda>a b. \<not> lt a b) acc" "set acc \<union> set ys \<subseteq> set xs" for acc ys
    using that
  proof (induction ys arbitrary: acc)
    case (Cons y ys)
    have "strict_weak_on lt (insert y (set acc))"
      using Cons.prems(2) by (intro strict_weak_on_subset [OF assms]) auto
    then have "sorted_wrt (\<lambda>a b. \<not> lt a b) (sift lt y acc)"
      using Cons.prems(1) by (rule sorted_sift)
    with Cons.IH Cons.prems(2) show ?case by (simp add: set_sift)
  qed simp
  from this [of "[]" xs] show ?thesis
    by (simp add: insertionSort_def sorted_wrt_rev)
qed

interpretation insertion: slice_sorter insertionSort
  by unfold_locales (fact mset_insertionSort, erule sorted_insertionSort)

text \<open>
  \<^verbatim>\<open>sort.Slice\<close> meets it too, whatever sorter with the documented behaviour the runtime uses
  for the slices that are too long for the insertion sort.
\<close>

locale pdq_sorter =
  fixes pdqsort :: "('a \<Rightarrow> 'a \<Rightarrow> bool) \<Rightarrow> 'a list \<Rightarrow> 'a list"
  assumes long_permutes: "12 < length xs \<Longrightarrow> mset (pdqsort lt xs) = mset xs"
    and long_ordered: "12 < length xs \<Longrightarrow> strict_weak_on lt (set xs) \<Longrightarrow>
      sorted_wrt (\<lambda>a b. \<not> lt b a) (pdqsort lt xs)"

sublocale pdq_sorter \<subseteq> slice_sorter "sort_Slice pdqsort"
  by unfold_locales (auto simp: sort_Slice_def mset_insertionSort long_permutes
      intro: sorted_insertionSort long_ordered)

context pdq_sorter begin

lemma set_sort_Slice: "set (sort_Slice pdqsort lt xs) = set xs"
  by (rule set_srt)

lemma length_sort_Slice: "length (sort_Slice pdqsort lt xs) = length xs"
  by (rule length_srt)

lemma sort_Slice_Nil_iff: "sort_Slice pdqsort lt xs = [] \<longleftrightarrow> xs = []"
  by (rule srt_Nil_iff)

lemma mset_sort_Slice: "mset (sort_Slice pdqsort lt xs) = mset xs"
  by (rule permutes)

lemma sorted_sort_Slice:
  "strict_weak_on lt (set xs) \<Longrightarrow> sorted_wrt (\<lambda>a b. \<not> lt b a) (sort_Slice pdqsort lt xs)"
  by (rule ordered)

lemma hd_sort_Slice_minimal:
  assumes "strict_weak_on lt (set xs)" and "x \<in> set xs"
  shows "\<not> lt x (hd (sort_Slice pdqsort lt xs))"
proof (cases "sort_Slice pdqsort lt xs")
  case Nil
  then show ?thesis using assms(2) by (simp add: sort_Slice_Nil_iff)
next
  case (Cons y ys)
  then show ?thesis using first_minimal [OF assms(1) Cons assms(2)] by simp
qed

end

interpretation insertion_pdq: pdq_sorter insertionSort
  by unfold_locales (simp_all add: insertion.permutes insertion.ordered)

end
