(* ===== verification/Request.thy ===== *)
theory Request
  imports Json SortSlice
begin

text \<open>
  \<^verbatim>\<open>internal/routing/request.go\<close>: reading a chat completion request, the token estimate on its
  text, and the body sent upstream. \<open>ToLower\<close> and the matching of field names fold ASCII letters.
\<close>

subsection \<open>Requests\<close>

text \<open>\<^verbatim>\<open>Raw\<close> holds the JSON text of every top-level field but \<^verbatim>\<open>routing\<close>.\<close>

record request =
  rq_Raw :: "string gomap"
  rq_Metadata :: routing_metadata
  rq_Features :: features
  rq_RequestedModel :: string
  rq_Stream :: bool

definition maxRequestBytes :: int where
  "maxRequestBytes = 32 * 2 ^ 20"

subsection \<open>Routing metadata\<close>

definition zero_metadata :: routing_metadata where
  "zero_metadata = \<lparr>md_TraceID = [], md_Workflow = [], md_Step = [], md_RiskClass = [], md_DeadlineMS = 0,
     md_PolicyID = [], md_RequiredRegion = [], md_RequiredPrivacy = [], md_MaxCostUSD = Fin 0\<rparr>"

text \<open>One member of the object: field names match without regard to case, unknown ones are skipped.\<close>

definition metadata_field :: "string \<Rightarrow> jv \<Rightarrow> routing_metadata \<Rightarrow> routing_metadata option" where
  "metadata_field k v md =
    (if EqualFold k ''trace_id'' then map_option (\<lambda>x. md\<lparr>md_TraceID := x\<rparr>) (into_string (md_TraceID md) v)
     else if EqualFold k ''workflow'' then map_option (\<lambda>x. md\<lparr>md_Workflow := x\<rparr>) (into_string (md_Workflow md) v)
     else if EqualFold k ''step'' then map_option (\<lambda>x. md\<lparr>md_Step := x\<rparr>) (into_string (md_Step md) v)
     else if EqualFold k ''risk_class'' then map_option (\<lambda>x. md\<lparr>md_RiskClass := x\<rparr>) (into_string (md_RiskClass md) v)
     else if EqualFold k ''deadline_ms'' then map_option (\<lambda>x. md\<lparr>md_DeadlineMS := x\<rparr>) (into_int (md_DeadlineMS md) v)
     else if EqualFold k ''policy_id'' then map_option (\<lambda>x. md\<lparr>md_PolicyID := x\<rparr>) (into_string (md_PolicyID md) v)
     else if EqualFold k ''required_region''
     then map_option (\<lambda>x. md\<lparr>md_RequiredRegion := x\<rparr>) (into_string (md_RequiredRegion md) v)
     else if EqualFold k ''required_privacy''
     then map_option (\<lambda>x. md\<lparr>md_RequiredPrivacy := x\<rparr>) (into_string (md_RequiredPrivacy md) v)
     else if EqualFold k ''max_cost_usd''
     then map_option (\<lambda>x. md\<lparr>md_MaxCostUSD := x\<rparr>) (into_float64 (md_MaxCostUSD md) v)
     else Some md)"

fun metadata_fields :: "(string \<times> string \<times> jv) list \<Rightarrow> routing_metadata \<Rightarrow> routing_metadata option" where
  "metadata_fields [] md = Some md"
| "metadata_fields ((k, _, v) # ms) md =
    (case metadata_field k v md of None \<Rightarrow> None | Some md' \<Rightarrow> metadata_fields ms md')"

definition into_metadata :: "routing_metadata \<Rightarrow> jv \<Rightarrow> routing_metadata option" where
  "into_metadata md v =
    (case v of VNull \<Rightarrow> Some md | VObj ms \<Rightarrow> metadata_fields ms md | _ \<Rightarrow> None)"

definition metadata_defaults :: "routing_metadata \<Rightarrow> routing_metadata" where
  "metadata_defaults md =
    (let md1 = (if md_Workflow md = [] then md\<lparr>md_Workflow := ''default''\<rparr> else md);
         md2 = (if md_Step md1 = [] then md1\<lparr>md_Step := ''response''\<rparr> else md1)
     in if md_RiskClass md2 = [] then md2\<lparr>md_RiskClass := RiskNormal\<rparr> else md2)"

definition riskValue :: "RiskClass \<Rightarrow> float64" where
  "riskValue risk =
    (if risk = RiskLow then Fin 0
     else if risk = RiskHigh then f64 (75 / 100)
     else if risk = RiskRegulated then Fin 1
     else f64 (35 / 100))"

subsection \<open>The token estimate\<close>

definition ToLower :: "string \<Rightarrow> string" where
  "ToLower s = map fold_char s"

text \<open>The tokens of one content part, and whether it is an image.\<close>

definition part_tokens :: "string gomap \<Rightarrow> int64 \<times> bool" where
  "part_tokens part =
    (let kind = ToLower (unmarshal_or_keep into_string (raw_at part ''type'') [])
     in if kind \<in> {''text'', ''input_text''}
        then (max 1 (rune_count (unmarshal_or_keep into_string (raw_at part ''text'') []) div 4), False)
        else if kind \<in> {''image_url'', ''input_image''} then (85, True)
        else (int (length (raw_at part ''text'')) div 4, False))"

definition estimateContentTokens :: "string \<Rightarrow> bool \<Rightarrow> int64 \<times> bool" where
  "estimateContentTokens raw hasVision =
    (if raw = [] \<or> raw = ''null'' then (0, hasVision)
     else case Option.bind (json_value raw) (into_string []) of
       Some text \<Rightarrow> (max 1 (rune_count text div 4), hasVision)
     | None \<Rightarrow>
         (case Option.bind (json_value raw) into_raw_map_slice of
            None \<Rightarrow> (int (length raw) div 4, hasVision)
          | Some parts \<Rightarrow>
              foldl (\<lambda>(tokens, vision) part. case part_tokens part of (n, picture) \<Rightarrow> (tokens + n, vision \<or> picture))
                (0, hasVision) parts))"

definition message_tokens :: "int64 \<times> bool \<Rightarrow> string gomap \<Rightarrow> int64 \<times> bool" where
  "message_tokens acc message =
    (case acc of (tokens, vision) \<Rightarrow>
     case estimateContentTokens (raw_at message ''content'') vision of (n, vision') \<Rightarrow>
       (tokens + n + (if raw_at message ''name'' \<noteq> [] then int (length (raw_at message ''name'')) div 4 else 0), vision'))"

subsection \<open>ParseRequest\<close>

datatype parse_error =
    BodyEmpty | BodyTooLarge | DecodeRequest | MessagesRequired | MessagesNotArray | DecodeMetadata

definition request_features :: "string gomap \<Rightarrow> routing_metadata \<Rightarrow> string gomap list \<Rightarrow> features" where
  "request_features raw md messages =
    (let (tokens, vision) = foldl message_tokens (0, False) messages;
         tools = Option.bind (map_of raw ''tools'') (\<lambda>t. Option.bind (json_value t) into_raw_slice);
         toolCount = (case tools of Some ts \<Rightarrow> int (length ts) | None \<Rightarrow> 0);
         tokens' = (case tools of Some _ \<Rightarrow> tokens + int (length (raw_at raw ''tools'')) div 4 | None \<Rightarrow> tokens);
         expected = (case map_of raw ''max_completion_tokens'' of
             Some v \<Rightarrow> unmarshal_or_keep into_int v 512
           | None \<Rightarrow> (case map_of raw ''max_tokens'' of
               Some v \<Rightarrow> unmarshal_or_keep into_int v 512
             | None \<Rightarrow> 512))
     in \<lparr>f_InputTokens = int_of_f64 (fmax (Fin 1) (f64_of_int (tokens' + 8 * int (length messages)))),
         f_ExpectedOutputTokens = (if expected \<le> 0 then 512 else expected),
         f_MessageCount = int (length messages), f_ToolCount = toolCount, f_HasVision = vision,
         f_HasStructuredOutput = (map_of raw ''response_format'' \<noteq> None),
         f_Risk = riskValue (md_RiskClass md)\<rparr>)"

definition ParseRequest :: "string \<Rightarrow> parse_error + request" where
  "ParseRequest body =
    (if body = [] then Inl BodyEmpty
     else if maxRequestBytes < int (length body) then Inl BodyTooLarge
     else case Option.bind (first_value body) into_raw_map of
       None \<Rightarrow> Inl DecodeRequest
     | Some raw \<Rightarrow>
         (case map_of raw ''messages'' of
            None \<Rightarrow> Inl MessagesRequired
          | Some value \<Rightarrow>
              (case Option.bind (json_value value) into_raw_map_slice of
                 None \<Rightarrow> Inl MessagesNotArray
               | Some messages \<Rightarrow>
                   if messages = [] then Inl MessagesNotArray
                   else case (case map_of raw ''routing'' of
                       None \<Rightarrow> Some (zero_metadata, raw)
                     | Some r \<Rightarrow> map_option (\<lambda>md. (md, AList.delete ''routing'' raw))
                         (Option.bind (json_value r) (into_metadata zero_metadata))) of
                     None \<Rightarrow> Inl DecodeMetadata
                   | Some (md, raw') \<Rightarrow>
                       Inr \<lparr>rq_Raw = raw', rq_Metadata = metadata_defaults md,
                            rq_Features = request_features raw' (metadata_defaults md) messages,
                            rq_RequestedModel = unmarshal_or_keep into_string (raw_at raw' ''model'') [],
                            rq_Stream = unmarshal_or_keep into_bool (raw_at raw' ''stream'') False\<rparr>)))"

subsection \<open>BodyForModel\<close>

definition body_fields :: "request \<Rightarrow> string \<Rightarrow> bool option \<Rightarrow> string gomap" where
  "body_fields r upstreamModel stream =
    (let body = AList.update ''model'' (json_string upstreamModel) (rq_Raw r)
     in case stream of None \<Rightarrow> body | Some b \<Rightarrow> AList.update ''stream'' (json_bool b) body)"

definition BodyForModel :: "request \<Rightarrow> string \<Rightarrow> bool option \<Rightarrow> string option" where
  "BodyForModel r upstreamModel stream =
     marshal_map (insertionSort (\<lambda>a b. string_less (fst a) (fst b)) (body_fields r upstreamModel stream))"

subsection \<open>The token estimate is proportional to the request\<close>

lemma unmarshal_string_length: "length (unmarshal_or_keep into_string raw []) \<le> 4 * length raw"
  by (auto simp: unmarshal_or_keep_def into_string_def split: option.splits jv.splits
      dest!: json_value_sized elim: sized_strE)

lemma int_div_4: "0 \<le> x \<Longrightarrow> x \<le> int (4 * n) \<Longrightarrow> x div 4 \<le> int n"
  by linarith

lemma part_tokens_bounds:
  assumes "\<And>i. length (raw_at part i) \<le> n"
  shows "0 \<le> fst (part_tokens part) \<and> fst (part_tokens part) \<le> 85 * int (Suc n)"
proof -
  have "rune_count (unmarshal_or_keep into_string (raw_at part ''text'') []) \<le> int (4 * n)"
    using rune_count_bounds [of "unmarshal_or_keep into_string (raw_at part ''text'') []"]
      unmarshal_string_length [of "raw_at part ''text''"] assms [of "''text''"] by linarith
  then have "rune_count (unmarshal_or_keep into_string (raw_at part ''text'') []) div 4 \<le> int n"
    using rune_count_bounds by (intro int_div_4) auto
  moreover have "int (length (raw_at part ''text'')) div 4 \<le> int n" using assms [of "''text''"] by linarith
  ultimately show ?thesis by (auto simp: part_tokens_def Let_def)
qed

lemma parts_tokens_bounds:
  assumes "list_all2 (\<lambda>n m. \<forall>i. length (raw_at m i) \<le> n) ns parts" and "0 \<le> t"
  shows "t \<le> fst (foldl (\<lambda>(tokens, vision) part. case part_tokens part of (n, picture) \<Rightarrow> (tokens + n, vision \<or> picture)) (t, v) parts) \<and>
    fst (foldl (\<lambda>(tokens, vision) part. case part_tokens part of (n, picture) \<Rightarrow> (tokens + n, vision \<or> picture)) (t, v) parts)
      \<le> t + 85 * int (sum_list (map Suc ns))"
  using assms
proof (induction arbitrary: t v rule: list_all2_induct)
  case (Cons n ns part parts)
  obtain k b where k: "part_tokens part = (k, b)" by (cases "part_tokens part")
  have "0 \<le> k" "k \<le> 85 * int (Suc n)" using part_tokens_bounds [of part n] Cons.hyps(1) k by auto
  moreover have "t + k \<le> fst (foldl (\<lambda>(tokens, vision) part. case part_tokens part of (n, picture) \<Rightarrow> (tokens + n, vision \<or> picture)) (t + k, v \<or> b) parts) \<and>
    fst (foldl (\<lambda>(tokens, vision) part. case part_tokens part of (n, picture) \<Rightarrow> (tokens + n, vision \<or> picture)) (t + k, v \<or> b) parts)
      \<le> t + k + 85 * int (sum_list (map Suc ns))"
    using \<open>0 \<le> k\<close> Cons.prems by (intro Cons.IH) simp
  ultimately show ?case by (simp add: k)
qed simp

lemma content_tokens_bounds:
  "0 \<le> fst (estimateContentTokens raw v) \<and> fst (estimateContentTokens raw v) \<le> 85 * int (length raw) + 1"
proof (cases "raw = [] \<or> raw = ''null''")
  case True
  then show ?thesis by (auto simp: estimateContentTokens_def)
next
  case False
  show ?thesis
  proof (cases "Option.bind (json_value raw) (into_string [])")
    case (Some str)
    then obtain w where w: "json_value raw = Some w" "into_string [] w = Some str"
      by (auto simp: bind_eq_Some_conv)
    then have "length str \<le> 4 * length raw"
      using json_value_sized [OF w(1)] by (auto simp: into_string_def elim: sized_strE split: jv.splits)
    then have "rune_count str div 4 \<le> int (length raw)"
      using rune_count_bounds [of str] by (intro int_div_4) linarith+
    then show ?thesis using False Some by (simp add: estimateContentTokens_def)
  next
    case None
    show ?thesis
    proof (cases "Option.bind (json_value raw) into_raw_map_slice")
      case none2: None
      have "int (length raw) div 4 \<le> 85 * int (length raw) + 1" by linarith
      then show ?thesis using False None none2 by (simp add: estimateContentTokens_def)
    next
      case (Some parts)
      then obtain w where w: "json_value raw = Some w" "into_raw_map_slice w = Some parts"
        by (auto simp: bind_eq_Some_conv)
      obtain ns where ns: "sum_list (map Suc ns) \<le> length raw"
          "list_all2 (\<lambda>n m. \<forall>i. length (raw_at m i) \<le> n) ns parts"
        using raw_map_slice_sized [OF json_value_sized [OF w(1)] w(2)] by blast
      have "int (sum_list (map Suc ns)) \<le> int (length raw)" using ns(1) by simp
      then show ?thesis
        using False None Some parts_tokens_bounds [OF ns(2), of 0 v] by (simp add: estimateContentTokens_def)
    qed
  qed
qed

lemma messages_tokens_bounds:
  assumes "list_all2 (\<lambda>n m. \<forall>i. length (raw_at m i) \<le> n) ns messages" and "0 \<le> t"
  shows "t \<le> fst (foldl message_tokens (t, v) messages) \<and>
    fst (foldl message_tokens (t, v) messages) \<le> t + 86 * int (sum_list (map Suc ns))"
  using assms
proof (induction arbitrary: t v rule: list_all2_induct)
  case (Cons n ns m messages)
  obtain k b where k: "message_tokens (t, v) m = (k, b)" by (cases "message_tokens (t, v) m")
  have "t \<le> k \<and> k \<le> t + 86 * int (Suc n)"
  proof -
    obtain c v' where c: "estimateContentTokens (raw_at m ''content'') v = (c, v')"
      by (cases "estimateContentTokens (raw_at m ''content'') v")
    have "0 \<le> c" "c \<le> 85 * int (length (raw_at m ''content'')) + 1"
      using content_tokens_bounds [of "raw_at m ''content''" v] c by auto
    moreover have "int (length (raw_at m ''content'')) \<le> int n" using Cons.hyps(1) by simp
    moreover have "int (length (raw_at m ''name'')) div 4 \<le> int n" "0 \<le> int (length (raw_at m ''name'')) div 4"
      using Cons.hyps(1) [rule_format, of "''name''"] by linarith+
    ultimately show ?thesis using k c by (auto simp: message_tokens_def split: if_splits)
  qed
  moreover have "k \<le> fst (foldl message_tokens (k, b) messages) \<and>
    fst (foldl message_tokens (k, b) messages) \<le> k + 86 * int (sum_list (map Suc ns))"
    using calculation Cons.prems by (intro Cons.IH) linarith
  ultimately show ?case by (simp add: k)
qed simp

lemma ParseRequest_Inr:
  assumes "ParseRequest body = Inr r"
  obtains raw msgs messages md raw' where
    "body \<noteq> []" and "int (length body) \<le> maxRequestBytes"
    and "Option.bind (first_value body) into_raw_map = Some raw" and "map_of raw ''messages'' = Some msgs"
    and "Option.bind (json_value msgs) into_raw_map_slice = Some messages" and "messages \<noteq> []"
    and "(md, raw') = (zero_metadata, raw) \<and> map_of raw ''routing'' = None \<or>
      (\<exists>t. map_of raw ''routing'' = Some t \<and> Option.bind (json_value t) (into_metadata zero_metadata) = Some md \<and>
         raw' = AList.delete ''routing'' raw)"
    and "rq_Raw r = raw'" and "rq_Metadata r = metadata_defaults md"
    and "rq_Features r = request_features raw' (metadata_defaults md) messages"
    and "rq_RequestedModel r = unmarshal_or_keep into_string (raw_at raw' ''model'') []"
    and "rq_Stream r = unmarshal_or_keep into_bool (raw_at raw' ''stream'') False"
  using assms unfolding ParseRequest_def
  by (auto split: if_splits option.splits) 

lemma f64_max_1:
  assumes "0 \<le> n" and "n \<le> 2 ^ 53"
  shows "int_of_f64 (fmax (Fin 1) (f64_of_int n)) = max 1 n"
proof -
  have "f64_of_int n = Fin (of_int n)" using assms by (intro f64_of_int_small) simp
  then show ?thesis using assms by (auto simp: fmax_def trunc_rat_def is_int64_def max_def)
qed

lemma unmarshal_int64: "is_int64 n \<Longrightarrow> is_int64 (unmarshal_or_keep into_int raw n)"
  by (auto simp: unmarshal_or_keep_def into_int_def Let_def split: option.splits jv.splits if_splits)

lemma request_features_bounds:
  assumes "list_all2 (\<lambda>n m. \<forall>i. length (raw_at m i) \<le> n) ns messages" and "sum_list (map Suc ns) \<le> n"
    and "\<And>i. length (raw_at raw i) \<le> n" and "0 < n" and "int n \<le> maxRequestBytes"
  shows "1 \<le> f_InputTokens (request_features raw md messages) \<and>
    f_InputTokens (request_features raw md messages) \<le> 95 * int n"
proof -
  obtain t v where t: "foldl message_tokens (0, False) messages = (t, v)"
    by (cases "foldl message_tokens (0, False) messages")
  have "0 \<le> t" "t \<le> 86 * int (sum_list (map Suc ns))"
    using messages_tokens_bounds [OF assms(1), of 0 False] t by auto
  moreover have "length messages \<le> sum_list (map Suc ns)"
  proof -
    have "length ns \<le> sum_list (map Suc ns)" by (induction ns) auto
    then show ?thesis using list_all2_lengthD [OF assms(1)] by simp
  qed
  ultimately have t': "0 \<le> t" "t + 8 * int (length messages) \<le> 94 * int n" using assms(2) by linarith+
  have "int (length (raw_at raw ''tools'')) \<le> int n" using assms(3) by simp
  then have tools: "0 \<le> int (length (raw_at raw ''tools'')) div 4" "int (length (raw_at raw ''tools'')) div 4 \<le> int n"
    by linarith+
  have n: "95 * int n \<le> 2 ^ 53" using assms(5) by (simp add: maxRequestBytes_def)
  define total where "total = (case Option.bind (map_of raw ''tools'') (\<lambda>t. Option.bind (json_value t) into_raw_slice) of
      Some _ \<Rightarrow> t + int (length (raw_at raw ''tools'')) div 4 | None \<Rightarrow> t) + 8 * int (length messages)"
  have total: "0 \<le> total" "total \<le> 95 * int n"
    using t' tools by (auto simp: total_def split: option.splits)
  have "f_InputTokens (request_features raw md messages) = int_of_f64 (fmax (Fin 1) (f64_of_int total))"
    by (simp add: request_features_def Let_def t total_def)
  also have "\<dots> = max 1 total" using total n by (intro f64_max_1) simp_all
  finally show ?thesis using total assms(4) by simp
qed

lemma request_features_counts:
  "0 < f_ExpectedOutputTokens (request_features raw md messages)"
  "is_int64 (f_ExpectedOutputTokens (request_features raw md messages))"
  "f_MessageCount (request_features raw md messages) = int (length messages)"
  "0 \<le> f_ToolCount (request_features raw md messages)"
  "f_Risk (request_features raw md messages) = riskValue (md_RiskClass md)"
proof -
  have "is_int64 512" by (simp add: is_int64_def)
  then show "is_int64 (f_ExpectedOutputTokens (request_features raw md messages))"
    using unmarshal_int64 [of 512] by (simp add: request_features_def Let_def case_prod_unfold split: option.splits)
qed (simp_all add: request_features_def Let_def case_prod_unfold split: option.splits)

lemma metadata_defaults_nonempty:
  "md_Workflow (metadata_defaults md) \<noteq> []" "md_Step (metadata_defaults md) \<noteq> []" "md_RiskClass (metadata_defaults md) \<noteq> []"
  by (simp_all add: metadata_defaults_def Let_def)

text \<open>C31: A request that parses is well formed whatever its text: at least one message, at least one and at
  most 95 estimated input tokens per byte - an exact count, far from the limits of an integer or of
  a float - a positive output estimate, non-empty defaults, and no routing metadata left to send upstream.\<close>

theorem ParseRequest_wellformed:
  assumes "ParseRequest body = Inr r"
  shows "1 \<le> f_InputTokens (rq_Features r) \<and> f_InputTokens (rq_Features r) \<le> 95 * int (length body) \<and>
    int (length body) \<le> maxRequestBytes \<and>
    0 < f_ExpectedOutputTokens (rq_Features r) \<and> is_int64 (f_ExpectedOutputTokens (rq_Features r)) \<and>
    1 \<le> f_MessageCount (rq_Features r) \<and> f_MessageCount (rq_Features r) \<le> int (length body) \<and>
    0 \<le> f_ToolCount (rq_Features r) \<and> f_Risk (rq_Features r) = riskValue (md_RiskClass (rq_Metadata r)) \<and>
    md_Workflow (rq_Metadata r) \<noteq> [] \<and> md_Step (rq_Metadata r) \<noteq> [] \<and> md_RiskClass (rq_Metadata r) \<noteq> [] \<and>
    ''routing'' \<notin> set (map fst (rq_Raw r)) \<and> ''messages'' \<in> set (map fst (rq_Raw r))"
proof (rule ParseRequest_Inr [OF assms])
  fix raw msgs messages md raw'
  assume p: "body \<noteq> []" "int (length body) \<le> maxRequestBytes" "Option.bind (first_value body) into_raw_map = Some raw"
    "map_of raw ''messages'' = Some msgs" "Option.bind (json_value msgs) into_raw_map_slice = Some messages" "messages \<noteq> []"
    and md: "(md, raw') = (zero_metadata, raw) \<and> map_of raw ''routing'' = None \<or>
      (\<exists>t. map_of raw ''routing'' = Some t \<and> Option.bind (json_value t) (into_metadata zero_metadata) = Some md \<and>
         raw' = AList.delete ''routing'' raw)"
    and r: "rq_Raw r = raw'" "rq_Metadata r = metadata_defaults md"
      "rq_Features r = request_features raw' (metadata_defaults md) messages"
  obtain v w where v: "first_value body = Some v" "into_raw_map v = Some raw"
      and w: "json_value msgs = Some w" "into_raw_map_slice w = Some messages"
    using p(3,5) by (auto simp: bind_eq_Some_conv)
  have raw: "length (raw_at raw i) \<le> length body" for i by (rule raw_map_length [OF first_value_sized [OF v(1)] v(2)])
  have raw': "map_of raw' i = (if i = ''routing'' then None else map_of raw i)" for i
    using md by (auto simp: delete_conv)
  then have raw'_at: "length (raw_at raw' i) \<le> length body" for i
    using raw [of i] by (simp add: lookup_zero_def split: if_splits)
  have msgs: "length msgs \<le> length body" using raw [of "''messages''"] p(4) by (simp add: lookup_zero_def)
  obtain ns where ns: "length ns = length messages" "sum_list (map Suc ns) \<le> length msgs"
      "list_all2 (\<lambda>n m. \<forall>i. length (raw_at m i) \<le> n) ns messages"
    using raw_map_slice_sized [OF json_value_sized [OF w(1)] w(2)] by blast
  have "length ns \<le> sum_list (map Suc ns)" by (induction ns) auto
  then have count: "int (length messages) \<le> int (length body)" using ns msgs by linarith
  have tokens: "1 \<le> f_InputTokens (rq_Features r) \<and> f_InputTokens (rq_Features r) \<le> 95 * int (length body)"
    unfolding r(3) using ns(2) msgs p(1,2) by (intro request_features_bounds [OF ns(3)] raw'_at) simp_all
  have "''routing'' \<notin> fst ` set raw'" "''messages'' \<in> fst ` set raw'"
    using raw' [of "''routing''"] raw' [of "''messages''"] p(4) by (auto simp: map_of_eq_None_iff dest: map_of_SomeD intro: rev_image_eqI)
  moreover have "1 \<le> int (length messages)" using p(6) by (cases messages) auto
  ultimately show ?thesis
    using tokens p(2) count by (simp add: r request_features_counts metadata_defaults_nonempty)
qed

definition sample_body :: string where
  "sample_body = ''{'' @ [CHR 0x22] @ ''messages'' @ [CHR 0x22] @ '':[{}]}''"

lemma sample_parse:
  "ParseRequest sample_body = Inr \<lparr>rq_Raw = [(''messages'', ''[{}]'')],
     rq_Metadata = metadata_defaults zero_metadata, rq_Features = request_features [(''messages'', ''[{}]'')] (metadata_defaults zero_metadata) [[]],
     rq_RequestedModel = [], rq_Stream = False\<rparr>"
proof -
  have "Option.bind (first_value sample_body) into_raw_map = Some [(''messages'', ''[{}]'')]"
    by code_simp
  moreover have "Option.bind (json_value ''[{}]'') into_raw_map_slice = Some [[]]"
    by code_simp
  moreover have "json_value [] = None" by code_simp
  ultimately show ?thesis
    by (simp add: ParseRequest_def unmarshal_or_keep_def) (simp add: sample_body_def maxRequestBytes_def)
qed

theorem ParseRequest_wellformed_witness:
  "\<exists>r. ParseRequest sample_body = Inr r \<and> f_MessageCount (rq_Features r) = 1 \<and> f_InputTokens (rq_Features r) \<le> 95 * 17"
proof -
  obtain r where r: "ParseRequest sample_body = Inr r" and one: "f_MessageCount (rq_Features r) = 1"
    using sample_parse by (simp add: request_features_counts)
  have len: "int (length sample_body) = 17" by (simp add: sample_body_def)
  show ?thesis using ParseRequest_wellformed [OF r] r one unfolding len by blast
qed

end
