(* ===== verification/Sample.thy ===== *)
theory Sample
  imports Request
begin

text \<open>
  A small concrete deployment, taken from the fixtures of the Go tests: three models, one policy
  and one request. The witnesses of the properties evaluate the model on it.
\<close>

definition premium :: model where
  "premium = \<lparr>m_ID = ''premium'', m_Provider = ''p'', m_UpstreamModel = ''premium-v1'',
     m_Region = ''us-east'', m_Privacy = PrivacyZDR, m_ContextWindow = 128000,
     m_SupportsTools = True, m_SupportsStructured = True, m_SupportsVision = True,
     m_InputCostPerMTokens = Fin 5, m_OutputCostPerMTokens = Fin 20, m_P95LatencyMS = 1000,
     m_QualityPrior = f64 (92 / 100), m_Enabled = True, m_Version = ''1''\<rparr>"

definition balanced :: model where
  "balanced = premium\<lparr>m_ID := ''balanced'', m_UpstreamModel := ''balanced-v1'',
     m_InputCostPerMTokens := Fin 1, m_OutputCostPerMTokens := Fin 4, m_P95LatencyMS := 700,
     m_QualityPrior := f64 (91 / 100)\<rparr>"

definition economy :: model where
  "economy = premium\<lparr>m_ID := ''economy'', m_UpstreamModel := ''economy-v1'',
     m_Privacy := PrivacyStandard, m_ContextWindow := 16000, m_SupportsTools := False,
     m_SupportsVision := False, m_InputCostPerMTokens := f64 (2 / 10),
     m_OutputCostPerMTokens := f64 (8 / 10), m_P95LatencyMS := 400,
     m_QualityPrior := f64 (85 / 100)\<rparr>"

definition sample_catalog :: "model gomap" where
  "sample_catalog = [(''premium'', premium), (''balanced'', balanced), (''economy'', economy)]"

definition sample_score :: "rat \<Rightarrow> rat \<Rightarrow> model_score" where
  "sample_score rate unc = \<lparr>sc_SuccessRate = f64 rate, sc_Uncertainty = f64 unc,
     sc_Samples = 1000, sc_Weights = [], sc_Bias = Fin 0\<rparr>"

definition sample_snapshot :: snapshot where
  "sample_snapshot = \<lparr>sn_Version = ''snapshot'', sn_CatalogVersion = ''catalog'', sn_TrainedAt = 1,
     sn_Global = [(''balanced'', sample_score (91 / 100) (5 / 1000)),
                  (''economy'', sample_score (85 / 100) (1 / 100)),
                  (''premium'', sample_score (92 / 100) (4 / 1000))],
     sn_ByWorkflow = []\<rparr>"

definition sample_policy :: policy where
  "sample_policy = \<lparr>p_ID = ''policy'', p_TenantID = ''tenant'', p_Version = ''1'',
     p_Mode = ModeActive, p_IncumbentModel = ''premium'',
     p_CandidateModels = [''balanced'', ''economy''], p_FallbackModels = [],
     p_QualityTolerance = f64 (3 / 100), p_ConfidenceZ = f64 (1645 / 1000), p_MinimumSamples = 100,
     p_ControlPercent = Fin 0, p_CanaryPercent = Fin 0, p_ExplorationPercent = Fin 0,
     p_ShadowBudgetUSDPerDay = Fin 0, p_PrimaryOutcome = ''resolution'',
     p_Constraints = \<lparr>pc_AllowedRegions = [], pc_RequiredPrivacy = [],
       pc_MaxEstimatedCostUSD = Fin 0, pc_MaxP95LatencyMS = 2000\<rparr>,
     p_Snapshot = sample_snapshot, p_Drifted = False, p_CreatedAt = 1\<rparr>"

definition sample_metadata :: routing_metadata where
  "sample_metadata = \<lparr>md_TraceID = ''trace-1'', md_Workflow = ''support'', md_Step = ''draft'',
     md_RiskClass = RiskNormal, md_DeadlineMS = 0, md_PolicyID = [], md_RequiredRegion = [],
     md_RequiredPrivacy = [], md_MaxCostUSD = Fin 0\<rparr>"

definition sample_features :: features where
  "sample_features = \<lparr>f_InputTokens = 15, f_ExpectedOutputTokens = 512, f_MessageCount = 1,
     f_ToolCount = 0, f_HasVision = False, f_HasStructuredOutput = False,
     f_Risk = f64 (35 / 100)\<rparr>"

definition sample_request :: request where
  "sample_request = \<lparr>rq_Raw = [(''messages'', ''[]'')], rq_Metadata = sample_metadata,
     rq_Features = sample_features, rq_RequestedModel = ''auto'', rq_Stream = False\<rparr>"

lemmas sample_model_defs = premium_def balanced_def economy_def
lemmas sample_defs = sample_model_defs sample_catalog_def sample_score_def sample_snapshot_def
  sample_policy_def sample_metadata_def sample_features_def sample_request_def

end
