(* ===== verification/Policy_Validity.thy ===== *)
theory Policy_Validity
  imports Sample
begin

text \<open>
  What \<^verbatim>\<open>Policy.Validate\<close> and \<^verbatim>\<open>Outcome.NumericValue\<close> of \<^verbatim>\<open>internal/domain/types.go\<close> guarantee: the
  declarative notion of a valid policy and which outcome values count as a number.
\<close>

subsection \<open>What a validated policy satisfies\<close>

definition percent_ok :: "float64 \<Rightarrow> bool" where
  "percent_ok v \<longleftrightarrow> \<not> flt v (Fin 0) \<and> \<not> flt (Fin 100) v"

definition valid_policy :: "policy \<Rightarrow> model gomap \<Rightarrow> bool" where
  "valid_policy p catalog \<longleftrightarrow>
     TrimSpace (p_ID p) \<noteq> [] \<and> TrimSpace (p_TenantID p) \<noteq> [] \<and> TrimSpace (p_Version p) \<noteq> [] \<and>
     p_Mode p \<in> {ModeObserve, ModeShadow, ModeCanary, ModeActive} \<and>
     map_of catalog (p_IncumbentModel p) \<noteq> None \<and>
     distinct (p_CandidateModels p @ p_FallbackModels p) \<and>
     (\<forall>i\<in>set (p_CandidateModels p @ p_FallbackModels p). map_of catalog i \<noteq> None) \<and>
     \<not> flt (p_QualityTolerance p) (Fin 0) \<and> \<not> flt (Fin 1) (p_QualityTolerance p) \<and>
     percent_ok (p_ControlPercent p) \<and> percent_ok (p_CanaryPercent p) \<and>
     percent_ok (p_ExplorationPercent p) \<and> \<not> flt (Fin 3) (p_ExplorationPercent p) \<and>
     \<not> fle (p_ConfidenceZ p) (Fin 0)"

lemma check_models_None:
  "check_models catalog seen ids = None \<longleftrightarrow>
     distinct ids \<and> (\<forall>i\<in>set ids. map_of catalog i \<noteq> None \<and> i \<notin> set seen)"
  by (induction ids arbitrary: seen) auto

lemma check_percents_None:
  "check_percents ord p = None \<longleftrightarrow>
     (\<forall>name\<in>set ord. percent_ok (lookup_zero (Fin 0) (percent_fields p) name))"
  by (induction ord) (auto simp: percent_ok_def Let_def)

text \<open>The keys of the percentage map; a range over it visits each once, in some order.\<close>

definition percent_order :: "string list \<Rightarrow> bool" where
  "percent_order ord \<longleftrightarrow> distinct ord \<and> set ord = set (map fst (percent_fields undefined))"

lemma percent_order_keys:
  "percent_order ord \<Longrightarrow> set ord = {''control_percent'', ''canary_percent'', ''exploration_percent''}"
  by (simp add: percent_order_def percent_fields_def)

lemma policy_Validate_None:
  assumes "percent_order ord"
  shows "policy_Validate ord p catalog = None \<longleftrightarrow> valid_policy p catalog"
proof -
  have "check_percents ord p = None \<longleftrightarrow> percent_ok (p_ControlPercent p) \<and>
      percent_ok (p_CanaryPercent p) \<and> percent_ok (p_ExplorationPercent p)"
    by (simp add: check_percents_None percent_order_keys [OF assms] percent_fields_def lookup_zero_def)
  then show ?thesis
    unfolding policy_Validate_def valid_policy_def
    by (simp only: guard_chain check_models_None) (auto simp del: not_None_eq)
qed

text \<open>C37: A policy passes validation exactly when it is well formed: identified, in a known mode, its
  incumbent and all its candidates and fallbacks in the catalog and none of them listed twice,
  its tolerance a probability, its percentages percentages, exploration at most 3% and the
  confidence multiplier positive. The order in which the percentages are visited does not matter.\<close>

theorem policy_Validate_iff:
  assumes "percent_order ord"
  shows "policy_Validate ord p catalog = None \<longleftrightarrow> valid_policy p catalog"
  using assms by (rule policy_Validate_None)

lemma sample_mode_facts:
  "p_Mode sample_policy \<in> {ModeObserve, ModeShadow, ModeCanary, ModeActive}"
  by (simp add: sample_policy_def)

lemma sample_tolerance: "f64 (3 / 100) = Fin (2161727821137838 / 72057594037927936) \<and>
  f64 (1645 / 1000) = Fin (3704210693512233 / 2251799813685248)"
  by code_simp

lemma sample_names_trimmed: "TrimSpace ''policy'' = ''policy'' \<and> TrimSpace ''tenant'' = ''tenant'' \<and>
  TrimSpace ''1'' = ''1''"
  by code_simp

lemma sample_policy_valid: "valid_policy sample_policy sample_catalog"
  by (simp add: valid_policy_def percent_ok_def sample_policy_def sample_catalog_def
      sample_tolerance [simplified] sample_names_trimmed)

theorem policy_Validate_iff_witness:
  "policy_Validate [''exploration_percent'', ''control_percent'', ''canary_percent''] sample_policy
     sample_catalog = None"
  using policy_Validate_iff [of "[''exploration_percent'', ''control_percent'', ''canary_percent'']"
      sample_policy sample_catalog] sample_policy_valid
  by (simp add: percent_order_def percent_fields_def insert_commute)

subsection \<open>Outcome values\<close>

text \<open>An outcome is numeric exactly when its value is a number within binary64 range, a boolean, or
  null; a boolean counts as 1 or 0, and null, which carries no verdict, counts as the failure 0.\<close>

theorem NumericValue_cases:
  "NumericValue out =
     (case o_Value out of
        Some (JNum q) \<Rightarrow> (case f64 q of Fin v \<Rightarrow> (Fin v, True) | _ \<Rightarrow> (Fin 0, False))
      | Some (JBool b) \<Rightarrow> (Fin (if b then 1 else 0), True)
      | Some JNull \<Rightarrow> (Fin 0, True)
      | _ \<Rightarrow> (Fin 0, False))"
  by (cases "o_Value out") (auto simp: NumericValue_def Let_def split: json.splits float64.splits)

end
