(* ===== verification/Feasibility.thy ===== *)
theory Feasibility
  imports Sample
begin

text \<open>
  The hard constraints of the routing engine (\<^verbatim>\<open>internal/routing/engine.go\<close>): the reason why a
  model cannot serve a request, and what an empty reason guarantees.
\<close>

subsection \<open>The engine\<close>

record engine =
  e_Catalog :: "model gomap"
  e_Health :: "(string \<Rightarrow> bool) option"
  e_Now :: "time option"

definition sample_engine :: engine where
  "sample_engine = \<lparr>e_Catalog = sample_catalog, e_Health = None, e_Now = None\<rparr>"

subsection \<open>Region and privacy tests\<close>

fun containsFold :: "string list \<Rightarrow> string \<Rightarrow> bool" where
  "containsFold [] target = False"
| "containsFold (v # vs) target = (if EqualFold v target then True else containsFold vs target)"

definition privacySatisfies :: "Privacy \<Rightarrow> Privacy \<Rightarrow> bool" where
  "privacySatisfies actual required =
     (if required = [] \<or> required = PrivacyStandard then True
      else if required = PrivacyZDR then actual = PrivacyZDR \<or> actual = PrivacyLocal
      else actual = PrivacyLocal)"

subsection \<open>Cost and feasibility\<close>

definition estimateCost :: "model \<Rightarrow> features \<Rightarrow> float64" where
  "estimateCost m f =
     fdiv (fadd (fmul (f64_of_int (f_InputTokens f)) (m_InputCostPerMTokens m))
                (fmul (f64_of_int (f_ExpectedOutputTokens f)) (m_OutputCostPerMTokens m)))
          (Fin 1000000)"

definition ActualCost :: "model \<Rightarrow> int64 \<Rightarrow> int64 \<Rightarrow> float64" where
  "ActualCost m inputTokens outputTokens =
     fdiv (fadd (fmul (f64_of_int inputTokens) (m_InputCostPerMTokens m))
                (fmul (f64_of_int outputTokens) (m_OutputCostPerMTokens m)))
          (Fin 1000000)"

definition infeasibleReason :: "engine \<Rightarrow> policy \<Rightarrow> model \<Rightarrow> request \<Rightarrow> float64 \<Rightarrow> string" where
  "infeasibleReason e policy m request cost =
    (let md = rq_Metadata request; f = rq_Features request; pc = p_Constraints policy;
         neededTokens = wrap64 (f_InputTokens f + f_ExpectedOutputTokens f);
         requiredRegion = md_RequiredRegion md;
         requiredPrivacy = (if md_RequiredPrivacy md = [] then pc_RequiredPrivacy pc
                            else md_RequiredPrivacy md);
         deadline = (if md_DeadlineMS md = 0 then pc_MaxP95LatencyMS pc else md_DeadlineMS md);
         maxCost = (if feq (md_MaxCostUSD md) (Fin 0) then pc_MaxEstimatedCostUSD pc
                    else md_MaxCostUSD md)
     in if \<not> m_Enabled m then ''model_disabled''
        else if (case e_Health e of None \<Rightarrow> False | Some available \<Rightarrow> \<not> available (m_Provider m))
        then ''provider_circuit_open''
        else if 0 < m_ContextWindow m \<and> m_ContextWindow m < neededTokens then ''context_window''
        else if 0 < f_ToolCount f \<and> \<not> m_SupportsTools m then ''tools_unsupported''
        else if f_HasStructuredOutput f \<and> \<not> m_SupportsStructured m
        then ''structured_output_unsupported''
        else if f_HasVision f \<and> \<not> m_SupportsVision m then ''vision_unsupported''
        else if requiredRegion \<noteq> [] \<and> \<not> EqualFold (m_Region m) requiredRegion then ''region''
        else if pc_AllowedRegions pc \<noteq> [] \<and> \<not> containsFold (pc_AllowedRegions pc) (m_Region m)
        then ''policy_region''
        else if \<not> privacySatisfies (m_Privacy m) requiredPrivacy then ''privacy''
        else if 0 < deadline \<and> deadline < m_P95LatencyMS m then ''latency''
        else if flt (Fin 0) maxCost \<and> flt maxCost cost then ''cost''
        else [])"

subsection \<open>The privacy levels as a linear order\<close>

datatype privacy_level = LevelStandard | LevelZDR | LevelLocal

fun privacy_rank :: "privacy_level \<Rightarrow> nat" where
  "privacy_rank LevelStandard = 0"
| "privacy_rank LevelZDR = 1"
| "privacy_rank LevelLocal = 2"

lemma privacy_rank_inject [simp]: "privacy_rank a = privacy_rank b \<longleftrightarrow> a = b"
  by (cases a; cases b) auto

instantiation privacy_level :: linorder
begin

definition less_eq_privacy_level :: "privacy_level \<Rightarrow> privacy_level \<Rightarrow> bool" where
  "less_eq_privacy_level a b \<longleftrightarrow> privacy_rank a \<le> privacy_rank b"

definition less_privacy_level :: "privacy_level \<Rightarrow> privacy_level \<Rightarrow> bool" where
  "less_privacy_level a b \<longleftrightarrow> privacy_rank a < privacy_rank b"

instance
  by standard (auto simp: less_eq_privacy_level_def less_privacy_level_def
      dest: antisym [of "privacy_rank _" "privacy_rank _"])

end

text \<open>What a model offers, and what a required string asks for (an unknown one: local only).\<close>

definition offered_level :: "Privacy \<Rightarrow> privacy_level" where
  "offered_level actual = (if actual = PrivacyLocal then LevelLocal
     else if actual = PrivacyZDR then LevelZDR else LevelStandard)"

definition required_level :: "Privacy \<Rightarrow> privacy_level" where
  "required_level required = (if required = [] \<or> required = PrivacyStandard then LevelStandard
     else if required = PrivacyZDR then LevelZDR else LevelLocal)"

lemma privacySatisfies_iff_level:
  "privacySatisfies actual required \<longleftrightarrow> required_level required \<le> offered_level actual"
  by (auto simp: privacySatisfies_def required_level_def offered_level_def less_eq_privacy_level_def)

lemma containsFold_iff: "containsFold vs target \<longleftrightarrow> (\<exists>v\<in>set vs. EqualFold v target)"
  by (induction vs) auto
lemmas feasibility_eval = infeasibleReason_def feq_def privacySatisfies_def wrap64_def
  is_int64_def sample_engine_def sample_defs

subsection \<open>The specification of feasibility\<close>

text \<open>The limits in force for a request: its own value where it sets one, else the policy's.\<close>

definition effective_privacy :: "policy \<Rightarrow> request \<Rightarrow> Privacy" where
  "effective_privacy policy request =
     (if md_RequiredPrivacy (rq_Metadata request) = [] then pc_RequiredPrivacy (p_Constraints policy)
      else md_RequiredPrivacy (rq_Metadata request))"

definition effective_deadline :: "policy \<Rightarrow> request \<Rightarrow> int64" where
  "effective_deadline policy request =
     (if md_DeadlineMS (rq_Metadata request) = 0 then pc_MaxP95LatencyMS (p_Constraints policy)
      else md_DeadlineMS (rq_Metadata request))"

definition effective_max_cost :: "policy \<Rightarrow> request \<Rightarrow> float64" where
  "effective_max_cost policy request =
     (if feq (md_MaxCostUSD (rq_Metadata request)) (Fin 0)
      then pc_MaxEstimatedCostUSD (p_Constraints policy) else md_MaxCostUSD (rq_Metadata request))"

definition needed_tokens :: "request \<Rightarrow> int" where
  "needed_tokens request =
     f_InputTokens (rq_Features request) + f_ExpectedOutputTokens (rq_Features request)"

definition hard_constraints :: "engine \<Rightarrow> policy \<Rightarrow> model \<Rightarrow> request \<Rightarrow> float64 \<Rightarrow> bool" where
  "hard_constraints e policy m request cost \<longleftrightarrow>
     m_Enabled m \<and>
     (\<forall>available. e_Health e = Some available \<longrightarrow> available (m_Provider m)) \<and>
     (0 < m_ContextWindow m \<longrightarrow> wrap64 (needed_tokens request) \<le> m_ContextWindow m) \<and>
     (0 < f_ToolCount (rq_Features request) \<longrightarrow> m_SupportsTools m) \<and>
     (f_HasStructuredOutput (rq_Features request) \<longrightarrow> m_SupportsStructured m) \<and>
     (f_HasVision (rq_Features request) \<longrightarrow> m_SupportsVision m) \<and>
     (md_RequiredRegion (rq_Metadata request) \<noteq> [] \<longrightarrow>
        EqualFold (m_Region m) (md_RequiredRegion (rq_Metadata request))) \<and>
     (pc_AllowedRegions (p_Constraints policy) \<noteq> [] \<longrightarrow>
        (\<exists>r\<in>set (pc_AllowedRegions (p_Constraints policy)). EqualFold r (m_Region m))) \<and>
     required_level (effective_privacy policy request) \<le> offered_level (m_Privacy m) \<and>
     (0 < effective_deadline policy request \<longrightarrow> m_P95LatencyMS m \<le> effective_deadline policy request) \<and>
     (flt (Fin 0) (effective_max_cost policy request) \<longrightarrow>
        \<not> flt (effective_max_cost policy request) cost)"

lemmas effective_defs = effective_privacy_def effective_deadline_def effective_max_cost_def
  needed_tokens_def

lemma infeasibleReason_iff:
  "infeasibleReason e policy m request cost = [] \<longleftrightarrow> hard_constraints e policy m request cost"
proof -
  have health: "(case e_Health e of None \<Rightarrow> False | Some available \<Rightarrow> \<not> available (m_Provider m))
      \<longleftrightarrow> \<not> (\<forall>available. e_Health e = Some available \<longrightarrow> available (m_Provider m))"
    by (cases "e_Health e") auto
  show ?thesis
    unfolding infeasibleReason_def hard_constraints_def effective_defs Let_def health
      privacySatisfies_iff_level containsFold_iff if_Cons_eq_Nil not_not
    by (simp only: de_Morgan_conj not_not not_less imp_conv_disj simp_thms) 
qed


lemma hard_constraintsD:
  assumes "hard_constraints e policy m request cost"
  shows "m_Enabled m"
    and "required_level (effective_privacy policy request) \<le> offered_level (m_Privacy m)"
    and "0 < m_ContextWindow m \<Longrightarrow> wrap64 (needed_tokens request) \<le> m_ContextWindow m"
  using assms by (simp_all add: hard_constraints_def)

text \<open>A feasible model with a declared context window can hold the input and the expected output
  tokens together, as long as their sum does not leave Go's int range.\<close>

theorem feasible_fits_context_window:
  assumes "infeasibleReason e policy m request cost = []"
    and "is_int64 (needed_tokens request)" and "0 < m_ContextWindow m"
  shows "needed_tokens request \<le> m_ContextWindow m"
  using assms hard_constraintsD(3) [of e policy m request cost]
  by (simp add: infeasibleReason_iff wrap64_id)

theorem feasible_fits_context_window_witness:
  "needed_tokens sample_request \<le> m_ContextWindow premium"
  by (rule feasible_fits_context_window [of sample_engine sample_policy _ _ "Fin 0"])
    (simp_all add: feasibility_eval needed_tokens_def)

text \<open>When the sum of the token counts leaves the int range, the context window no longer
  matters: the check behaves as if the model had none, so any window is accepted.\<close>

theorem context_window_overflow:
  assumes "is_int64 (f_InputTokens (rq_Features request))"
    and "is_int64 (f_ExpectedOutputTokens (rq_Features request))"
    and "2 ^ 63 \<le> needed_tokens request"
  shows "infeasibleReason e policy (m\<lparr>m_ContextWindow := w\<rparr>) request cost =
    infeasibleReason e policy (m\<lparr>m_ContextWindow := 0\<rparr>) request cost"
proof -
  have "wrap64 (needed_tokens request) < 0"
    using assms by (intro wrap64_overflow) (simp_all add: is_int64_def needed_tokens_def)
  then have "\<not> w < wrap64 (needed_tokens request)" if "0 < w" using that by linarith
  then show ?thesis
    unfolding infeasibleReason_def needed_tokens_def Let_def
    by (cases "0 < w") (simp_all split del: if_split cong: if_cong option.case_cong)
qed

definition overflow_request :: request where
  "overflow_request = sample_request\<lparr>rq_Features :=
     sample_features\<lparr>f_ExpectedOutputTokens := 2 ^ 63 - 1\<rparr>\<rparr>"

theorem context_window_overflow_witness:
  "infeasibleReason sample_engine sample_policy (economy\<lparr>m_ContextWindow := 16000\<rparr>) overflow_request (Fin 0) =
   infeasibleReason sample_engine sample_policy (economy\<lparr>m_ContextWindow := 0\<rparr>) overflow_request (Fin 0)"
  by (rule context_window_overflow)
    (simp_all add: feasibility_eval needed_tokens_def overflow_request_def)

text \<open>A request that sets its own privacy, deadline and cost limits replaces the policy's: the
  verdict is the same for every policy with the same allowed regions, so a request can ask for
  less than the policy demands.\<close>

theorem request_limits_replace_policy:
  assumes "md_RequiredPrivacy (rq_Metadata request) \<noteq> []"
    and "md_DeadlineMS (rq_Metadata request) \<noteq> 0"
    and "\<not> feq (md_MaxCostUSD (rq_Metadata request)) (Fin 0)"
    and "pc_AllowedRegions pc = pc_AllowedRegions (p_Constraints policy)"
  shows "infeasibleReason e (policy\<lparr>p_Constraints := pc\<rparr>) m request cost =
    infeasibleReason e policy m request cost"
  using assms unfolding infeasibleReason_def Let_def
  by (simp split del: if_split cong: if_cong option.case_cong)

definition weak_request :: request where
  "weak_request = sample_request\<lparr>rq_Metadata := sample_metadata\<lparr>md_RequiredPrivacy := PrivacyStandard,
     md_DeadlineMS := 5000, md_MaxCostUSD := Fin 9\<rparr>\<rparr>"

definition strict_constraints :: policy_constraints where
  "strict_constraints = \<lparr>pc_AllowedRegions = [], pc_RequiredPrivacy = PrivacyLocal,
     pc_MaxEstimatedCostUSD = f64 (1 / 1000), pc_MaxP95LatencyMS = 1\<rparr>"

theorem request_limits_replace_policy_witness:
  "infeasibleReason sample_engine (sample_policy\<lparr>p_Constraints := strict_constraints\<rparr>) economy
     sample_request (Fin 1) = ''privacy'' \<and>
   infeasibleReason sample_engine (sample_policy\<lparr>p_Constraints := strict_constraints\<rparr>) economy
     weak_request (Fin 1) = []"
proof
  show "infeasibleReason sample_engine (sample_policy\<lparr>p_Constraints := strict_constraints\<rparr>) economy
     sample_request (Fin 1) = ''privacy''"
    by (simp add: feasibility_eval strict_constraints_def)
  have "infeasibleReason sample_engine (sample_policy\<lparr>p_Constraints := strict_constraints\<rparr>) economy
      weak_request (Fin 1) = infeasibleReason sample_engine sample_policy economy weak_request (Fin 1)"
    by (rule request_limits_replace_policy)
      (simp_all add: feasibility_eval weak_request_def strict_constraints_def)
  also have "\<dots> = []" by (simp add: feasibility_eval weak_request_def)
  finally show "infeasibleReason sample_engine (sample_policy\<lparr>p_Constraints := strict_constraints\<rparr>)
      economy weak_request (Fin 1) = []" .
qed

subsection \<open>Monotone costs\<close>

text \<open>With non-negative prices the estimated cost is non-negative and grows with the token counts,
  rounding and overflow to infinity included.\<close>

theorem estimateCost_mono:
  assumes "m_InputCostPerMTokens m = Fin p" "m_OutputCostPerMTokens m = Fin q" "0 \<le> p" "0 \<le> q"
    and "is_int64 (f_InputTokens g)" "is_int64 (f_ExpectedOutputTokens g)"
    and "0 \<le> f_InputTokens f" "f_InputTokens f \<le> f_InputTokens g"
    and "0 \<le> f_ExpectedOutputTokens f" "f_ExpectedOutputTokens f \<le> f_ExpectedOutputTokens g"
  shows "fle (Fin 0) (estimateCost m f) \<and> fle (estimateCost m f) (estimateCost m g)"
proof -
  have term_mono: "fle (Fin 0) (fmul (f64_of_int k) (Fin c)) \<and>
      fle (fmul (f64_of_int k) (Fin c)) (fmul (f64_of_int n) (Fin c))"
    if h: "0 \<le> k" "k \<le> n" "is_int64 n" "0 \<le> c" for k n c
  proof -
    have "is_int64 k" using h by (simp add: is_int64_def)
    then obtain r where r: "f64_of_int k = Fin r" and "\<bar>r\<bar> \<le> 2 ^ 63" and "0 \<le> k \<longrightarrow> 0 \<le> r"
      by (rule f64_of_int_finite)
    with h(1) have "0 \<le> r" by blast
    obtain t where t: "f64_of_int n = Fin t" using f64_of_int_finite [OF h(3)] by metis
    have "r \<le> t" using f64_of_int_mono [OF h(2)] r t by simp
    then show ?thesis using r t h(4) \<open>0 \<le> r\<close> by (simp add: f64_nonneg f64_mono mult_right_mono)
  qed
  note i = term_mono [OF assms(7,8,5,3)] and o = term_mono [OF assms(9,10,6,4)]
  let ?s = "\<lambda>f. fadd (fmul (f64_of_int (f_InputTokens f)) (Fin p))
                  (fmul (f64_of_int (f_ExpectedOutputTokens f)) (Fin q))"
  have "fle (Fin 0) (?s f)" "fle (?s f) (?s g)"
    using i o by (blast intro: fadd_mono_nonneg)+
  then show ?thesis
    unfolding estimateCost_def assms(1,2) by (intro conjI fdiv_mono) simp_all
qed

theorem estimateCost_mono_witness:
  "fle (Fin 0) (estimateCost premium sample_features) \<and>
   fle (estimateCost premium sample_features) (estimateCost premium (sample_features\<lparr>f_InputTokens := 100\<rparr>))"
  by (rule estimateCost_mono [of _ 5 20]) (simp_all add: sample_defs is_int64_def)


end
