(* ===== verification/Prediction.thy ===== *)
theory Prediction
  imports Feasibility
begin

text \<open>
  Predicted success, uncertainty and confidence bound of one model for one request
  (\<^verbatim>\<open>workflowScore\<close>, \<^verbatim>\<open>clamp\<close> and \<^verbatim>\<open>predict\<close> of \<^verbatim>\<open>internal/routing/engine.go\<close>).
\<close>

definition clamp :: "float64 \<Rightarrow> float64 \<Rightarrow> float64 \<Rightarrow> float64" where
  "clamp v minimum maximum = fmax minimum (fmin maximum v)"

definition workflowScore :: "snapshot \<Rightarrow> string \<Rightarrow> string \<Rightarrow> model_score option" where
  "workflowScore sn workflow modelID =
     (case map_of (sn_ByWorkflow sn) workflow of
        Some scores \<Rightarrow> (case map_of scores modelID of
                          Some score \<Rightarrow> Some score
                        | None \<Rightarrow> map_of (sn_Global sn) modelID)
      | None \<Rightarrow> map_of (sn_Global sn) modelID)"

definition prior_score :: "model \<Rightarrow> model_score" where
  "prior_score m = \<lparr>sc_SuccessRate = m_QualityPrior m, sc_Uncertainty = f64 (1 / 4),
     sc_Samples = 0, sc_Weights = [], sc_Bias = Fin 0\<rparr>"

text \<open>The weighted sum over the feature map, in the order \<open>ord\<close> this run iterates it.\<close>

definition linear_score :: "string list \<Rightarrow> model_score \<Rightarrow> features \<Rightarrow> float64" where
  "linear_score ord score f =
     foldl (\<lambda>success name. fadd success (fmul (lookup_zero (Fin 0) (sc_Weights score) name)
                                          (lookup_zero (Fin 0) (Vector f) name)))
       (fadd (sc_SuccessRate score) (sc_Bias score)) ord"

definition predict :: "engine \<Rightarrow> string list \<Rightarrow> policy \<Rightarrow> model \<Rightarrow> request \<Rightarrow> prediction" where
  "predict e ord policy m request =
    (let cost = estimateCost m (rq_Features request);
         reason = infeasibleReason e policy m request cost;
         score = (case workflowScore (p_Snapshot policy) (md_Workflow (rq_Metadata request)) (m_ID m)
                  of Some s \<Rightarrow> s | None \<Rightarrow> prior_score m);
         success = clamp (linear_score ord score (rq_Features request)) (Fin 0) (Fin 1);
         uncertainty = clamp (sc_Uncertainty score) (f64 (5 / 1000)) (f64 (1 / 2))
     in \<lparr>pr_ModelID = m_ID m, pr_Success = success,
         pr_LowerBound = clamp (fsub success (fmul (p_ConfidenceZ policy) uncertainty)) (Fin 0) (Fin 1),
         pr_Uncertainty = uncertainty, pr_Samples = sc_Samples score, pr_EstimatedCostUSD = cost,
         pr_P95LatencyMS = m_P95LatencyMS m, pr_Eligible = (reason = []), pr_Reason = reason\<rparr>)"

subsection \<open>Bounds of a prediction\<close>

lemma clamp_bounds:
  assumes "v \<noteq> NaN" and "fle lo hi"
  shows "fle lo (clamp v lo hi)" and "fle (clamp v lo hi) hi"
  using assms by (cases v; cases lo; cases hi; auto simp: clamp_def fmax_def fmin_def)+

lemma clamp_unit_Fin:
  assumes "v \<noteq> NaN" and "wf64 v"
  obtains r where "clamp v (Fin 0) (Fin 1) = Fin r" and "0 \<le> r" and "r \<le> 1" and "wf64 (Fin r)"
proof -
  have "wf64 (clamp v (Fin 0) (Fin 1))"
    unfolding clamp_def using assms(2) by (intro wf64_fmax wf64_fmin wf64_0 wf64_1)
  then show thesis
    using clamp_bounds [OF assms(1), of "Fin 0" "Fin 1"] that
    by (cases "clamp v (Fin 0) (Fin 1)") auto
qed

lemma wf64_linear_score: "wf64 (linear_score ord score f)"
  by (cases ord rule: rev_cases) (simp_all add: linear_score_def)

text \<open>The score a prediction uses.\<close>

definition applied_score :: "policy \<Rightarrow> model \<Rightarrow> request \<Rightarrow> model_score" where
  "applied_score policy m request =
     (case workflowScore (p_Snapshot policy) (md_Workflow (rq_Metadata request)) (m_ID m) of
        Some s \<Rightarrow> s | None \<Rightarrow> prior_score m)"

lemma f64_1_200: "f64 (1 / 200) = Fin (5764607523034235 / 1152921504606846976)"
  by code_simp

lemma f64_1_2: "f64 (1 / 2) = Fin (1 / 2)"
  by code_simp

text \<open>C35: Whatever the snapshot's weights are, a prediction that is a number stays in range: success
  and lower bound lie in [0, 1], the uncertainty between 0.005 and 0.5, and the confidence bound
  never exceeds the predicted success.\<close>

theorem predict_bounds:
  assumes "linear_score ord (applied_score policy m request) (rq_Features request) \<noteq> NaN"
    and "sc_Uncertainty (applied_score policy m request) \<noteq> NaN"
    and "p_ConfidenceZ policy = Fin z" and "0 < z"
  shows "fle (Fin 0) (pr_LowerBound (predict e ord policy m request)) \<and>
    fle (pr_LowerBound (predict e ord policy m request)) (pr_Success (predict e ord policy m request)) \<and>
    fle (pr_Success (predict e ord policy m request)) (Fin 1) \<and>
    fle (f64 (5 / 1000)) (pr_Uncertainty (predict e ord policy m request)) \<and>
    fle (pr_Uncertainty (predict e ord policy m request)) (f64 (1 / 2))"
proof -
  let ?sc = "applied_score policy m request"
  let ?s = "clamp (linear_score ord ?sc (rq_Features request)) (Fin 0) (Fin 1)"
  let ?u = "clamp (sc_Uncertainty ?sc) (f64 (5 / 1000)) (f64 (1 / 2))"
  let ?v = "fsub ?s (fmul (p_ConfidenceZ policy) ?u)"
  have fields: "pr_Success (predict e ord policy m request) = ?s"
    "pr_Uncertainty (predict e ord policy m request) = ?u"
    "pr_LowerBound (predict e ord policy m request) = clamp ?v (Fin 0) (Fin 1)"
    by (simp_all add: predict_def applied_score_def Let_def)
  obtain r where r: "?s = Fin r" "0 \<le> r" "r \<le> 1" "wf64 (Fin r)"
    using assms(1) wf64_linear_score by (rule clamp_unit_Fin)
  have u: "fle (f64 (5 / 1000)) ?u" "fle ?u (f64 (1 / 2))"
    using clamp_bounds [OF assms(2)] by (simp_all add: f64_1_200 f64_1_2)
  then obtain q where q: "?u = Fin q" "0 < q"
    by (cases ?u) (auto simp: f64_1_200 f64_1_2)
  have "fle (Fin 0) (fmul (p_ConfidenceZ policy) ?u)"
    using assms(3,4) q by (simp add: f64_nonneg)
  then have v: "fle ?v ?s" using r by (simp add: fsub_le)
  then have "fle (clamp ?v (Fin 0) (Fin 1)) ?s"
    using r unfolding clamp_def
    by (intro fmax_le) (auto dest: fle_not_NaN intro: fle_trans [OF conjunct2 [OF fmin_le]])
  moreover have "fle (Fin 0) (clamp ?v (Fin 0) (Fin 1))"
    using v fle_not_NaN by (intro clamp_bounds) auto
  ultimately show ?thesis using fields u r by simp
qed
subsection \<open>The linear score and its order of addition\<close>

lemma predict_fields [simp]:
  "pr_ModelID (predict e ord policy m request) = m_ID m"
  "pr_EstimatedCostUSD (predict e ord policy m request) = estimateCost m (rq_Features request)"
  "pr_Samples (predict e ord policy m request) = sc_Samples (applied_score policy m request)"
  "pr_P95LatencyMS (predict e ord policy m request) = m_P95LatencyMS m"
  "pr_Reason (predict e ord policy m request) =
     infeasibleReason e policy m request (estimateCost m (rq_Features request))"
  "pr_Eligible (predict e ord policy m request) \<longleftrightarrow>
     infeasibleReason e policy m request (estimateCost m (rq_Features request)) = []"
  by (simp_all add: predict_def applied_score_def Let_def)

lemma predict_estimates:
  "pr_Success (predict e ord policy m request) =
     clamp (linear_score ord (applied_score policy m request) (rq_Features request)) (Fin 0) (Fin 1)"
  "pr_Uncertainty (predict e ord policy m request) =
     clamp (sc_Uncertainty (applied_score policy m request)) (f64 (5 / 1000)) (f64 (1 / 2))"
  "pr_LowerBound (predict e ord policy m request) =
     clamp (fsub (pr_Success (predict e ord policy m request))
              (fmul (p_ConfidenceZ policy) (pr_Uncertainty (predict e ord policy m request))))
       (Fin 0) (Fin 1)"
  unfolding predict_def applied_score_def Let_def prediction.simps by (rule refl)+

definition feature_names :: "string list" where
  "feature_names = [''input_tokens_k'', ''expected_output_tokens_k'', ''message_count'',
     ''tool_count'', ''has_vision'', ''has_structured_output'', ''risk'']"

lemma map_fst_Vector: "map fst (Vector f) = feature_names"
  by (simp add: Vector_def feature_names_def)

lemma Vector_finite:
  assumes "is_int64 (f_InputTokens f)" "is_int64 (f_ExpectedOutputTokens f)"
    "is_int64 (f_MessageCount f)" "is_int64 (f_ToolCount f)" "f_Risk f = Fin r"
  shows "\<exists>v. lookup_zero (Fin 0) (Vector f) name = Fin v"
proof -
  have big: "(2 ^ 63 :: rat) < pow2 1024" using pow2_1024_big by simp
  have p: "is_f64 (2 ^ 63)" using is_f64_pow2 [of 63] pow2_of_int [of 63] by simp
  have k: "\<exists>v. fdiv (f64_of_int n) (Fin 1000) = Fin v" if h: "is_int64 n" for n
  proof -
    obtain t where t: "f64_of_int n = Fin t" "\<bar>t\<bar> \<le> 2 ^ 63" using f64_of_int_finite [OF h] by metis
    have "\<bar>t / 1000\<bar> \<le> 2 ^ 63" using t(2) by simp
    then have "f64 (t / 1000) = Fin (rnd_rat (t / 1000))" using p big by (rule f64_bounded)
    with t show ?thesis by simp
  qed
  have i: "\<exists>v. f64_of_int n = Fin v" if h: "is_int64 n" for n
    using f64_of_int_finite [OF h] by metis
  show ?thesis
    using assms k i by (auto simp: Vector_def lookup_zero_def boolFloat_def)
qed

text \<open>Features without a weight add a zero, so only the weighted ones matter.\<close>

lemma linear_score_filter:
  assumes "\<And>name. \<exists>v. lookup_zero (Fin 0) (Vector f) name = Fin v"
  shows "linear_score ord score f =
    linear_score (filter (\<lambda>name. map_of (sc_Weights score) name \<noteq> None) ord) score f"
proof -
  let ?g = "\<lambda>success name. fadd success (fmul (lookup_zero (Fin 0) (sc_Weights score) name)
                                          (lookup_zero (Fin 0) (Vector f) name))"
  have z: "fmul (Fin 0) (lookup_zero (Fin 0) (Vector f) name) = Fin 0" for name
    using assms [of name] by auto
  have "foldl ?g x ord = foldl ?g x (filter (\<lambda>name. map_of (sc_Weights score) name \<noteq> None) ord)"
    if "wf64 x" for x
    using that by (induction ord arbitrary: x) (auto simp: z fadd_0_right simp del: not_None_eq)
  then show ?thesis unfolding linear_score_def by simp
qed

lemma linear_score_no_weights:
  assumes "sc_Weights score = []" and "\<And>name. \<exists>v. lookup_zero (Fin 0) (Vector f) name = Fin v"
  shows "linear_score ord score f = fadd (sc_SuccessRate score) (sc_Bias score)"
  using linear_score_filter [OF assms(2), of ord score] by (simp add: assms(1) linear_score_def)

definition tie_score :: model_score where
  "tie_score = \<lparr>sc_SuccessRate = f64 (3 / 10), sc_Uncertainty = f64 (1 / 100), sc_Samples = 1000,
     sc_Weights = [(''has_vision'', f64 (2 / 10)), (''has_structured_output'', f64 (1 / 10))],
     sc_Bias = Fin 0\<rparr>"

definition rich_features :: features where
  "rich_features = sample_features\<lparr>f_HasVision := True, f_HasStructuredOutput := True\<rparr>"



lemma f64_7_20: "f64 (7 / 20) = Fin (3152519739159347 / 9007199254740992)"
  by code_simp

lemma sample_request_features: "rq_Features sample_request = sample_features"
  by (simp add: sample_request_def)

lemma sample_features_finite: "\<exists>v. lookup_zero (Fin 0) (Vector sample_features) name = Fin v"
  by (rule Vector_finite [where r = "3152519739159347 / 9007199254740992"])
    (simp_all add: sample_features_def is_int64_def f64_7_20)

lemma rich_features_finite: "\<exists>v. lookup_zero (Fin 0) (Vector rich_features) name = Fin v"
  by (rule Vector_finite [where r = "3152519739159347 / 9007199254740992"])
    (simp_all add: rich_features_def sample_features_def is_int64_def f64_7_20)

definition tie_policy :: policy where
  "tie_policy = sample_policy\<lparr>p_Snapshot := sample_snapshot\<lparr>sn_Global := [(''premium'', tie_score)]\<rparr>\<rparr>"

definition rich_request :: request where
  "rich_request = sample_request\<lparr>rq_Features := rich_features\<rparr>"

lemma rich_request_features: "rq_Features rich_request = rich_features"
  by (simp add: rich_request_def)

lemmas tie_eval = linear_score_def feature_names_def lookup_zero_def tie_score_def Vector_def
  rich_features_def boolFloat_def

text \<open>The success estimate adds the weighted features in the order a Go map is iterated, which is
  random. Floating-point addition is not associative, so two runs on the same request can record
  different predictions.\<close>

theorem predict_depends_on_map_order:
  "pr_Success (predict e feature_names tie_policy premium rich_request) \<noteq>
   pr_Success (predict e (rev feature_names) tie_policy premium rich_request)"
proof -
  let ?sum = "\<lambda>a b. fadd (fadd (fadd (f64 (3 / 10)) (Fin 0)) (fmul a (Fin 1))) (fmul b (Fin 1))"
  have score: "applied_score tie_policy premium rich_request = tie_score"
    by (simp add: applied_score_def workflowScore_def tie_policy_def rich_request_def sample_defs)
  have "linear_score feature_names tie_score rich_features = ?sum (f64 (2 / 10)) (f64 (1 / 10))"
    and "linear_score (rev feature_names) tie_score rich_features = ?sum (f64 (1 / 10)) (f64 (2 / 10))"
    using linear_score_filter [OF rich_features_finite, of feature_names tie_score]
      linear_score_filter [OF rich_features_finite, of "rev feature_names" tie_score]
    by (simp_all add: tie_eval)
  moreover have "?sum (f64 (2 / 10)) (f64 (1 / 10)) = Fin (5404319552844595 / 9007199254740992)"
    and "?sum (f64 (1 / 10)) (f64 (2 / 10)) = Fin (1351079888211149 / 2251799813685248)"
    by code_simp+
  ultimately show ?thesis
    by (simp add: predict_estimates score clamp_def fmax_def fmin_def rich_request_features)
qed

theorem predict_bounds_witness:
  "fle (Fin 0) (pr_LowerBound (predict sample_engine feature_names sample_policy premium sample_request)) \<and>
   fle (pr_LowerBound (predict sample_engine feature_names sample_policy premium sample_request))
     (pr_Success (predict sample_engine feature_names sample_policy premium sample_request)) \<and>
   fle (pr_Success (predict sample_engine feature_names sample_policy premium sample_request)) (Fin 1) \<and>
   fle (f64 (5 / 1000)) (pr_Uncertainty (predict sample_engine feature_names sample_policy premium sample_request)) \<and>
   fle (pr_Uncertainty (predict sample_engine feature_names sample_policy premium sample_request)) (f64 (1 / 2))"
proof -
  have z: "p_ConfidenceZ sample_policy = Fin (3704210693512233 / 2251799813685248)"
    unfolding sample_policy_def policy.simps by code_simp
  have "applied_score sample_policy premium sample_request = sample_score (92 / 100) (4 / 1000)"
    by (simp add: applied_score_def workflowScore_def sample_defs)
  then have "linear_score feature_names (applied_score sample_policy premium sample_request)
      (rq_Features sample_request) \<noteq> NaN"
    and "sc_Uncertainty (applied_score sample_policy premium sample_request) \<noteq> NaN"
    by (simp_all add: sample_request_features linear_score_no_weights [OF _ sample_features_finite]
        sample_score_def)
  from predict_bounds [OF this z] show ?thesis by simp
qed
end
