(* ===== verification/Engine.thy ===== *)
theory Engine
  imports Prediction SortSlice
begin

text \<open>
  \<^verbatim>\<open>Engine.Route\<close> of \<^verbatim>\<open>internal/routing/engine.go\<close>: predictions for the incumbent, the candidates
  and the fallbacks, then the bucket of the trace and the selection. The values the Go runtime
  supplies to one call (the clock, the random identifiers, the iteration order of the feature
  map, and \<^verbatim>\<open>sort.Slice\<close> beyond the length up to which it is an insertion sort) are the fields
  of \<open>runtime\<close>.
\<close>

type_synonym sorter = "(prediction \<Rightarrow> prediction \<Rightarrow> bool) \<Rightarrow> prediction list \<Rightarrow> prediction list"

record runtime =
  rt_started :: time
  rt_dec_id :: string
  rt_trace_id :: string
  rt_feature_order :: "string \<Rightarrow> string list"
  rt_pdqsort :: sorter
  rt_latency_micros :: int64

subsection \<open>Identifiers and the bucketing hash\<close>

text \<open>\<^verbatim>\<open>newID\<close>: 12 random bytes in hex, or the clock when the random source fails.\<close>

definition newID :: "string \<Rightarrow> nat list option \<Rightarrow> int \<Rightarrow> string" where
  "newID prfx buffer nano =
     (case buffer of None \<Rightarrow> prfx @ ''_'' @ decimal_int nano
      | Some bs \<Rightarrow> prfx @ ''_'' @ hex_encode bs)"

definition hashPercent :: "string \<Rightarrow> float64" where
  "hashPercent v = fdiv (f64_of_int (uint (fnv1a64 v mod 1000000))) (Fin 10000)"

fun unique_from :: "string list \<Rightarrow> string list \<Rightarrow> string list" where
  "unique_from seen [] = []"
| "unique_from seen (v # vs) =
     (if v \<noteq> [] \<and> v \<notin> set seen then v # unique_from (v # seen) vs else unique_from seen vs)"

definition unique :: "string list \<Rightarrow> string list" where
  "unique vs = unique_from [] vs"

definition cheaper :: "prediction \<Rightarrow> prediction \<Rightarrow> bool" where
  "cheaper a b =
     (if flt (fabs (fsub (pr_EstimatedCostUSD a) (pr_EstimatedCostUSD b))) (f64 (1 / 10 ^ 12))
      then flt (pr_LowerBound b) (pr_LowerBound a)
      else flt (pr_EstimatedCostUSD a) (pr_EstimatedCostUSD b))"

subsection \<open>Engine.Route\<close>

definition shadowCandidates :: "policy \<Rightarrow> prediction gomap \<Rightarrow> string list" where
  "shadowCandidates policy predictions =
     (if fle (p_ShadowBudgetUSDPerDay policy) (Fin 0) then []
      else filter (\<lambda>modelID. pr_Eligible (lookup_zero zero_prediction predictions modelID))
             (p_CandidateModels policy))"

definition initial_decision ::
  "engine \<Rightarrow> runtime \<Rightarrow> string \<Rightarrow> policy \<Rightarrow> request \<Rightarrow> route_decision" where
  "initial_decision e rt tenantID policy request =
    (let md = rq_Metadata request in
     \<lparr>d_ID = rt_dec_id rt, d_ParentDecisionID = [], d_TenantID = tenantID,
      d_TraceID = (if md_TraceID md = [] then rt_trace_id rt else md_TraceID md),
      d_Workflow = md_Workflow md, d_Step = md_Step md, d_RiskClass = md_RiskClass md,
      d_PolicyID = p_ID policy, d_PolicyVersion = p_Version policy,
      d_SnapshotVersion = sn_Version (p_Snapshot policy),
      d_CatalogVersion = sn_CatalogVersion (p_Snapshot policy),
      d_IncumbentModel = p_IncumbentModel policy, d_SelectedModel = p_IncumbentModel policy,
      d_FinalModel = [], d_Bucket = ''incumbent'', d_FallbackReason = [],
      d_FeasibleModels = [], d_ShadowModels = [], d_Predictions = [],
      d_Features = rq_Features request, d_EstimatedCostUSD = Fin 0,
      d_IncumbentEstimatedCostUSD = Fin 0, d_ActualCostUSD = Fin 0, d_InputTokens = 0,
      d_OutputTokens = 0, d_RoutingLatencyMicros = 0, d_ProviderLatencyMS = 0,
      d_AttemptedModels = [], d_UpstreamStatus = 0, d_Error = [],
      d_CreatedAt = (case e_Now e of None \<Rightarrow> rt_started rt | Some t \<Rightarrow> t), d_CompletedAt = None\<rparr>)"

text \<open>One turn of the prediction loop.\<close>

definition record_prediction ::
  "engine \<Rightarrow> runtime \<Rightarrow> policy \<Rightarrow> request \<Rightarrow> route_decision \<Rightarrow> string \<Rightarrow> route_decision" where
  "record_prediction e rt policy request d modelID =
     (case map_of (e_Catalog e) modelID of
        None \<Rightarrow> d
      | Some m \<Rightarrow>
          (let pr = predict e (rt_feature_order rt modelID) policy m request;
               d' = d\<lparr>d_Predictions := AList.update modelID pr (d_Predictions d)\<rparr>
           in if pr_Eligible pr then d'\<lparr>d_FeasibleModels := d_FeasibleModels d @ [modelID]\<rparr> else d'))"

definition route_models :: "policy \<Rightarrow> string list" where
  "route_models policy =
     unique (([p_IncumbentModel policy] @ p_CandidateModels policy) @ p_FallbackModels policy)"

definition predicted_decision ::
  "engine \<Rightarrow> runtime \<Rightarrow> string \<Rightarrow> policy \<Rightarrow> request \<Rightarrow> route_decision" where
  "predicted_decision e rt tenantID policy request =
    (let d = foldl (record_prediction e rt policy request)
               (initial_decision e rt tenantID policy request) (route_models policy);
         incumbent = lookup_zero zero_prediction (d_Predictions d) (p_IncumbentModel policy)
     in d\<lparr>d_EstimatedCostUSD := pr_EstimatedCostUSD incumbent,
          d_IncumbentEstimatedCostUSD := pr_EstimatedCostUSD incumbent\<rparr>)"

definition finishRoutingLatency :: "runtime \<Rightarrow> route_decision \<Rightarrow> route_decision" where
  "finishRoutingLatency rt d = d\<lparr>d_RoutingLatencyMicros := rt_latency_micros rt\<rparr>"

definition meets_floor :: "policy \<Rightarrow> float64 \<Rightarrow> prediction \<Rightarrow> bool" where
  "meets_floor policy qualityFloor pr \<longleftrightarrow>
     \<not> (\<not> pr_Eligible pr \<or> pr_Samples pr < p_MinimumSamples policy) \<and>
     \<not> flt (fadd (pr_LowerBound pr) (f64 (1 / 10 ^ 12))) qualityFloor"

definition live_candidates :: "policy \<Rightarrow> prediction gomap \<Rightarrow> prediction list" where
  "live_candidates policy predictions =
    (let incumbent = lookup_zero zero_prediction predictions (p_IncumbentModel policy);
         qualityFloor = fsub (pr_Success incumbent) (p_QualityTolerance policy)
     in filter (meets_floor policy qualityFloor)
          (map (lookup_zero zero_prediction predictions) (p_CandidateModels policy)))"

text \<open>
  The exploration arm: \<^verbatim>\<open>int(h / 100 * float64(n)) % n\<close>. Go's remainder takes the sign of the
  dividend, and a negative index would panic; \<open>None\<close> is that panic.
\<close>

definition go_rem :: "int64 \<Rightarrow> int64 \<Rightarrow> int64" where
  "go_rem a b = sgn a * (\<bar>a\<bar> mod \<bar>b\<bar>)"

definition arm_index :: "string \<Rightarrow> nat \<Rightarrow> int64" where
  "arm_index traceID n =
     go_rem (int_of_f64 (fmul (fdiv (hashPercent (traceID @ ''|arm'')) (Fin 100)) (f64_of_int (int n))))
       (int n)"

definition slice_index :: "'a list \<Rightarrow> int64 \<Rightarrow> 'a option" where
  "slice_index xs i = (if 0 \<le> i \<and> nat i < length xs then Some (xs ! nat i) else None)"

definition choose_live ::
  "policy \<Rightarrow> request \<Rightarrow> string \<Rightarrow> prediction list \<Rightarrow> (prediction \<times> string) option" where
  "choose_live policy request traceID candidates =
     (if md_RiskClass (rq_Metadata request) = RiskLow \<and> flt (Fin 0) (p_ExplorationPercent policy)
      then if flt (hashPercent (traceID @ ''|explore|'' @ p_Version policy)) (p_ExplorationPercent policy)
           then map_option (\<lambda>pr. (pr, ''exploration''))
                  (slice_index candidates (arm_index traceID (length candidates)))
           else map_option (\<lambda>pr. (pr, ''treatment'')) (slice_index candidates 0)
      else map_option (\<lambda>pr. (pr, ''treatment'')) (slice_index candidates 0))"

text \<open>From the quality floor to the end of \<^verbatim>\<open>Route\<close>.\<close>

definition select_live ::
  "runtime \<Rightarrow> policy \<Rightarrow> request \<Rightarrow> route_decision \<Rightarrow> route_decision option" where
  "select_live rt policy request d =
    (let candidates = live_candidates policy (d_Predictions d)
     in if candidates = []
        then Some (d\<lparr>d_FallbackReason := ''no_candidate_meets_quality_floor''\<rparr>)
        else case choose_live policy request (d_TraceID d)
                    (sort_Slice (rt_pdqsort rt) cheaper candidates) of
          None \<Rightarrow> None
        | Some (selected, bucket) \<Rightarrow>
            (let d' = d\<lparr>d_Bucket := bucket, d_SelectedModel := pr_ModelID selected,
                        d_EstimatedCostUSD := pr_EstimatedCostUSD selected\<rparr>
             in Some (if pr_ModelID selected = p_IncumbentModel policy
                      then d'\<lparr>d_FallbackReason := ''incumbent_is_optimal''\<rparr> else d')))"

text \<open>\<open>None\<close> is a panic of the call (an index out of range).\<close>

definition Route ::
  "engine \<Rightarrow> runtime \<Rightarrow> string \<Rightarrow> policy \<Rightarrow> request \<Rightarrow> route_decision option" where
  "Route e rt tenantID policy request =
    (let d = predicted_decision e rt tenantID policy request;
         ds = d\<lparr>d_ShadowModels := shadowCandidates policy (d_Predictions d)\<rparr>;
         bucket = hashPercent (d_TraceID d @ ''|'' @ p_Version policy);
         finish = finishRoutingLatency rt
     in if p_Drifted policy then Some (finish (d\<lparr>d_FallbackReason := ''policy_drifted''\<rparr>))
        else if p_Mode policy = ModeObserve
        then Some (finish (d\<lparr>d_FallbackReason := ''observe_only''\<rparr>))
        else if p_Mode policy = ModeShadow
        then Some (finish (ds\<lparr>d_FallbackReason := ''shadow_only''\<rparr>))
        else if flt bucket (p_ControlPercent policy)
        then Some (finish (ds\<lparr>d_Bucket := ''control'', d_FallbackReason := ''randomized_control''\<rparr>))
        else if p_Mode policy = ModeCanary \<and>
                fle (fadd (p_ControlPercent policy) (p_CanaryPercent policy)) bucket
        then Some (finish (ds\<lparr>d_FallbackReason := ''outside_canary''\<rparr>))
        else map_option finish (select_live rt policy request ds))"

subsection \<open>The bucketing hash\<close>

lemma hashPercent_range:
  obtains q where "hashPercent s = Fin q" and "0 \<le> q" and "q < 100"
proof -
  have "uint (fnv1a64 s mod 1000000) < 1000000" by (simp add: uint_mod)
  then obtain k where w: "uint (fnv1a64 s mod 1000000) = k" and k: "0 \<le> k" "k \<le> 999999"
    by fastforce
  have top: "f64 (999999 / 10000) = Fin (3518433690445991 / 35184372088832)" by code_simp
  have h: "hashPercent s = f64 (of_int k / 10000)"
    using k by (simp add: hashPercent_def w f64_of_int_small)
  have "(of_int k :: rat) / 10000 \<le> 999999 / 10000" "(0::rat) \<le> of_int k / 10000"
    using k by (simp_all add: divide_right_mono)
  then have "fle (hashPercent s) (f64 (999999 / 10000))" "fle (Fin 0) (hashPercent s)"
    unfolding h by (simp_all only: f64_mono f64_nonneg)
  then have "fle (hashPercent s) (Fin (3518433690445991 / 35184372088832))" "fle (Fin 0) (hashPercent s)"
    unfolding top .
  then show thesis using that by (cases "hashPercent s") auto
qed

lemma arm_index_range:
  assumes n: "0 < n" "n \<le> 2 ^ 53"
  shows "0 \<le> arm_index t n" "nat (arm_index t n) < n"
proof -
  let ?N = "of_int (int n) :: rat"
  obtain q where q: "hashPercent (t @ ''|arm'') = Fin q" "0 \<le> q" "q < 100" by (rule hashPercent_range)
  have n': "int n \<le> 2 ^ 53" using of_nat_mono [OF n(2), where 'a = int] by simp
  then have N: "f64_of_int (int n) = Fin ?N" using n by (intro f64_of_int_small) simp
  have "f64 (q / 100) = Fin (rnd_rat (q / 100))"
    using q pow2_1024_big by (intro f64_bounded [of _ 1]) auto
  moreover have "0 \<le> rnd_rat (q / 100)" "rnd_rat (q / 100) \<le> 1"
    using q by (auto intro: rnd_rat_nonneg rnd_rat_le)
  ultimately obtain r where r: "fdiv (hashPercent (t @ ''|arm'')) (Fin 100) = Fin r" "0 \<le> r" "r \<le> 1"
    using q by simp
  have rn: "0 \<le> r * ?N" "r * ?N \<le> ?N" using r by (simp_all add: mult_left_le_one_le)
  have isN: "is_f64 ?N" using n' by (intro is_f64_int) simp
  have "?N \<le> of_int (2 ^ 53)" using n' by (simp only: of_int_le_iff)
  then have "?N < pow2 1024" using pow2_1024_big by simp
  then have "f64 (r * ?N) = Fin (rnd_rat (r * ?N))"
    using rn isN by (intro f64_bounded [of _ ?N]) auto
  moreover have "0 \<le> rnd_rat (r * ?N)" "rnd_rat (r * ?N) \<le> ?N"
    using rn isN by (auto intro: rnd_rat_nonneg rnd_rat_le)
  ultimately obtain p where p: "fmul (Fin r) (Fin ?N) = Fin p" "0 \<le> p" "p \<le> ?N" by simp
  have "0 \<le> \<lfloor>p\<rfloor>" "\<lfloor>p\<rfloor> \<le> int n" using p by (simp_all add: floor_le_iff)
  then have i: "int_of_f64 (Fin p) = \<lfloor>p\<rfloor>" "0 \<le> int_of_f64 (Fin p)"
    using p n' by (simp_all add: trunc_rat_def is_int64_def)
  have "arm_index t n = go_rem (int_of_f64 (Fin p)) (int n)"
    unfolding arm_index_def r(1) N p(1) ..
  also have "\<dots> = int_of_f64 (Fin p) mod int n"
    using i(2) by (simp add: go_rem_def sgn_if del: int_of_f64.simps)
  finally have "arm_index t n = int_of_f64 (Fin p) mod int n" .
  then show "0 \<le> arm_index t n" "nat (arm_index t n) < n"
    using n by (simp_all add: nat_less_iff del: int_of_f64.simps)
qed

subsection \<open>Predictions of a decision\<close>

lemma unique_from_set: "set (unique_from seen vs) = set vs - set seen - {[]}"
  by (induction vs arbitrary: seen) auto

lemma unique_from_distinct: "distinct (unique_from seen vs)"
  by (induction vs arbitrary: seen) (auto simp: unique_from_set)

lemma set_unique [simp]: "set (unique vs) = set vs - {[]}"
  by (simp add: unique_def unique_from_set)

lemma distinct_unique [simp]: "distinct (unique vs)"
  by (simp add: unique_def unique_from_distinct)

definition prediction_for :: "engine \<Rightarrow> runtime \<Rightarrow> policy \<Rightarrow> request \<Rightarrow> string \<Rightarrow> prediction option" where
  "prediction_for e rt policy request i =
     map_option (\<lambda>m. predict e (rt_feature_order rt i) policy m request) (map_of (e_Catalog e) i)"

definition is_feasible :: "engine \<Rightarrow> policy \<Rightarrow> request \<Rightarrow> string \<Rightarrow> bool" where
  "is_feasible e policy request i \<longleftrightarrow>
     (\<exists>m. map_of (e_Catalog e) i = Some m \<and>
          hard_constraints e policy m request (estimateCost m (rq_Features request)))"

lemma record_prediction_eq:
  "record_prediction e rt policy request d i =
    d\<lparr>d_Predictions := (case prediction_for e rt policy request i of
         None \<Rightarrow> d_Predictions d | Some pr \<Rightarrow> AList.update i pr (d_Predictions d)),
      d_FeasibleModels := d_FeasibleModels d @ filter (is_feasible e policy request) [i]\<rparr>"
  by (cases "map_of (e_Catalog e) i")
    (simp_all add: record_prediction_def prediction_for_def is_feasible_def infeasibleReason_iff)

lemma fold_predictions:
  "\<exists>ps. foldl (record_prediction e rt policy request) d ids =
     d\<lparr>d_Predictions := ps,
       d_FeasibleModels := d_FeasibleModels d @ filter (is_feasible e policy request) ids\<rparr> \<and>
     (\<forall>i. map_of ps i = (case if i \<in> set ids then prediction_for e rt policy request i else None of
        None \<Rightarrow> map_of (d_Predictions d) i | Some pr \<Rightarrow> Some pr))"
proof (induction ids arbitrary: d)
  case (Cons j ids)
  let ?d = "record_prediction e rt policy request d j"
  obtain ps where ps: "foldl (record_prediction e rt policy request) ?d ids =
     ?d\<lparr>d_Predictions := ps,
        d_FeasibleModels := d_FeasibleModels ?d @ filter (is_feasible e policy request) ids\<rparr>"
    "\<And>i. map_of ps i = (case if i \<in> set ids then prediction_for e rt policy request i else None of
        None \<Rightarrow> map_of (d_Predictions ?d) i | Some pr \<Rightarrow> Some pr)"
    using Cons.IH [of ?d] by blast
  show ?case
    using ps(1) unfolding foldl_Cons record_prediction_eq [of e rt policy request d j] 
    by (intro exI [of _ ps])
      (auto simp: ps(2) record_prediction_eq [of e rt policy request d j] map_of_AList_update
         split: option.splits)
next
  case Nil
  show ?case by (rule exI [of _ "d_Predictions d"]) simp
qed

lemma set_route_models:
  "i \<in> set (route_models policy) \<longleftrightarrow> i \<noteq> [] \<and>
     (i = p_IncumbentModel policy \<or> i \<in> set (p_CandidateModels policy) \<or> i \<in> set (p_FallbackModels policy))"
  by (auto simp: route_models_def)

lemma predicted_decision_fields:
  "d_FeasibleModels (predicted_decision e rt t policy request) =
     filter (is_feasible e policy request) (route_models policy)"
  "map_of (d_Predictions (predicted_decision e rt t policy request)) i =
     (if i \<in> set (route_models policy) then prediction_for e rt policy request i else None)"
proof -
  obtain ps where ps: "foldl (record_prediction e rt policy request)
        (initial_decision e rt t policy request) (route_models policy) =
      (initial_decision e rt t policy request)\<lparr>d_Predictions := ps,
        d_FeasibleModels := d_FeasibleModels (initial_decision e rt t policy request) @
          filter (is_feasible e policy request) (route_models policy)\<rparr>"
    "\<And>i. map_of ps i =
      (case if i \<in> set (route_models policy) then prediction_for e rt policy request i else None of
        None \<Rightarrow> map_of (d_Predictions (initial_decision e rt t policy request)) i
      | Some pr \<Rightarrow> Some pr)"
    using fold_predictions by blast
  show "d_FeasibleModels (predicted_decision e rt t policy request) =
      filter (is_feasible e policy request) (route_models policy)"
    and "map_of (d_Predictions (predicted_decision e rt t policy request)) i =
     (if i \<in> set (route_models policy) then prediction_for e rt policy request i else None)"
    unfolding predicted_decision_def ps(1) Let_def
    by (simp_all add: ps(2) initial_decision_def Let_def split: option.splits)
qed

definition trace_of :: "runtime \<Rightarrow> request \<Rightarrow> string" where
  "trace_of rt request =
     (if md_TraceID (rq_Metadata request) = [] then rt_trace_id rt else md_TraceID (rq_Metadata request))"

lemma predicted_decision_frame:
  "d_TraceID (predicted_decision e rt t policy request) = trace_of rt request"
  "d_SelectedModel (predicted_decision e rt t policy request) = p_IncumbentModel policy"
  "d_IncumbentModel (predicted_decision e rt t policy request) = p_IncumbentModel policy"
  "d_Bucket (predicted_decision e rt t policy request) = ''incumbent''"
  "d_FallbackReason (predicted_decision e rt t policy request) = []"
  "d_RiskClass (predicted_decision e rt t policy request) = md_RiskClass (rq_Metadata request)"
  "d_EstimatedCostUSD (predicted_decision e rt t policy request) =
     pr_EstimatedCostUSD (lookup_zero zero_prediction
       (d_Predictions (predicted_decision e rt t policy request)) (p_IncumbentModel policy))"
  "d_IncumbentEstimatedCostUSD (predicted_decision e rt t policy request) =
     d_EstimatedCostUSD (predicted_decision e rt t policy request)"
proof -
  obtain ps fs where ps: "foldl (record_prediction e rt policy request)
        (initial_decision e rt t policy request) (route_models policy) =
      (initial_decision e rt t policy request)\<lparr>d_Predictions := ps, d_FeasibleModels := fs\<rparr>"
    using fold_predictions by blast
  show
    "d_TraceID (predicted_decision e rt t policy request) = trace_of rt request"
    "d_SelectedModel (predicted_decision e rt t policy request) = p_IncumbentModel policy"
    "d_IncumbentModel (predicted_decision e rt t policy request) = p_IncumbentModel policy"
    "d_Bucket (predicted_decision e rt t policy request) = ''incumbent''"
    "d_FallbackReason (predicted_decision e rt t policy request) = []"
    "d_RiskClass (predicted_decision e rt t policy request) = md_RiskClass (rq_Metadata request)"
    "d_EstimatedCostUSD (predicted_decision e rt t policy request) =
      pr_EstimatedCostUSD (lookup_zero zero_prediction
        (d_Predictions (predicted_decision e rt t policy request)) (p_IncumbentModel policy))"
    "d_IncumbentEstimatedCostUSD (predicted_decision e rt t policy request) =
      d_EstimatedCostUSD (predicted_decision e rt t policy request)"
    unfolding predicted_decision_def ps Let_def by (simp_all add: initial_decision_def trace_of_def Let_def)
qed

text \<open>The bucket of a trace under a policy, and when a decision reaches the selection.\<close>

definition bucket_of :: "policy \<Rightarrow> string \<Rightarrow> float64" where
  "bucket_of policy traceID = hashPercent (traceID @ ''|'' @ p_Version policy)"

definition goes_live :: "policy \<Rightarrow> string \<Rightarrow> bool" where
  "goes_live policy traceID \<longleftrightarrow>
     \<not> p_Drifted policy \<and> p_Mode policy \<noteq> ModeObserve \<and> p_Mode policy \<noteq> ModeShadow \<and>
     \<not> flt (bucket_of policy traceID) (p_ControlPercent policy) \<and>
     (p_Mode policy = ModeCanary \<longrightarrow>
        \<not> fle (fadd (p_ControlPercent policy) (p_CanaryPercent policy)) (bucket_of policy traceID))"

text \<open>The prediction the loop recorded for a candidate that clears the floor.\<close>

lemma live_candidatesE:
  assumes "pr \<in> set (live_candidates policy
      (d_Predictions (predicted_decision e rt t policy request)))"
  obtains i m where "i \<in> set (p_CandidateModels policy)" and "map_of (e_Catalog e) i = Some m"
    and "pr = predict e (rt_feature_order rt i) policy m request" and "pr_Eligible pr"
    and "map_of (d_Predictions (predicted_decision e rt t policy request)) i = Some pr"
    and "meets_floor policy (fsub (pr_Success (lookup_zero zero_prediction
        (d_Predictions (predicted_decision e rt t policy request)) (p_IncumbentModel policy)))
        (p_QualityTolerance policy)) pr"
proof -
  let ?ps = "d_Predictions (predicted_decision e rt t policy request)"
  from assms obtain i where i: "i \<in> set (p_CandidateModels policy)" "pr = lookup_zero zero_prediction ?ps i"
    and fl: "meets_floor policy (fsub (pr_Success (lookup_zero zero_prediction ?ps
        (p_IncumbentModel policy))) (p_QualityTolerance policy)) pr"
    by (auto simp: live_candidates_def Let_def)
  from fl have el: "pr_Eligible pr" by (simp add: meets_floor_def)
  then have "map_of ?ps i \<noteq> None"
    using i(2) by (auto simp: lookup_zero_def zero_prediction_def split: option.splits)
  then obtain m where "map_of (e_Catalog e) i = Some m"
    "map_of ?ps i = Some (predict e (rt_feature_order rt i) policy m request)"
    by (auto simp: predicted_decision_fields prediction_for_def split: if_splits)
  with i el fl show thesis using that by simp
qed

subsection \<open>Allocation and selection\<close>

abbreviation sorted_candidates :: "engine \<Rightarrow> runtime \<Rightarrow> string \<Rightarrow> policy \<Rightarrow> request \<Rightarrow> prediction list" where
  "sorted_candidates e rt t policy request \<equiv> sort_Slice (rt_pdqsort rt) cheaper
     (live_candidates policy (d_Predictions (predicted_decision e rt t policy request)))"

lemma slice_index_Some: "slice_index xs i = Some x \<Longrightarrow> x \<in> set xs"
  by (auto simp: slice_index_def split: if_splits)

lemma choose_liveD:
  assumes "choose_live policy request traceID cs = Some (selected, bucket)"
  shows "selected \<in> set cs" and "bucket \<in> {''exploration'', ''treatment''}"
    and "bucket = ''exploration'' \<Longrightarrow> md_RiskClass (rq_Metadata request) = RiskLow \<and>
      flt (hashPercent (traceID @ ''|explore|'' @ p_Version policy)) (p_ExplorationPercent policy)"
    and "bucket = ''treatment'' \<Longrightarrow> selected = hd cs"
  using assms
  by (auto simp: choose_live_def slice_index_Some slice_index_def hd_conv_nth split: if_splits)

lemma choose_live_total:
  assumes "cs \<noteq> []" and "length cs \<le> 2 ^ 53"
  shows "\<exists>selected bucket. choose_live policy request traceID cs = Some (selected, bucket)"
proof -
  have "slice_index cs (arm_index traceID (length cs)) \<noteq> None"
    using arm_index_range [of "length cs" traceID] assms by (simp add: slice_index_def)
  moreover have "slice_index cs 0 \<noteq> None" using assms(1) by (simp add: slice_index_def)
  ultimately show ?thesis by (auto simp: choose_live_def)
qed

text \<open>Bucket and reason of a decision that keeps the incumbent without a selection.\<close>

definition held_back :: "policy \<Rightarrow> string \<Rightarrow> string \<times> string" where
  "held_back policy traceID =
     (if p_Drifted policy then (''incumbent'', ''policy_drifted'')
      else if p_Mode policy = ModeObserve then (''incumbent'', ''observe_only'')
      else if p_Mode policy = ModeShadow then (''incumbent'', ''shadow_only'')
      else if flt (bucket_of policy traceID) (p_ControlPercent policy)
      then (''control'', ''randomized_control'') else (''incumbent'', ''outside_canary''))"

lemmas route_eval = Route_def Let_def bucket_of_def finishRoutingLatency_def held_back_def
  predicted_decision_frame

lemma Route_not_live:
  assumes "\<not> goes_live policy (trace_of rt request)"
  shows "\<exists>d. Route e rt t policy request = Some d \<and>
    d_SelectedModel d = p_IncumbentModel policy \<and>
    d_EstimatedCostUSD d = d_EstimatedCostUSD (predicted_decision e rt t policy request) \<and>
    d_Predictions d = d_Predictions (predicted_decision e rt t policy request) \<and>
    d_FeasibleModels d = d_FeasibleModels (predicted_decision e rt t policy request) \<and>
    d_IncumbentEstimatedCostUSD d = d_EstimatedCostUSD (predicted_decision e rt t policy request) \<and>
    d_RiskClass d = md_RiskClass (rq_Metadata request) \<and>
    (d_Bucket d, d_FallbackReason d) = held_back policy (trace_of rt request)"
proof -
  consider "p_Drifted policy" | "\<not> p_Drifted policy" "p_Mode policy = ModeObserve"
    | "\<not> p_Drifted policy" "p_Mode policy = ModeShadow"
    | "\<not> p_Drifted policy" "p_Mode policy \<noteq> ModeObserve" "p_Mode policy \<noteq> ModeShadow"
      "flt (bucket_of policy (trace_of rt request)) (p_ControlPercent policy)"
    | "\<not> p_Drifted policy" "p_Mode policy = ModeCanary"
      "\<not> flt (bucket_of policy (trace_of rt request)) (p_ControlPercent policy)"
      "fle (fadd (p_ControlPercent policy) (p_CanaryPercent policy))
        (bucket_of policy (trace_of rt request))"
    using assms unfolding goes_live_def by blast
  then show ?thesis
  proof cases
    case 1 then show ?thesis by (simp add: route_eval)
  next
    case 2 then show ?thesis by (simp add: route_eval)
  next
    case 3 then show ?thesis by (simp add: route_eval)
  next
    case 4 then show ?thesis by (simp add: route_eval)
  next
    case 5 then show ?thesis by (simp add: route_eval)
  qed
qed

lemma Route_live:
  assumes "goes_live policy (trace_of rt request)"
  shows "Route e rt t policy request = map_option (finishRoutingLatency rt)
    (select_live rt policy request ((predicted_decision e rt t policy request)
       \<lparr>d_ShadowModels := shadowCandidates policy
          (d_Predictions (predicted_decision e rt t policy request))\<rparr>))"
  using assms
  by (auto simp: Route_def Let_def goes_live_def bucket_of_def predicted_decision_frame)

lemma Route_liveE:
  assumes live: "goes_live policy (trace_of rt request)" and r: "Route e rt t policy request = Some d"
  obtains (none) "live_candidates policy (d_Predictions d) = []"
      and "d_SelectedModel d = p_IncumbentModel policy" and "d_Bucket d = ''incumbent''"
      and "d_FallbackReason d = ''no_candidate_meets_quality_floor''"
      and "d_Predictions d = d_Predictions (predicted_decision e rt t policy request)"
      and "d_FeasibleModels d = d_FeasibleModels (predicted_decision e rt t policy request)"
      and "d_EstimatedCostUSD d = d_EstimatedCostUSD (predicted_decision e rt t policy request)"
      and "d_IncumbentEstimatedCostUSD d = d_EstimatedCostUSD (predicted_decision e rt t policy request)"
  | (chosen) selected where
      "choose_live policy request (trace_of rt request) (sorted_candidates e rt t policy request) =
         Some (selected, d_Bucket d)"
      and "d_SelectedModel d = pr_ModelID selected"
      and "d_EstimatedCostUSD d = pr_EstimatedCostUSD selected"
      and "d_Predictions d = d_Predictions (predicted_decision e rt t policy request)"
      and "d_FeasibleModels d = d_FeasibleModels (predicted_decision e rt t policy request)"
      and "d_FallbackReason d =
        (if pr_ModelID selected = p_IncumbentModel policy then ''incumbent_is_optimal'' else [])"
      and "live_candidates policy (d_Predictions d) \<noteq> []"
      and "d_IncumbentEstimatedCostUSD d = d_EstimatedCostUSD (predicted_decision e rt t policy request)"
  using r unfolding Route_live [OF live] select_live_def
  by (auto simp: Let_def finishRoutingLatency_def predicted_decision_frame
      split: if_splits option.splits prod.splits)

subsection \<open>What Route guarantees\<close>

text \<open>The catalog is keyed by model id, which \<^verbatim>\<open>Config.Validate\<close> establishes.\<close>

definition wf_catalog :: "model gomap \<Rightarrow> bool" where
  "wf_catalog catalog \<longleftrightarrow> (\<forall>i m. map_of catalog i = Some m \<longrightarrow> m_ID m = i)"

lemma length_live_candidates: "length (live_candidates policy ps) \<le> length (p_CandidateModels policy)"
  by (simp add: live_candidates_def Let_def length_filter_le [THEN order_trans])

text \<open>The chosen prediction is one of the live candidates.\<close>

lemma chosen_is_live:
  assumes "pdq_sorter (rt_pdqsort rt)"
    and "choose_live policy request traceID (sorted_candidates e rt t policy request) = Some (selected, bucket)"
  shows "selected \<in> set (live_candidates policy
    (d_Predictions (predicted_decision e rt t policy request)))"
  using choose_liveD(1) [OF assms(2)] by (simp add: pdq_sorter.set_sort_Slice [OF assms(1)])

lemma Route_defined:
  assumes "pdq_sorter (rt_pdqsort rt)" and "length (p_CandidateModels policy) \<le> 2 ^ 53"
  shows "\<exists>d. Route e rt t policy request = Some d"
proof (cases "goes_live policy (trace_of rt request)")
  case False
  then show ?thesis using Route_not_live by blast
next
  case True
  let ?live = "live_candidates policy (d_Predictions (predicted_decision e rt t policy request))"
  let ?cs = "sorted_candidates e rt t policy request"
  have "length ?cs \<le> 2 ^ 53"
    using length_live_candidates assms(2) order_trans
    unfolding pdq_sorter.length_sort_Slice [OF assms(1)] by blast
  then have "?live \<noteq> [] \<Longrightarrow> \<exists>s b. choose_live policy request (trace_of rt request) ?cs = Some (s, b)"
    by (intro choose_live_total) (simp_all add: pdq_sorter.sort_Slice_Nil_iff [OF assms(1)])
  then show ?thesis
    by (cases "?live = []") (auto simp: Route_live [OF True] select_live_def Let_def
        predicted_decision_frame)
qed

text \<open>C33: Routing never panics: whatever the mode, the hash and the number of candidates, the exploration
  arm is a valid index and a decision is returned.\<close>

theorem Route_total:
  assumes "pdq_sorter (rt_pdqsort rt)" and "length (p_CandidateModels policy) \<le> 2 ^ 53"
  shows "\<exists>d. Route e rt t policy request = Some d"
  using assms by (rule Route_defined)

text \<open>C1: A model other than the incumbent is selected only if it is a candidate of the policy that meets
  every hard constraint, has enough samples, and whose confidence bound clears the quality floor
  set by the incumbent and the tolerance.\<close>

theorem Route_selects_qualified:
  assumes "Route e rt t policy request = Some d" and "wf_catalog (e_Catalog e)"
    and "pdq_sorter (rt_pdqsort rt)" and "d_SelectedModel d \<noteq> p_IncumbentModel policy"
  shows "d_SelectedModel d \<in> set (p_CandidateModels policy) \<and>
    (\<exists>m pr. map_of (e_Catalog e) (d_SelectedModel d) = Some m \<and>
       map_of (d_Predictions d) (d_SelectedModel d) = Some pr \<and>
       hard_constraints e policy m request (estimateCost m (rq_Features request)) \<and>
       p_MinimumSamples policy \<le> pr_Samples pr \<and>
       \<not> flt (fadd (pr_LowerBound pr) (f64 (1 / 10 ^ 12)))
           (fsub (pr_Success (lookup_zero zero_prediction (d_Predictions d) (p_IncumbentModel policy)))
              (p_QualityTolerance policy)))"
proof -
  have live: "goes_live policy (trace_of rt request)"
    using assms(1,4) Route_not_live [of policy rt request e t] by force
  from live assms(1) show ?thesis
  proof (cases rule: Route_liveE)
    case none
    with assms(4) show ?thesis by simp
  next
    case (chosen selected)
    note ps = chosen(4)
    have "selected \<in> set (live_candidates policy
        (d_Predictions (predicted_decision e rt t policy request)))"
      using assms(3) chosen(1) by (rule chosen_is_live)
    then obtain i m where i: "i \<in> set (p_CandidateModels policy)" "map_of (e_Catalog e) i = Some m"
      and pr: "selected = predict e (rt_feature_order rt i) policy m request" and el: "pr_Eligible selected"
      and rec: "map_of (d_Predictions (predicted_decision e rt t policy request)) i = Some selected"
      and fl: "meets_floor policy (fsub (pr_Success (lookup_zero zero_prediction
        (d_Predictions (predicted_decision e rt t policy request)) (p_IncumbentModel policy)))
        (p_QualityTolerance policy)) selected"
      by (rule live_candidatesE)
    have sel: "d_SelectedModel d = i"
      using chosen(2) pr i(2) assms(2) by (simp add: wf_catalog_def)
    show ?thesis
      using i rec fl unfolding sel ps pr
      by (auto simp: meets_floor_def infeasibleReason_iff)
  qed
qed

text \<open>A drifted policy, and one in observe or shadow mode, always serves the incumbent, and the
  decision says why.\<close>

theorem Route_fails_closed:
  assumes "p_Drifted policy \<or> p_Mode policy = ModeObserve \<or> p_Mode policy = ModeShadow"
  shows "\<exists>d. Route e rt t policy request = Some d \<and>
    d_SelectedModel d = p_IncumbentModel policy \<and> d_Bucket d = ''incumbent'' \<and>
    d_FallbackReason d = (if p_Drifted policy then ''policy_drifted''
      else if p_Mode policy = ModeObserve then ''observe_only'' else ''shadow_only'')"
proof -
  have "\<not> goes_live policy (trace_of rt request)" using assms by (auto simp: goes_live_def)
  from Route_not_live [OF this, of e t] obtain d where
    "Route e rt t policy request = Some d" "d_SelectedModel d = p_IncumbentModel policy"
    "(d_Bucket d, d_FallbackReason d) = held_back policy (trace_of rt request)" by blast
  then show ?thesis using assms by (auto simp: held_back_def split: if_splits)
qed


text \<open>Exploration happens only on requests explicitly marked low risk, and only for the share of traces
  the policy allows.\<close>

theorem Route_exploration_low_risk:
  assumes "Route e rt t policy request = Some d" and "d_Bucket d = ''exploration''"
  shows "md_RiskClass (rq_Metadata request) = RiskLow \<and>
    flt (hashPercent (trace_of rt request @ ''|explore|'' @ p_Version policy))
      (p_ExplorationPercent policy)"
proof -
  have live: "goes_live policy (trace_of rt request)"
    using assms Route_not_live [of policy rt request e t]
    by (fastforce simp: held_back_def split: if_splits)
  from live assms(1) show ?thesis
  proof (cases rule: Route_liveE)
    case none
    with assms(2) show ?thesis by simp
  next
    case (chosen selected)
    from choose_liveD(3) [OF chosen(1)] assms(2) show ?thesis by simp
  qed
qed

lemma Route_feasible_eq:
  assumes "Route e rt t policy request = Some d"
  shows "d_FeasibleModels d = filter (is_feasible e policy request) (route_models policy)"
proof -
  have "d_FeasibleModels d = d_FeasibleModels (predicted_decision e rt t policy request)"
  proof (cases "goes_live policy (trace_of rt request)")
    case True
    from True assms show ?thesis by (cases rule: Route_liveE)
  next
    case False
    with assms Route_not_live [of policy rt request e t] show ?thesis by auto
  qed
  then show ?thesis by (simp add: predicted_decision_fields)
qed

text \<open>The decision lists as feasible exactly the known models of the policy that meet every hard
  constraint, each once, incumbent first.\<close>

theorem Route_feasible_models:
  assumes "Route e rt t policy request = Some d"
  shows "d_FeasibleModels d = filter (is_feasible e policy request) (route_models policy) \<and>
    distinct (d_FeasibleModels d)"
  using Route_feasible_eq [OF assms] by (simp add: route_models_def)

subsection \<open>The treatment arm is the cheapest candidate\<close>

text \<open>
  The comparison treats costs less than 1e-12 apart as equal, which is not transitive. On a set
  of predictions whose different costs are at least that far apart it is a strict weak order:
  cheaper first, and the larger confidence bound first among equal costs.
\<close>

definition separated_costs :: "prediction set \<Rightarrow> bool" where
  "separated_costs A \<longleftrightarrow>
     (\<forall>a\<in>A. pr_EstimatedCostUSD a \<in> range Fin \<and> pr_LowerBound a \<noteq> NaN) \<and>
     (\<forall>a\<in>A. \<forall>b\<in>A. pr_EstimatedCostUSD a = pr_EstimatedCostUSD b \<or>
        \<not> flt (fabs (fsub (pr_EstimatedCostUSD a) (pr_EstimatedCostUSD b))) (f64 (1 / 10 ^ 12)))"

lemma f64_epsilon_pos: "flt (Fin 0) (f64 (1 / 10 ^ 12))"
  by code_simp

lemma cheaper_separated:
  assumes "separated_costs A" "a \<in> A" "b \<in> A"
  shows "cheaper a b \<longleftrightarrow> (if pr_EstimatedCostUSD a = pr_EstimatedCostUSD b
      then flt (pr_LowerBound b) (pr_LowerBound a)
      else flt (pr_EstimatedCostUSD a) (pr_EstimatedCostUSD b))"
proof (cases "pr_EstimatedCostUSD a = pr_EstimatedCostUSD b")
  case True
  obtain c where "pr_EstimatedCostUSD b = Fin c" using assms unfolding separated_costs_def by blast
  then have "flt (fabs (fsub (pr_EstimatedCostUSD a) (pr_EstimatedCostUSD b))) (f64 (1 / 10 ^ 12))"
    using True f64_epsilon_pos by (simp add: fsub_def)
  with True show ?thesis by (simp add: cheaper_def)
next
  case False
  then have "\<not> flt (fabs (fsub (pr_EstimatedCostUSD a) (pr_EstimatedCostUSD b))) (f64 (1 / 10 ^ 12))"
    using assms unfolding separated_costs_def by blast
  with False show ?thesis by (simp add: cheaper_def)
qed

lemma cheaper_strict_weak:
  assumes "separated_costs A"
  shows "strict_weak_on cheaper A"
proof -
  have fin: "pr_EstimatedCostUSD a \<noteq> NaN" "pr_LowerBound a \<noteq> NaN" if "a \<in> A" for a
    using assms that unfolding separated_costs_def by auto
  have "\<not> cheaper b a" if "a \<in> A" "b \<in> A" "cheaper a b" for a b
    using that by (auto simp: cheaper_separated [OF assms] dest: flt_asym split: if_splits)
  moreover have "\<not> cheaper a c"
    if h: "a \<in> A" "b \<in> A" "c \<in> A" "\<not> cheaper a b" "\<not> cheaper b c" for a b c
  proof -
    have ab: "fle (pr_EstimatedCostUSD b) (pr_EstimatedCostUSD a)"
      "pr_EstimatedCostUSD a = pr_EstimatedCostUSD b \<Longrightarrow> fle (pr_LowerBound a) (pr_LowerBound b)"
      and bc: "fle (pr_EstimatedCostUSD c) (pr_EstimatedCostUSD b)"
      "pr_EstimatedCostUSD b = pr_EstimatedCostUSD c \<Longrightarrow> fle (pr_LowerBound b) (pr_LowerBound c)"
      using h fin by (auto simp: cheaper_separated [OF assms] not_flt_iff split: if_splits)
    then have "fle (pr_EstimatedCostUSD c) (pr_EstimatedCostUSD a)" using fle_trans by blast
    moreover have "fle (pr_LowerBound a) (pr_LowerBound c)"
      if "pr_EstimatedCostUSD a = pr_EstimatedCostUSD c"
      using that ab bc fle_antisym fle_trans by metis
    ultimately show ?thesis
      using h fin by (auto simp: cheaper_separated [OF assms] not_flt_iff)
  qed
  ultimately show ?thesis unfolding strict_weak_on_def by blast
qed

text \<open>C13: In the treatment arm no candidate that clears the floor is cheaper than the selected one, and
  none of the same cost has a higher confidence bound, provided different costs are more than
  the comparison's 1e-12 apart.\<close>

theorem Route_treatment_cheapest:
  assumes "Route e rt t policy request = Some d" and "d_Bucket d = ''treatment''"
    and "pdq_sorter (rt_pdqsort rt)" and "separated_costs (set (live_candidates policy (d_Predictions d)))"
    and "pr \<in> set (live_candidates policy (d_Predictions d))"
  shows "\<exists>best \<in> set (live_candidates policy (d_Predictions d)).
    d_SelectedModel d = pr_ModelID best \<and> d_EstimatedCostUSD d = pr_EstimatedCostUSD best \<and>
    fle (pr_EstimatedCostUSD best) (pr_EstimatedCostUSD pr) \<and>
    (pr_EstimatedCostUSD pr = pr_EstimatedCostUSD best \<longrightarrow>
       fle (pr_LowerBound pr) (pr_LowerBound best))"
proof -
  have live: "goes_live policy (trace_of rt request)"
    using assms(1,2) Route_not_live [of policy rt request e t]
    by (fastforce simp: held_back_def split: if_splits)
  from live assms(1) show ?thesis
  proof (cases rule: Route_liveE)
    case none
    with assms(2) show ?thesis by simp
  next
    case (chosen selected)
    note ps = chosen(4) and A = assms(4,5) [unfolded chosen(4)]
    have sel: "selected = hd (sorted_candidates e rt t policy request)"
      using choose_liveD(4) [OF chosen(1)] assms(2) by simp
    have mem: "selected \<in> set (live_candidates policy
        (d_Predictions (predicted_decision e rt t policy request)))"
      using assms(3) chosen(1) by (rule chosen_is_live)
    have fin: "pr_EstimatedCostUSD a \<noteq> NaN \<and> pr_LowerBound a \<noteq> NaN"
      if "a \<in> set (live_candidates policy (d_Predictions (predicted_decision e rt t policy request)))" for a
      using A(1) that unfolding separated_costs_def by auto
    have "\<not> cheaper pr selected"
      unfolding sel using assms(3) cheaper_strict_weak [OF A(1)] A(2)
      by (rule pdq_sorter.hd_sort_Slice_minimal)
    then have "fle (pr_EstimatedCostUSD selected) (pr_EstimatedCostUSD pr) \<and>
        (pr_EstimatedCostUSD pr = pr_EstimatedCostUSD selected \<longrightarrow>
           fle (pr_LowerBound pr) (pr_LowerBound selected))"
      using fin [OF mem] fin [OF A(2)]
      by (auto simp: cheaper_separated [OF A(1) A(2) mem] not_flt_iff split: if_splits)
    then show ?thesis unfolding ps using mem chosen(2,3) by blast
  qed
qed

definition near_prediction :: "string \<Rightarrow> rat \<Rightarrow> rat \<Rightarrow> prediction" where
  "near_prediction i cost bound = zero_prediction\<lparr>pr_ModelID := i, pr_Eligible := True,
     pr_EstimatedCostUSD := Fin cost, pr_LowerBound := Fin bound, pr_Samples := 1000\<rparr>"

lemma near_gaps:
  "f64 (1 / 1000000000000) = Fin (4951760157141521 / 4951760157141521099596496896) \<and>
  f64 (3 / 2199023255552) = Fin (3 / 2199023255552) \<and>
  f64 (3 / 4398046511104) = Fin (3 / 4398046511104) \<and>
  f64 (- (3 / 2199023255552)) = Fin (- 3 / 2199023255552) \<and>
  f64 (- (3 / 4398046511104)) = Fin (- 3 / 4398046511104)"
  by code_simp

text \<open>Without that gap the comparison is not transitive: of three candidates whose costs lie
  0.7e-12 apart each is preferred to the next in a cycle, and the sort leaves the most expensive
  first although the last is cheaper by more than the comparison's tolerance.\<close>

theorem cheaper_not_transitive:
  "cheaper (near_prediction ''a'' (3 / 2199023255552) (3 / 4)) (near_prediction ''b'' (3 / 4398046511104) (1 / 2)) \<and>
   cheaper (near_prediction ''b'' (3 / 4398046511104) (1 / 2)) (near_prediction ''c'' 0 (1 / 4)) \<and>
   cheaper (near_prediction ''c'' 0 (1 / 4)) (near_prediction ''a'' (3 / 2199023255552) (3 / 4)) \<and>
   map pr_ModelID (sort_Slice insertionSort cheaper
     [near_prediction ''a'' (3 / 2199023255552) (3 / 4), near_prediction ''b'' (3 / 4398046511104) (1 / 2),
      near_prediction ''c'' 0 (1 / 4)]) = [''a'', ''b'', ''c'']"
  by (simp add: cheaper_def near_prediction_def near_gaps fsub_def sort_Slice_def insertionSort_def)

subsection \<open>The sample deployment, routed\<close>

definition sample_runtime :: runtime where
  "sample_runtime = \<lparr>rt_started = 0, rt_dec_id = ''dec_01'', rt_trace_id = ''tr_01'',
     rt_feature_order = (\<lambda>_. feature_names), rt_pdqsort = insertionSort, rt_latency_micros = 42\<rparr>"

definition premium_prediction :: prediction where
  "premium_prediction = \<lparr>pr_ModelID = ''premium'', pr_Success = Fin (8286623314361713 / 9007199254740992),
     pr_LowerBound = Fin (2053134775122867 / 2251799813685248),
     pr_Uncertainty = Fin (5764607523034235 / 1152921504606846976), pr_Samples = 1000,
     pr_EstimatedCostUSD = Fin (5946192660009813 / 576460752303423488), pr_P95LatencyMS = 1000,
     pr_Eligible = True, pr_Reason = []\<rparr>"

definition balanced_prediction :: prediction where
  "balanced_prediction = \<lparr>pr_ModelID = ''balanced'', pr_Success = Fin (8196551321814303 / 9007199254740992),
     pr_LowerBound = Fin (4061233553972029 / 4503599627370496),
     pr_Uncertainty = Fin (5764607523034235 / 1152921504606846976), pr_Samples = 1000,
     pr_EstimatedCostUSD = Fin (4756954128007851 / 2305843009213693952), pr_P95LatencyMS = 700,
     pr_Eligible = True, pr_Reason = []\<rparr>"

definition economy_prediction :: prediction where
  "economy_prediction = \<lparr>pr_ModelID = ''economy'', pr_Success = Fin (7656119366529843 / 9007199254740992),
     pr_LowerBound = Fin (3753975469394677 / 4503599627370496),
     pr_Uncertainty = Fin (5764607523034235 / 576460752303423488), pr_Samples = 1000,
     pr_EstimatedCostUSD = Fin (7611126604812561 / 18446744073709551616), pr_P95LatencyMS = 400,
     pr_Eligible = True, pr_Reason = []\<rparr>"

lemmas sample_prediction_defs = premium_prediction_def balanced_prediction_def economy_prediction_def

lemma sample_score_of:
  "applied_score sample_policy premium sample_request = sample_score (92 / 100) (4 / 1000)"
  "applied_score sample_policy balanced sample_request = sample_score (91 / 100) (5 / 1000)"
  "applied_score sample_policy economy sample_request = sample_score (85 / 100) (1 / 100)"
  by (simp_all add: applied_score_def workflowScore_def sample_defs)

lemma sample_cost_of:
  "estimateCost premium sample_features = Fin (5946192660009813 / 576460752303423488) \<and>
  estimateCost balanced sample_features = Fin (4756954128007851 / 2305843009213693952) \<and>
  estimateCost economy sample_features = Fin (7611126604812561 / 18446744073709551616)"
  unfolding estimateCost_def sample_defs features.simps model.simps by code_simp

lemma sample_feasible:
  "infeasibleReason sample_engine sample_policy premium sample_request cost = []"
  "infeasibleReason sample_engine sample_policy balanced sample_request cost = []"
  "infeasibleReason sample_engine sample_policy economy sample_request cost = []"
  by (simp_all add: feasibility_eval)

lemma sample_estimate:
  assumes "applied_score sample_policy m sample_request = sample_score rate unc"
  shows "pr_Success (predict sample_engine feature_names sample_policy m sample_request) =
      clamp (fadd (f64 rate) (Fin 0)) (Fin 0) (Fin 1)"
    and "pr_Uncertainty (predict sample_engine feature_names sample_policy m sample_request) =
      clamp (f64 unc) (f64 (5 / 1000)) (f64 (1 / 2))"
    and "pr_LowerBound (predict sample_engine feature_names sample_policy m sample_request) =
      clamp (fsub (clamp (fadd (f64 rate) (Fin 0)) (Fin 0) (Fin 1))
          (fmul (f64 (1645 / 1000)) (clamp (f64 unc) (f64 (5 / 1000)) (f64 (1 / 2))))) (Fin 0) (Fin 1)"
  by (simp_all add: predict_estimates assms linear_score_no_weights [OF _ sample_features_finite]
      sample_score_def sample_request_features, simp_all add: sample_policy_def)

lemma sample_successes:
  "clamp (fadd (f64 (92 / 100)) (Fin 0)) (Fin 0) (Fin 1) = pr_Success premium_prediction \<and>
  clamp (fadd (f64 (91 / 100)) (Fin 0)) (Fin 0) (Fin 1) = pr_Success balanced_prediction \<and>
  clamp (fadd (f64 (85 / 100)) (Fin 0)) (Fin 0) (Fin 1) = pr_Success economy_prediction"
  by code_simp

lemma sample_uncertainties:
  "clamp (f64 (4 / 1000)) (f64 (5 / 1000)) (f64 (1 / 2)) = pr_Uncertainty premium_prediction \<and>
  clamp (f64 (5 / 1000)) (f64 (5 / 1000)) (f64 (1 / 2)) = pr_Uncertainty balanced_prediction \<and>
  clamp (f64 (1 / 100)) (f64 (5 / 1000)) (f64 (1 / 2)) = pr_Uncertainty economy_prediction"
  by code_simp

lemma sample_lower_premium:
  "clamp (fsub (pr_Success premium_prediction) (fmul (f64 (1645 / 1000)) (pr_Uncertainty premium_prediction)))
     (Fin 0) (Fin 1) = pr_LowerBound premium_prediction"
  by code_simp

lemma sample_lower_balanced:
  "clamp (fsub (pr_Success balanced_prediction) (fmul (f64 (1645 / 1000)) (pr_Uncertainty balanced_prediction)))
     (Fin 0) (Fin 1) = pr_LowerBound balanced_prediction"
  by code_simp

lemma sample_lower_economy:
  "clamp (fsub (pr_Success economy_prediction) (fmul (f64 (1645 / 1000)) (pr_Uncertainty economy_prediction)))
     (Fin 0) (Fin 1) = pr_LowerBound economy_prediction"
  by code_simp

lemmas sample_numbers = sample_successes sample_uncertainties sample_lower_premium sample_lower_balanced sample_lower_economy

lemmas sample_predict_rules = predict_fields sample_feasible sample_request_features sample_cost_of
  sample_score_of sample_estimate [OF sample_score_of(1)] sample_estimate [OF sample_score_of(2)]
  sample_estimate [OF sample_score_of(3)] sample_numbers

lemma sample_predict_premium:
  "predict sample_engine feature_names sample_policy premium sample_request = premium_prediction"
  by (rule prediction.equality; (simp only: sample_predict_rules)?)
    (simp_all add: sample_prediction_defs sample_model_defs sample_score_def)

lemma sample_predict_balanced:
  "predict sample_engine feature_names sample_policy balanced sample_request = balanced_prediction"
  by (rule prediction.equality; (simp only: sample_predict_rules)?)
    (simp_all add: sample_prediction_defs sample_model_defs sample_score_def)

lemma sample_predict_economy:
  "predict sample_engine feature_names sample_policy economy sample_request = economy_prediction"
  by (rule prediction.equality; (simp only: sample_predict_rules)?)
    (simp_all add: sample_prediction_defs sample_model_defs sample_score_def)

lemma sample_route_models: "route_models sample_policy = [''premium'', ''balanced'', ''economy'']"
  by (simp add: route_models_def unique_def sample_policy_def)

lemma sample_catalog_of:
  "map_of (e_Catalog sample_engine) ''premium'' = Some premium"
  "map_of (e_Catalog sample_engine) ''balanced'' = Some balanced"
  "map_of (e_Catalog sample_engine) ''economy'' = Some economy"
  by (simp_all add: sample_engine_def sample_catalog_def)

lemma wf_sample_catalog: "wf_catalog (e_Catalog sample_engine)"
  by (simp add: wf_catalog_def sample_engine_def sample_catalog_def sample_model_defs)

lemma sample_prediction_for:
  assumes "rt_feature_order rt = (\<lambda>_. feature_names)"
  shows "prediction_for sample_engine rt sample_policy sample_request ''premium'' = Some premium_prediction"
    and "prediction_for sample_engine rt sample_policy sample_request ''balanced'' = Some balanced_prediction"
    and "prediction_for sample_engine rt sample_policy sample_request ''economy'' = Some economy_prediction"
  by (simp_all add: prediction_for_def assms sample_catalog_of sample_predict_premium
      sample_predict_balanced sample_predict_economy)

lemma sample_predictions:
  "map_of (d_Predictions (predicted_decision sample_engine sample_runtime t sample_policy sample_request)) i =
     map_of [(''premium'', premium_prediction), (''balanced'', balanced_prediction),
       (''economy'', economy_prediction)] i"
  by (simp add: predicted_decision_fields sample_route_models sample_prediction_for sample_runtime_def)

lemma sample_lookup:
  "lookup_zero zero_prediction
     (d_Predictions (predicted_decision sample_engine sample_runtime t sample_policy sample_request)) i =
   lookup_zero zero_prediction [(''premium'', premium_prediction), (''balanced'', balanced_prediction),
       (''economy'', economy_prediction)] i"
  by (simp only: lookup_zero_def sample_predictions)

lemma sample_floor:
  "fsub (pr_Success premium_prediction) (f64 (3 / 100)) = Fin (8016407336719483 / 9007199254740992)"
  "fadd (pr_LowerBound balanced_prediction) (f64 (1 / 10 ^ 12)) = Fin (8122467107953065 / 9007199254740992)"
  "fadd (pr_LowerBound economy_prediction) (f64 (1 / 10 ^ 12)) = Fin (7507950938798361 / 9007199254740992)"
  by code_simp+

lemma sample_meets_floor:
  assumes "p_MinimumSamples policy = 100"
  shows "meets_floor policy (fsub (pr_Success premium_prediction) (f64 (3 / 100))) balanced_prediction"
    and "\<not> meets_floor policy (fsub (pr_Success premium_prediction) (f64 (3 / 100))) economy_prediction"
  unfolding meets_floor_def sample_floor assms
  by (simp_all add: balanced_prediction_def economy_prediction_def)

lemma sample_live:
  assumes "\<And>i. lookup_zero zero_prediction ps i = lookup_zero zero_prediction
     [(''premium'', premium_prediction), (''balanced'', balanced_prediction), (''economy'', economy_prediction)] i"
    and "p_IncumbentModel policy = ''premium''" "p_CandidateModels policy = [''balanced'', ''economy'']"
    and "p_QualityTolerance policy = f64 (3 / 100)" "p_MinimumSamples policy = 100"
  shows "live_candidates policy ps = [balanced_prediction]"
  by (simp add: live_candidates_def Let_def assms(1-4) sample_meets_floor [OF assms(5)])

lemma sample_policy_routing:
  "p_IncumbentModel sample_policy = ''premium''" "p_CandidateModels sample_policy = [''balanced'', ''economy'']"
  "p_QualityTolerance sample_policy = f64 (3 / 100)" "p_MinimumSamples sample_policy = 100"
  "\<not> p_Drifted sample_policy" "p_Mode sample_policy = ModeActive" "p_ControlPercent sample_policy = Fin 0"
  "p_ExplorationPercent sample_policy = Fin 0"
  by (simp_all add: sample_policy_def)

lemma hash_not_negative: "\<not> flt (hashPercent s) (Fin 0)"
  by (rule hashPercent_range [of s]) simp

lemma sample_routed:
  "\<exists>d. Route sample_engine sample_runtime t sample_policy sample_request = Some d \<and>
     d_SelectedModel d = ''balanced'' \<and> d_Bucket d = ''treatment'' \<and>
     live_candidates sample_policy (d_Predictions d) = [balanced_prediction]"
proof -
  have "goes_live sample_policy (trace_of sample_runtime sample_request)"
    by (simp add: goes_live_def sample_policy_routing bucket_of_def hash_not_negative)
  moreover have "live_candidates sample_policy (d_Predictions (predicted_decision sample_engine sample_runtime t
      sample_policy sample_request)) = [balanced_prediction]"
    by (rule sample_live) (simp_all only: sample_lookup sample_policy_routing)
  moreover have "pr_ModelID balanced_prediction = ''balanced''"
    by (simp add: balanced_prediction_def)
  ultimately show ?thesis
    by (simp add: Route_live select_live_def Let_def choose_live_def sample_policy_routing sort_Slice_def
        insertionSort_def slice_index_def finishRoutingLatency_def)
qed

lemma sample_runtime_sorter: "pdq_sorter (rt_pdqsort sample_runtime)"
  by (simp add: sample_runtime_def insertion_pdq.pdq_sorter_axioms)

theorem Route_total_witness:
  "\<exists>d. Route sample_engine sample_runtime ''tenant'' sample_policy sample_request = Some d"
  by (rule Route_total [OF sample_runtime_sorter]) (simp add: sample_policy_def)

theorem Route_selects_qualified_witness:
  "\<exists>d m pr. Route sample_engine sample_runtime ''tenant'' sample_policy sample_request = Some d \<and>
     d_SelectedModel d \<in> set (p_CandidateModels sample_policy) \<and>
     map_of (d_Predictions d) (d_SelectedModel d) = Some pr \<and>
     p_MinimumSamples sample_policy \<le> pr_Samples pr \<and>
     hard_constraints sample_engine sample_policy m sample_request (estimateCost m (rq_Features sample_request))"
proof -
  obtain d where d: "Route sample_engine sample_runtime ''tenant'' sample_policy sample_request = Some d"
    "d_SelectedModel d = ''balanced''" using sample_routed by blast
  then have "d_SelectedModel d \<noteq> p_IncumbentModel sample_policy" by (simp add: sample_policy_routing)
  from Route_selects_qualified [OF d(1) wf_sample_catalog sample_runtime_sorter this] d(1)
  show ?thesis by blast
qed

theorem Route_treatment_cheapest_witness:
  "\<exists>d. Route sample_engine sample_runtime ''tenant'' sample_policy sample_request = Some d \<and>
     d_EstimatedCostUSD d = pr_EstimatedCostUSD balanced_prediction"
proof -
  obtain d where d: "Route sample_engine sample_runtime ''tenant'' sample_policy sample_request = Some d"
    "d_Bucket d = ''treatment''" "live_candidates sample_policy (d_Predictions d) = [balanced_prediction]"
    using sample_routed by blast
  have "separated_costs (set (live_candidates sample_policy (d_Predictions d)))"
    unfolding d(3) by (simp add: separated_costs_def balanced_prediction_def rangeI)
  from Route_treatment_cheapest [OF d(1,2) sample_runtime_sorter this] d(1) show ?thesis
    unfolding d(3) by simp
qed

theorem Route_feasible_models_witness:
  "\<exists>d. Route sample_engine sample_runtime ''tenant'' sample_policy sample_request = Some d \<and>
     d_FeasibleModels d = [''premium'', ''balanced'', ''economy'']"
proof -
  obtain d where d: "Route sample_engine sample_runtime ''tenant'' sample_policy sample_request = Some d"
    using sample_routed by blast
  have "is_feasible sample_engine sample_policy sample_request i"
    if "i \<in> {''premium'', ''balanced'', ''economy''}" for i
    using that by (auto simp: is_feasible_def sample_catalog_of sample_feasible simp flip: infeasibleReason_iff)
  with Route_feasible_models [OF d] d show ?thesis by (simp add: sample_route_models)
qed

theorem Route_fails_closed_witness:
  "\<exists>d. Route sample_engine sample_runtime ''tenant'' (sample_policy\<lparr>p_Drifted := True\<rparr>) sample_request =
       Some d \<and> d_SelectedModel d = ''premium'' \<and> d_FallbackReason d = ''policy_drifted''"
  using Route_fails_closed [of "sample_policy\<lparr>p_Drifted := True\<rparr>" sample_engine sample_runtime "''tenant''"
      sample_request]
  by (auto simp: sample_policy_routing)


text \<open>A low-risk request under a policy that explores on every trace.\<close>

definition exploring_policy :: policy where
  "exploring_policy = sample_policy\<lparr>p_ExplorationPercent := Fin 100\<rparr>"

definition low_risk_request :: request where
  "low_risk_request = sample_request\<lparr>rq_Metadata := sample_metadata\<lparr>md_RiskClass := RiskLow\<rparr>\<rparr>"

lemma low_risk_predict:
  "predict e ord exploring_policy m low_risk_request = predict e ord sample_policy m sample_request"
  by (simp add: predict_def infeasibleReason_def exploring_policy_def low_risk_request_def
      sample_request_def Let_def split del: if_split cong: if_cong option.case_cong)

lemma exploring_policy_routing:
  "p_IncumbentModel exploring_policy = ''premium''"
  "p_CandidateModels exploring_policy = [''balanced'', ''economy'']"
  "p_QualityTolerance exploring_policy = f64 (3 / 100)" "p_MinimumSamples exploring_policy = 100"
  "\<not> p_Drifted exploring_policy" "p_Mode exploring_policy = ModeActive"
  "p_ControlPercent exploring_policy = Fin 0" "p_ExplorationPercent exploring_policy = Fin 100"
  by (simp_all add: exploring_policy_def sample_policy_def)

lemma exploring_lookup:
  "lookup_zero zero_prediction
     (d_Predictions (predicted_decision sample_engine sample_runtime t exploring_policy low_risk_request)) i =
   lookup_zero zero_prediction [(''premium'', premium_prediction), (''balanced'', balanced_prediction),
       (''economy'', economy_prediction)] i"
proof -
  have "route_models exploring_policy = route_models sample_policy"
    by (simp add: route_models_def exploring_policy_def)
  moreover have "prediction_for sample_engine sample_runtime exploring_policy low_risk_request =
      prediction_for sample_engine sample_runtime sample_policy sample_request"
    by (rule ext) (simp add: prediction_for_def low_risk_predict)
  ultimately show ?thesis
    by (simp only: lookup_zero_def predicted_decision_fields flip: sample_predictions [of t])
qed

theorem Route_exploration_low_risk_witness:
  "\<exists>d. Route sample_engine sample_runtime ''tenant'' exploring_policy low_risk_request = Some d \<and>
     d_Bucket d = ''exploration'' \<and> d_SelectedModel d = ''balanced'' \<and>
     md_RiskClass (rq_Metadata low_risk_request) = RiskLow"
proof -
  have "goes_live exploring_policy (trace_of sample_runtime low_risk_request)"
    by (simp add: goes_live_def exploring_policy_routing bucket_of_def hash_not_negative)
  moreover have "live_candidates exploring_policy (d_Predictions (predicted_decision sample_engine
      sample_runtime ''tenant'' exploring_policy low_risk_request)) = [balanced_prediction]"
    by (rule sample_live) (simp_all only: exploring_lookup exploring_policy_routing)
  moreover have "pr_ModelID balanced_prediction = ''balanced''"
    by (simp add: balanced_prediction_def)
  moreover have "flt (hashPercent s) (Fin 100)" for s by (rule hashPercent_range [of s]) simp
  moreover have "slice_index [x] (arm_index s (Suc 0)) = Some x" for x :: prediction and s
    using arm_index_range [of "Suc 0" s] by (simp add: slice_index_def)
  moreover have "md_RiskClass (rq_Metadata low_risk_request) = RiskLow"
    by (simp add: low_risk_request_def)
  ultimately have "\<exists>d. Route sample_engine sample_runtime ''tenant'' exploring_policy low_risk_request = Some d \<and>
     d_Bucket d = ''exploration'' \<and> d_SelectedModel d = ''balanced''"
    by (simp add: Route_live select_live_def Let_def choose_live_def exploring_policy_routing sort_Slice_def
        insertionSort_def finishRoutingLatency_def)
  then obtain d where d: "Route sample_engine sample_runtime ''tenant'' exploring_policy low_risk_request = Some d"
    "d_Bucket d = ''exploration''" "d_SelectedModel d = ''balanced''" by blast
  from Route_exploration_low_risk [OF d(1,2)] d show ?thesis by blast
qed

subsection \<open>Costs and shadow models of a decision\<close>

lemma Route_cases:
  assumes "Route e rt t policy request = Some d"
  shows "d_Predictions d = d_Predictions (predicted_decision e rt t policy request)"
    and "d_IncumbentEstimatedCostUSD d = d_EstimatedCostUSD (predicted_decision e rt t policy request)"
  using assms Route_not_live [of policy rt request e t]
  by (cases "goes_live policy (trace_of rt request)"; auto elim: Route_liveE)+

text \<open>The cost a decision records is the one predicted for the model it selects, and the cost of the
  incumbent is recorded next to it, so the saving claimed for the decision is the difference of
  two predictions of the same decision.\<close>

theorem Route_cost_accounting:
  assumes "Route e rt t policy request = Some d" and "wf_catalog (e_Catalog e)"
    and "pdq_sorter (rt_pdqsort rt)"
  shows "d_EstimatedCostUSD d = pr_EstimatedCostUSD
      (lookup_zero zero_prediction (d_Predictions d) (d_SelectedModel d)) \<and>
    d_IncumbentEstimatedCostUSD d = pr_EstimatedCostUSD
      (lookup_zero zero_prediction (d_Predictions d) (p_IncumbentModel policy))"
proof (cases "goes_live policy (trace_of rt request)")
  case False
  with assms(1) Route_not_live [of policy rt request e t] show ?thesis
    by (auto simp: predicted_decision_frame(7))
next
  case True
  from True assms(1) show ?thesis
  proof (cases rule: Route_liveE)
    case none
    then show ?thesis by (simp add: predicted_decision_frame(7))
  next
    case (chosen selected)
    have "selected \<in> set (live_candidates policy
        (d_Predictions (predicted_decision e rt t policy request)))"
      using assms(3) chosen(1) by (rule chosen_is_live)
    then obtain i m where "map_of (e_Catalog e) i = Some m"
      and "selected = predict e (rt_feature_order rt i) policy m request"
      and rec: "map_of (d_Predictions (predicted_decision e rt t policy request)) i = Some selected"
      by (rule live_candidatesE)
    then have "pr_ModelID selected = i" using assms(2) by (simp add: wf_catalog_def)
    with rec chosen(2,3,4,8) show ?thesis by (simp add: predicted_decision_frame(7))
  qed
qed

theorem Route_cost_accounting_witness:
  "\<exists>d. Route sample_engine sample_runtime ''tenant'' sample_policy sample_request = Some d \<and>
     d_IncumbentEstimatedCostUSD d = pr_EstimatedCostUSD premium_prediction"
proof -
  obtain d where d: "Route sample_engine sample_runtime ''tenant'' sample_policy sample_request = Some d"
    using sample_routed by blast
  from Route_cost_accounting [OF d wf_sample_catalog sample_runtime_sorter] d show ?thesis
    by (simp add: Route_cases(1) [OF d] sample_lookup sample_policy_routing)
qed

lemma eligible_iff_feasible:
  assumes "i \<in> set (p_CandidateModels policy)"
  shows "pr_Eligible (lookup_zero zero_prediction (d_Predictions (predicted_decision e rt t policy request)) i)
    \<longleftrightarrow> i \<noteq> [] \<and> is_feasible e policy request i"
  using assms
  by (cases "map_of (e_Catalog e) i")
    (auto simp: lookup_zero_def predicted_decision_fields set_route_models prediction_for_def is_feasible_def
      infeasibleReason_iff zero_prediction_def split: option.splits)

lemma shadowCandidates_feasible:
  "shadowCandidates policy (d_Predictions (predicted_decision e rt t policy request)) =
    (if fle (p_ShadowBudgetUSDPerDay policy) (Fin 0) then []
     else filter (\<lambda>i. i \<noteq> [] \<and> is_feasible e policy request i) (p_CandidateModels policy))"
  by (simp add: shadowCandidates_def eligible_iff_feasible cong: filter_cong)

lemma predicted_no_shadows: "d_ShadowModels (predicted_decision e rt t policy request) = []"
proof -
  obtain ps fs where ps: "foldl (record_prediction e rt policy request)
        (initial_decision e rt t policy request) (route_models policy) =
      (initial_decision e rt t policy request)\<lparr>d_Predictions := ps, d_FeasibleModels := fs\<rparr>"
    using fold_predictions by blast
  show ?thesis
    unfolding predicted_decision_def ps Let_def by (simp add: initial_decision_def Let_def)
qed

lemma select_live_shadows:
  "select_live rt policy request d = Some d' \<Longrightarrow> d_ShadowModels d' = d_ShadowModels d"
  by (auto simp: select_live_def Let_def split: if_splits option.splits prod.splits)

lemma Route_shadow_eq:
  assumes "Route e rt t policy request = Some d"
  shows "d_ShadowModels d =
    (if p_Drifted policy \<or> p_Mode policy = ModeObserve \<or> fle (p_ShadowBudgetUSDPerDay policy) (Fin 0)
     then [] else filter (\<lambda>i. i \<noteq> [] \<and> is_feasible e policy request i) (p_CandidateModels policy))"
  using assms unfolding Route_def Let_def shadowCandidates_feasible
  by (auto simp: finishRoutingLatency_def predicted_no_shadows dest!: select_live_shadows
      split: if_splits)

text \<open>Shadow traffic is planned only for a policy with a shadow budget that is neither drifted nor in
  observe mode, and only to candidates of the policy that could have served the request.\<close>

theorem Route_shadow_models:
  assumes "Route e rt t policy request = Some d"
  shows "d_ShadowModels d =
    (if p_Drifted policy \<or> p_Mode policy = ModeObserve \<or> fle (p_ShadowBudgetUSDPerDay policy) (Fin 0)
     then [] else filter (\<lambda>i. i \<noteq> [] \<and> is_feasible e policy request i) (p_CandidateModels policy))"
  using assms by (rule Route_shadow_eq)

lemma Route_shadows_feasible:
  "Route e rt t policy request = Some d \<Longrightarrow> set (d_ShadowModels d) \<subseteq> set (d_FeasibleModels d)"
  by (auto simp: Route_shadow_eq Route_feasible_eq set_route_models split: if_splits)

lemma Route_predictions:
  "Route e rt t policy request = Some d \<Longrightarrow> map_of (d_Predictions d) i =
     (if i \<in> set (route_models policy) then prediction_for e rt policy request i else None)"
  by (simp add: Route_cases(1) predicted_decision_fields)

text \<open>The selected model is the incumbent or a candidate of the policy.\<close>

lemma Route_selected:
  assumes "Route e rt t policy request = Some d" and "wf_catalog (e_Catalog e)"
    and "pdq_sorter (rt_pdqsort rt)"
  shows "d_SelectedModel d = p_IncumbentModel policy \<or> d_SelectedModel d \<in> set (p_CandidateModels policy)"
proof (cases "goes_live policy (trace_of rt request)")
  case False
  with assms(1) Route_not_live [of policy rt request e t] show ?thesis
    by (auto simp: predicted_decision_frame)
next
  case True
  from True assms(1) show ?thesis
  proof (cases rule: Route_liveE)
    case none
    then show ?thesis by (simp add: predicted_decision_frame)
  next
    case (chosen selected)
    have "selected \<in> set (live_candidates policy
        (d_Predictions (predicted_decision e rt t policy request)))"
      using assms(3) chosen(1) by (rule chosen_is_live)
    then obtain i m where i: "map_of (e_Catalog e) i = Some m"
      and "selected = predict e (rt_feature_order rt i) policy m request"
      and rec: "map_of (d_Predictions (predicted_decision e rt t policy request)) i = Some selected"
      and "i \<in> set (p_CandidateModels policy)"
      by (rule live_candidatesE)
    then have "pr_ModelID selected = i" using assms(2) by (simp add: wf_catalog_def)
    with chosen(2,3,4,8) \<open>i \<in> set (p_CandidateModels policy)\<close> show ?thesis by simp
  qed
qed

text \<open>What a decision keeps of the call that made it.\<close>

lemma predicted_decision_record:
  obtains ps fs c where "predicted_decision e rt t policy request =
    (initial_decision e rt t policy request)\<lparr>d_Predictions := ps, d_FeasibleModels := fs,
       d_EstimatedCostUSD := c, d_IncumbentEstimatedCostUSD := c\<rparr>"
proof -
  obtain ps fs where ps: "foldl (record_prediction e rt policy request)
        (initial_decision e rt t policy request) (route_models policy) =
      (initial_decision e rt t policy request)\<lparr>d_Predictions := ps, d_FeasibleModels := fs\<rparr>"
    using fold_predictions by blast
  show thesis
    by (rule that [where ps = ps and fs = fs and c = "pr_EstimatedCostUSD (lookup_zero zero_prediction ps (p_IncumbentModel policy))"])
      (simp add: predicted_decision_def ps Let_def)
qed

lemma select_live_frame:
  assumes "select_live rt policy request d = Some d'"
  shows "\<exists>b s c f. d' = d\<lparr>d_Bucket := b, d_SelectedModel := s, d_EstimatedCostUSD := c, d_FallbackReason := f\<rparr> \<and>
    b \<in> {d_Bucket d, ''treatment'', ''exploration''}"
proof (cases "live_candidates policy (d_Predictions d) = []")
  case True
  with assms have "d' = d\<lparr>d_FallbackReason := ''no_candidate_meets_quality_floor''\<rparr>"
    by (simp add: select_live_def Let_def)
  then show ?thesis
    by (intro exI [of _ "d_Bucket d"] exI [of _ "d_SelectedModel d"] exI [of _ "d_EstimatedCostUSD d"] exI) simp
next
  case False
  with assms obtain selected bucket where
      ch: "choose_live policy request (d_TraceID d) (sort_Slice (rt_pdqsort rt) cheaper
        (live_candidates policy (d_Predictions d))) = Some (selected, bucket)"
    and d': "d' = (let d' = d\<lparr>d_Bucket := bucket, d_SelectedModel := pr_ModelID selected,
                        d_EstimatedCostUSD := pr_EstimatedCostUSD selected\<rparr>
             in if pr_ModelID selected = p_IncumbentModel policy
                then d'\<lparr>d_FallbackReason := ''incumbent_is_optimal''\<rparr> else d')"
    by (auto simp: select_live_def Let_def split: option.splits)
  have "bucket \<in> {''treatment'', ''exploration''}"
    using ch by (auto simp: choose_live_def split: if_splits)
  moreover have "d' = d\<lparr>d_Bucket := bucket, d_SelectedModel := pr_ModelID selected,
      d_EstimatedCostUSD := pr_EstimatedCostUSD selected,
      d_FallbackReason := (if pr_ModelID selected = p_IncumbentModel policy then ''incumbent_is_optimal''
        else d_FallbackReason d)\<rparr>"
    unfolding d' by (simp add: Let_def)
  ultimately show ?thesis by blast
qed

lemma Route_frame:
  assumes "Route e rt t policy request = Some d"
  shows "d_ID d = rt_dec_id rt" and "d_ParentDecisionID d = []" and "d_TenantID d = t" and "d_PolicyID d = p_ID policy"
    and "d_IncumbentModel d = p_IncumbentModel policy" and "d_FinalModel d = []"
    and "d_AttemptedModels d = []" and "d_RiskClass d = md_RiskClass (rq_Metadata request)"
    and "d_Bucket d \<noteq> ''shadow''" and "d_CreatedAt d = (case e_Now e of None \<Rightarrow> rt_started rt | Some t \<Rightarrow> t)"
    and "d_PolicyVersion d = p_Version policy"
proof -
  let ?keep = "\<lambda>d. (d_ID d, d_ParentDecisionID d, d_TenantID d, d_PolicyID d, d_IncumbentModel d, d_FinalModel d,
      d_AttemptedModels d, d_RiskClass d, d_CreatedAt d, d_PolicyVersion d)"
  have p: "?keep (predicted_decision e rt t policy request) = ?keep (initial_decision e rt t policy request)"
      "d_Bucket (predicted_decision e rt t policy request) = ''incumbent''"
    by (rule predicted_decision_record [of e rt t policy request]; simp add: initial_decision_def Let_def)+
  have live: "?keep d' = ?keep d0 \<and> d_Bucket d' \<in> {d_Bucket d0, ''treatment'', ''exploration''}"
    if "select_live rt policy request d0 = Some d'" for d0 d'
    using select_live_frame [OF that] by auto
  have "?keep d = ?keep (predicted_decision e rt t policy request) \<and>
      d_Bucket d \<in> {''incumbent'', ''control'', ''treatment'', ''exploration''}"
    using assms p(2) unfolding Route_def Let_def
    by (auto simp: finishRoutingLatency_def dest!: live split: if_splits)
  then show "d_ID d = rt_dec_id rt" and "d_ParentDecisionID d = []" and "d_TenantID d = t" and "d_PolicyID d = p_ID policy"
    and "d_IncumbentModel d = p_IncumbentModel policy" and "d_FinalModel d = []"
    and "d_AttemptedModels d = []" and "d_RiskClass d = md_RiskClass (rq_Metadata request)"
    and "d_Bucket d \<noteq> ''shadow''" and "d_CreatedAt d = (case e_Now e of None \<Rightarrow> rt_started rt | Some t \<Rightarrow> t)"
    and "d_PolicyVersion d = p_Version policy"
    unfolding p(1) by (auto simp: initial_decision_def Let_def)
qed

definition shadow_policy :: policy where
  "shadow_policy = sample_policy\<lparr>p_ShadowBudgetUSDPerDay := Fin 2, p_Mode := ModeShadow\<rparr>"

theorem Route_shadow_models_witness:
  "\<exists>d. Route sample_engine sample_runtime ''tenant'' shadow_policy sample_request = Some d \<and>
     d_ShadowModels d = [''balanced'', ''economy'']"
proof -
  have "\<not> goes_live shadow_policy (trace_of sample_runtime sample_request)"
    by (simp add: goes_live_def shadow_policy_def)
  then obtain d where d: "Route sample_engine sample_runtime ''tenant'' shadow_policy sample_request = Some d"
    using Route_not_live by blast
  have "infeasibleReason sample_engine shadow_policy m sample_request cost =
      infeasibleReason sample_engine sample_policy m sample_request cost" for m cost
    by (simp add: infeasibleReason_def shadow_policy_def Let_def split del: if_split
        cong: if_cong option.case_cong)
  then have "is_feasible sample_engine shadow_policy sample_request i"
    if "i \<in> {''balanced'', ''economy''}" for i
    using that by (auto simp: is_feasible_def sample_catalog_of sample_feasible simp flip: infeasibleReason_iff)
  with Route_shadow_models [OF d] d show ?thesis
    by (simp add: shadow_policy_def sample_policy_def)
qed

end
