(* ===== verification/Config.thy ===== *)
theory Config
  imports Policy_Validity
begin

text \<open>
  Configuration (\<^verbatim>\<open>internal/config/config.go\<close>): the defaults and environment values \<^verbatim>\<open>Load\<close> fills
  in, \<^verbatim>\<open>Config.Validate\<close>, and the bearer-token authentication of tenants and of the administrator.
  Reading the file, decoding its JSON and reading the environment are arguments.
\<close>

record provider_config =
  pv_ID :: string
  pv_BaseURL :: string
  pv_BaseURLEnv :: string
  pv_APIKeyEnv :: string
  pv_APIKey :: string
  pv_Headers :: "string gomap"
  pv_TimeoutMS :: int64
  pv_MaxRetries :: int64
  pv_CircuitFailures :: int64
  pv_CircuitOpenMS :: int64

record tenant =
  tn_ID :: string
  tn_RouterAPIKeyEnv :: string
  tn_RouterAPIKey :: string
  tn_DefaultPolicyID :: string
  tn_Providers :: "provider_config gomap"

record config =
  cf_ListenAddress :: string
  cf_DataDirectory :: string
  cf_AdminKeyEnv :: string
  cf_AdminKey :: string
  cf_Catalog :: "model gomap"
  cf_Policies :: "policy list"
  cf_Tenants :: "tenant list"

datatype config_error =
    ReadConfig
  | DecodeConfig
  | NoTenants
  | EmptyCatalog
  | TenantIncomplete
  | DuplicateTenant string
  | ProviderWithoutURL string string
  | CatalogKeyMismatch string string
  | UnknownTenant string string
  | PolicyInvalid string policy_error

subsection \<open>Config.Validate\<close>

fun check_providers :: "string \<Rightarrow> provider_config gomap \<Rightarrow> config_error option" where
  "check_providers tid [] = None"
| "check_providers tid ((i, pv) # rest) =
     (if TrimSpace (pv_BaseURL pv) = [] then Some (ProviderWithoutURL tid i)
      else check_providers tid rest)"

text \<open>The loop over the tenants returns the ids it has seen.\<close>

fun check_tenants :: "string list \<Rightarrow> tenant list \<Rightarrow> config_error + string list" where
  "check_tenants seen [] = Inr seen"
| "check_tenants seen (t # ts) =
     (if tn_ID t = [] \<or> tn_RouterAPIKey t = [] then Inl TenantIncomplete
      else if tn_ID t \<in> set seen then Inl (DuplicateTenant (tn_ID t))
      else case check_providers (tn_ID t) (tn_Providers t) of
        Some e \<Rightarrow> Inl e
      | None \<Rightarrow> check_tenants (tn_ID t # seen) ts)"

fun check_catalog :: "model gomap \<Rightarrow> config_error option" where
  "check_catalog [] = None"
| "check_catalog ((i, m) # rest) =
     (if m_ID m \<noteq> i then Some (CatalogKeyMismatch i (m_ID m)) else check_catalog rest)"

fun check_policies ::
  "(policy \<Rightarrow> string list) \<Rightarrow> string list \<Rightarrow> model gomap \<Rightarrow> policy list \<Rightarrow> config_error option" where
  "check_policies ord tenants catalog [] = None"
| "check_policies ord tenants catalog (p # ps) =
     (if p_TenantID p \<notin> set tenants then Some (UnknownTenant (p_ID p) (p_TenantID p))
      else case policy_Validate (ord p) p catalog of
        Some e \<Rightarrow> Some (PolicyInvalid (p_ID p) e)
      | None \<Rightarrow> check_policies ord tenants catalog ps)"

definition config_Validate :: "(policy \<Rightarrow> string list) \<Rightarrow> config \<Rightarrow> config_error option" where
  "config_Validate ord c =
     (if cf_Tenants c = [] then Some NoTenants
      else if cf_Catalog c = [] then Some EmptyCatalog
      else case check_tenants [] (cf_Tenants c) of
        Inl e \<Rightarrow> Some e
      | Inr tenantIDs \<Rightarrow>
          (case check_catalog (cf_Catalog c) of
             Some e \<Rightarrow> Some e
           | None \<Rightarrow> check_policies ord tenantIDs (cf_Catalog c) (cf_Policies c)))"

subsection \<open>Load\<close>

definition load_provider :: "(string \<Rightarrow> string) \<Rightarrow> string \<Rightarrow> provider_config \<Rightarrow> provider_config" where
  "load_provider getenv i pv =
    (let pv1 = (if pv_ID pv = [] then pv\<lparr>pv_ID := i\<rparr> else pv);
         pv2 = (if pv_APIKeyEnv pv1 \<noteq> [] then pv1\<lparr>pv_APIKey := getenv (pv_APIKeyEnv pv1)\<rparr> else pv1);
         pv3 = (if pv_BaseURLEnv pv2 \<noteq> [] \<and> getenv (pv_BaseURLEnv pv2) \<noteq> []
                then pv2\<lparr>pv_BaseURL := getenv (pv_BaseURLEnv pv2)\<rparr> else pv2);
         pv4 = (if pv_TimeoutMS pv3 = 0 then pv3\<lparr>pv_TimeoutMS := 120000\<rparr> else pv3);
         pv5 = (if pv_CircuitFailures pv4 = 0 then pv4\<lparr>pv_CircuitFailures := 3\<rparr> else pv4)
     in if pv_CircuitOpenMS pv5 = 0 then pv5\<lparr>pv_CircuitOpenMS := 30000\<rparr> else pv5)"

definition load_tenant :: "(string \<Rightarrow> string) \<Rightarrow> tenant \<Rightarrow> tenant" where
  "load_tenant getenv t =
    (let t1 = (if tn_RouterAPIKeyEnv t \<noteq> [] then t\<lparr>tn_RouterAPIKey := getenv (tn_RouterAPIKeyEnv t)\<rparr> else t)
     in t1\<lparr>tn_Providers := map (\<lambda>(i, pv). (i, load_provider getenv i pv)) (tn_Providers t1)\<rparr>)"

definition load_defaults :: "(string \<Rightarrow> string) \<Rightarrow> config \<Rightarrow> config" where
  "load_defaults getenv c =
    (let c1 = (if cf_ListenAddress c = [] then c\<lparr>cf_ListenAddress := '':8080''\<rparr> else c);
         c2 = (if cf_DataDirectory c1 = [] then c1\<lparr>cf_DataDirectory := ''./data''\<rparr> else c1);
         c3 = (if cf_AdminKeyEnv c2 \<noteq> [] then c2\<lparr>cf_AdminKey := getenv (cf_AdminKeyEnv c2)\<rparr> else c2)
     in c3\<lparr>cf_Tenants := map (load_tenant getenv) (cf_Tenants c3)\<rparr>)"

definition Load ::
  "(string \<Rightarrow> string option) \<Rightarrow> (string \<Rightarrow> config option) \<Rightarrow> (string \<Rightarrow> string) \<Rightarrow>
   (policy \<Rightarrow> string list) \<Rightarrow> string \<Rightarrow> config_error + config" where
  "Load read_file unmarshal getenv ord path =
     (case read_file path of
        None \<Rightarrow> Inl ReadConfig
      | Some body \<Rightarrow>
          (case unmarshal body of
             None \<Rightarrow> Inl DecodeConfig
           | Some c \<Rightarrow>
               (let cfg = load_defaults getenv c
                in case config_Validate ord cfg of Some e \<Rightarrow> Inl e | None \<Rightarrow> Inr cfg)))"

subsection \<open>Authentication\<close>

definition bearer_token :: "string \<Rightarrow> string" where
  "bearer_token rawAuthorization = TrimSpace (TrimPrefix rawAuthorization ''Bearer '')"

fun find_tenant :: "string \<Rightarrow> tenant list \<Rightarrow> tenant option" where
  "find_tenant token [] = None"
| "find_tenant token (t # ts) =
     (if token \<noteq> [] \<and> token = tn_RouterAPIKey t then Some t else find_tenant token ts)"

definition Authenticate :: "config \<Rightarrow> string \<Rightarrow> tenant option" where
  "Authenticate c rawAuthorization = find_tenant (bearer_token rawAuthorization) (cf_Tenants c)"

definition AuthenticateAdmin :: "config \<Rightarrow> string \<Rightarrow> bool" where
  "AuthenticateAdmin c rawAuthorization =
     (if cf_AdminKey c = [] then False
      else (let token = bearer_token rawAuthorization in token \<noteq> [] \<and> token = cf_AdminKey c))"

subsection \<open>What a loaded configuration satisfies\<close>

definition valid_tenant :: "tenant \<Rightarrow> bool" where
  "valid_tenant t \<longleftrightarrow> tn_ID t \<noteq> [] \<and> tn_RouterAPIKey t \<noteq> [] \<and>
     (\<forall>pv\<in>snd ` set (tn_Providers t). TrimSpace (pv_BaseURL pv) \<noteq> [])"

definition valid_config :: "config \<Rightarrow> bool" where
  "valid_config c \<longleftrightarrow>
     cf_Tenants c \<noteq> [] \<and> cf_Catalog c \<noteq> [] \<and>
     distinct (map tn_ID (cf_Tenants c)) \<and> (\<forall>t\<in>set (cf_Tenants c). valid_tenant t) \<and>
     (\<forall>(i, m)\<in>set (cf_Catalog c). m_ID m = i) \<and>
     (\<forall>p\<in>set (cf_Policies c). p_TenantID p \<in> tn_ID ` set (cf_Tenants c) \<and>
        valid_policy p (cf_Catalog c))"

lemma check_providers_None:
  "check_providers tid pvs = None \<longleftrightarrow> (\<forall>pv\<in>snd ` set pvs. TrimSpace (pv_BaseURL pv) \<noteq> [])"
  by (induction tid pvs rule: check_providers.induct) auto

lemma check_tenants_Inr:
  "check_tenants seen ts = Inr ids \<longleftrightarrow>
     ids = rev (map tn_ID ts) @ seen \<and> distinct (map tn_ID ts) \<and>
     set (map tn_ID ts) \<inter> set seen = {} \<and> (\<forall>t\<in>set ts. valid_tenant t)"
proof (induction seen ts rule: check_tenants.induct)
  case (2 seen t ts)
  show ?case
  proof (cases "tn_ID t = [] \<or> tn_RouterAPIKey t = [] \<or> tn_ID t \<in> set seen \<or>
      check_providers (tn_ID t) (tn_Providers t) \<noteq> None")
    case True
    then have "\<not> valid_tenant t \<or> tn_ID t \<in> set seen"
      by (auto simp: valid_tenant_def check_providers_None simp del: not_None_eq)
    moreover have "\<exists>e. check_tenants seen (t # ts) = Inl e" using True by auto
    ultimately show ?thesis by auto
  next
    case False
    then have "valid_tenant t" by (simp add: valid_tenant_def check_providers_None)
    with 2 False show ?thesis by auto
  qed
qed auto

lemma check_catalog_None: "check_catalog catalog = None \<longleftrightarrow> (\<forall>(i, m)\<in>set catalog. m_ID m = i)"
  by (induction catalog rule: check_catalog.induct) auto

lemma check_policies_None:
  assumes "\<And>p. percent_order (ord p)"
  shows "check_policies ord tenants catalog ps = None \<longleftrightarrow>
    (\<forall>p\<in>set ps. p_TenantID p \<in> set tenants \<and> valid_policy p catalog)"
proof (induction ps)
  case (Cons p ps)
  then show ?case
    using policy_Validate_None [OF assms, of p p catalog]
    by (cases "policy_Validate (ord p) p catalog") auto
qed simp

lemma config_Validate_None:
  assumes "\<And>p. percent_order (ord p)"
  shows "config_Validate ord c = None \<longleftrightarrow> valid_config c"
proof (cases "check_tenants [] (cf_Tenants c)")
  case (Inl e)
  then have "\<not> valid_config c"
    using check_tenants_Inr [of "[]" "cf_Tenants c"] by (auto simp: valid_config_def)
  with Inl show ?thesis by (simp add: config_Validate_def)
next
  case (Inr ids)
  have r: "set ids = tn_ID ` set (cf_Tenants c)" "distinct (map tn_ID (cf_Tenants c))"
    "\<forall>t\<in>set (cf_Tenants c). valid_tenant t"
    using Inr unfolding check_tenants_Inr by simp_all
  have "config_Validate ord c = None \<longleftrightarrow> cf_Tenants c \<noteq> [] \<and> cf_Catalog c \<noteq> [] \<and>
      check_catalog (cf_Catalog c) = None \<and>
      check_policies ord ids (cf_Catalog c) (cf_Policies c) = None"
    by (simp add: config_Validate_def Inr guard_chain del: not_None_eq split: option.splits)
  then show ?thesis
    by (simp add: valid_config_def r check_catalog_None check_policies_None [OF assms])
qed

text \<open>C36: A configuration passes validation exactly when it is well formed: some tenant and some model,
  tenants with distinct ids, a key and reachable providers, a catalog keyed by model id, and
  every policy valid against that catalog and owned by a configured tenant.\<close>

theorem config_Validate_iff:
  assumes "\<And>p. percent_order (ord p)"
  shows "config_Validate ord c = None \<longleftrightarrow> valid_config c"
  using assms by (rule config_Validate_None)

lemma load_provider_defaults:
  "pv_TimeoutMS (load_provider getenv i pv) \<noteq> 0" "pv_CircuitFailures (load_provider getenv i pv) \<noteq> 0"
  "pv_CircuitOpenMS (load_provider getenv i pv) \<noteq> 0"
  "pv_ID (load_provider getenv i pv) = (if pv_ID pv = [] then i else pv_ID pv)"
  by (simp_all add: load_provider_def Let_def)

lemma load_providers: "tn_Providers (load_tenant getenv t) =
    map (\<lambda>(i, pv). (i, load_provider getenv i pv)) (tn_Providers t)"
  by (simp add: load_tenant_def Let_def)

lemma load_defaults_tenants: "cf_Tenants (load_defaults getenv c) = map (load_tenant getenv) (cf_Tenants c)"
  by (simp add: load_defaults_def Let_def)

text \<open>The configuration a successful \<^verbatim>\<open>Load\<close> returns.\<close>

definition ready_config :: "config \<Rightarrow> bool" where
  "ready_config c \<longleftrightarrow> valid_config c \<and> cf_ListenAddress c \<noteq> [] \<and> cf_DataDirectory c \<noteq> [] \<and>
     (\<forall>t\<in>set (cf_Tenants c). \<forall>(i, pv)\<in>set (tn_Providers t).
        (i \<noteq> [] \<longrightarrow> pv_ID pv \<noteq> []) \<and> pv_TimeoutMS pv \<noteq> 0 \<and> pv_CircuitFailures pv \<noteq> 0 \<and>
        pv_CircuitOpenMS pv \<noteq> 0)"

lemma load_ready:
  assumes "Load read_file unmarshal getenv ord path = Inr c" and "\<And>p. percent_order (ord p)"
  shows "ready_config c"
proof -
  from assms(1) obtain c0 where c: "c = load_defaults getenv c0" and v: "config_Validate ord c = None"
    by (auto simp: Load_def Let_def split: option.splits)
  have "cf_ListenAddress c \<noteq> []" "cf_DataDirectory c \<noteq> []"
    unfolding c by (simp_all add: load_defaults_def Let_def)
  moreover have "(i \<noteq> [] \<longrightarrow> pv_ID pv \<noteq> []) \<and> pv_TimeoutMS pv \<noteq> 0 \<and> pv_CircuitFailures pv \<noteq> 0 \<and>
      pv_CircuitOpenMS pv \<noteq> 0"
    if "t \<in> set (cf_Tenants c)" "(i, pv) \<in> set (tn_Providers t)" for t i pv
    using that unfolding c by (auto simp: load_defaults_tenants load_providers load_provider_defaults
      split: if_splits)
  ultimately show ?thesis
    using v config_Validate_None [OF assms(2)] by (fastforce simp: ready_config_def)
qed

text \<open>Whatever the file and the environment hold, a configuration that loads is valid, and every
  provider in it has an id, a timeout and circuit-breaker parameters.\<close>

theorem Load_ready:
  assumes "Load read_file unmarshal getenv ord path = Inr c" and "\<And>p. percent_order (ord p)"
  shows "ready_config c"
  using assms by (rule load_ready)

subsection \<open>Who is authenticated\<close>

lemma find_tenant_Some:
  "find_tenant token ts = Some t \<longleftrightarrow> (\<exists>us vs. ts = us @ t # vs \<and> token \<noteq> [] \<and>
     tn_RouterAPIKey t = token \<and> (\<forall>u\<in>set us. tn_RouterAPIKey u \<noteq> token))"
  (is "_ \<longleftrightarrow> ?split ts")
proof (induction ts)
  case (Cons u ts)
  have "?split (u # ts) \<longleftrightarrow> (u = t \<and> token \<noteq> [] \<and> tn_RouterAPIKey t = token) \<or>
      (tn_RouterAPIKey u \<noteq> token \<and> ?split ts)" (is "?l \<longleftrightarrow> ?r")
  proof
    assume ?l
    then obtain us vs where "u # ts = us @ t # vs" "token \<noteq> []" "tn_RouterAPIKey t = token"
      "\<forall>u\<in>set us. tn_RouterAPIKey u \<noteq> token" by blast
    then show ?r by (cases us) auto
  next
    assume ?r
    then show ?l
    proof
      assume "u = t \<and> token \<noteq> [] \<and> tn_RouterAPIKey t = token"
      then show ?l by (intro exI [of _ "[]"] exI [of _ ts]) simp
    next
      assume "tn_RouterAPIKey u \<noteq> token \<and> ?split ts"
      then obtain us vs where "ts = us @ t # vs" "token \<noteq> []" "tn_RouterAPIKey t = token"
        "\<forall>w\<in>set (u # us). tn_RouterAPIKey w \<noteq> token" by auto
      then show ?l by (intro exI [of _ "u # us"] exI [of _ vs]) simp
    qed
  qed
  with Cons.IH show ?case by auto
qed simp

lemma find_tenant_first:
  assumes "token \<noteq> []" and "tn_RouterAPIKey u = token"
  shows "\<exists>v\<in>set (us @ [u]). find_tenant token (us @ u # vs) = Some v"
  using assms by (induction us) auto

lemma find_tenant_key: "find_tenant token ts = Some t \<Longrightarrow> token \<noteq> [] \<and> tn_RouterAPIKey t = token"
  by (induction ts) (auto split: if_splits)

lemma bearer_token_trimmed: "TrimSpace (bearer_token raw) = bearer_token raw"
  by (simp add: bearer_token_def)

text \<open>A request is served for the first configured tenant whose key is the bearer token with the
  surrounding white space removed; an empty token authenticates nobody.\<close>

theorem Authenticate_iff:
  "Authenticate c raw = Some t \<longleftrightarrow> (\<exists>us vs. cf_Tenants c = us @ t # vs \<and> bearer_token raw \<noteq> [] \<and>
     tn_RouterAPIKey t = bearer_token raw \<and> bearer_token raw \<notin> tn_RouterAPIKey ` set us)"
proof -
  have "(\<forall>u\<in>set us. tn_RouterAPIKey u \<noteq> k) \<longleftrightarrow> k \<notin> tn_RouterAPIKey ` set us" for us :: "tenant list" and k by auto
  then show ?thesis by (simp add: Authenticate_def find_tenant_Some)
qed

text \<open>Validation compares the ids of the tenants but not their keys: a tenant configured after another
  one with the same key can never be authenticated.\<close>

theorem duplicate_key_locked_out:
  assumes "valid_config c" and "cf_Tenants c = us @ u # vs" and "t \<in> set vs"
    and "tn_RouterAPIKey t = tn_RouterAPIKey u"
  shows "Authenticate c raw \<noteq> Some t"
proof
  assume a: "Authenticate c raw = Some t"
  then have "bearer_token raw \<noteq> []" "tn_RouterAPIKey u = bearer_token raw"
    using assms(4) find_tenant_key by (fastforce simp: Authenticate_def)+
  then have "t \<in> set (us @ [u])"
    using find_tenant_first [of "bearer_token raw" u us vs] a by (auto simp: Authenticate_def assms(2))
  moreover have "distinct (us @ u # vs)"
    using assms(1) unfolding valid_config_def assms(2) distinct_map by blast
  ultimately show False using assms(3) by auto
qed

text \<open>A key with surrounding white space (as an environment variable with a trailing newline gives)
  is accepted by \<^verbatim>\<open>Load\<close> but matches no request, because only the token is trimmed; it locks out
  the administrator and the tenant.\<close>

theorem untrimmed_key_locked_out:
  "(TrimSpace (cf_AdminKey c) \<noteq> cf_AdminKey c \<longrightarrow> \<not> AuthenticateAdmin c raw) \<and>
   (TrimSpace (tn_RouterAPIKey t) \<noteq> tn_RouterAPIKey t \<longrightarrow> Authenticate c raw \<noteq> Some t)"
  using bearer_token_trimmed [of raw] find_tenant_key [of "bearer_token raw" "cf_Tenants c" t]
  by (auto simp: AuthenticateAdmin_def Authenticate_def Let_def)

subsection \<open>A sample configuration\<close>

definition sample_provider :: provider_config where
  "sample_provider = \<lparr>pv_ID = ''p'', pv_BaseURL = ''http://provider'', pv_BaseURLEnv = [],
     pv_APIKeyEnv = ''PROVIDER_KEY'', pv_APIKey = [], pv_Headers = [], pv_TimeoutMS = 0, pv_MaxRetries = 0,
     pv_CircuitFailures = 0, pv_CircuitOpenMS = 0\<rparr>"

definition sample_tenant :: tenant where
  "sample_tenant = \<lparr>tn_ID = ''tenant'', tn_RouterAPIKeyEnv = [], tn_RouterAPIKey = ''key'',
     tn_DefaultPolicyID = ''policy'', tn_Providers = [(''p'', sample_provider)]\<rparr>"

definition sample_config :: config where
  "sample_config = \<lparr>cf_ListenAddress = [], cf_DataDirectory = [], cf_AdminKeyEnv = ''ADMIN_KEY'',
     cf_AdminKey = [], cf_Catalog = sample_catalog, cf_Policies = [sample_policy],
     cf_Tenants = [sample_tenant, sample_tenant\<lparr>tn_ID := ''second''\<rparr>]\<rparr>"

definition sample_getenv :: "string \<Rightarrow> string" where
  "sample_getenv name = (if name = ''ADMIN_KEY'' then ''admin'' @ [CHR 0x0A] else if name = ''PROVIDER_KEY''
     then ''sk-1'' else [])"

definition sample_order :: "policy \<Rightarrow> string list" where
  "sample_order p = [''control_percent'', ''canary_percent'', ''exploration_percent'']"

lemma sample_order_ok: "percent_order (sample_order p)"
  by (simp add: percent_order_def sample_order_def percent_fields_def)

lemma sample_url: "TrimSpace ''http://provider'' = ''http://provider''"
  by code_simp

lemma sample_config_valid: "valid_config (load_defaults sample_getenv sample_config)"
  by (simp add: valid_config_def valid_tenant_def load_defaults_def load_tenant_def load_provider_def
      Let_def sample_config_def sample_tenant_def sample_provider_def sample_policy_valid sample_getenv_def
      sample_url) (simp add: sample_catalog_def sample_model_defs sample_policy_def)

lemma sample_load:
  "Load (\<lambda>_. Some body) (\<lambda>_. Some sample_config) sample_getenv sample_order path =
     Inr (load_defaults sample_getenv sample_config)"
proof -
  have "config_Validate sample_order (load_defaults sample_getenv sample_config) = None"
    using config_Validate_None [of sample_order, OF sample_order_ok] sample_config_valid by simp
  then show ?thesis by (simp add: Load_def Let_def)
qed

lemma sample_config_ready: "ready_config (load_defaults sample_getenv sample_config)"
  by (rule load_ready [OF sample_load sample_order_ok])

theorem config_Validate_iff_witness: "config_Validate sample_order sample_config = None"
proof -
  have "valid_config sample_config"
    by (simp add: valid_config_def valid_tenant_def sample_config_def sample_tenant_def sample_provider_def
      sample_policy_valid sample_url) (simp add: sample_catalog_def sample_model_defs sample_policy_def)
  then show ?thesis using config_Validate_iff [of sample_order, OF sample_order_ok] by simp
qed

theorem Load_ready_witness:
  "ready_config (load_defaults sample_getenv sample_config) \<and>
   cf_ListenAddress (load_defaults sample_getenv sample_config) = '':8080''"
  using Load_ready [OF sample_load sample_order_ok] by (simp add: load_defaults_def sample_config_def)

theorem duplicate_key_locked_out_witness:
  "Authenticate sample_config ''Bearer key'' \<noteq> Some (sample_tenant\<lparr>tn_ID := ''second''\<rparr>)"
proof -
  have "valid_config sample_config"
    by (simp add: valid_config_def valid_tenant_def sample_config_def sample_tenant_def sample_provider_def
      sample_policy_valid sample_url) (simp add: sample_catalog_def sample_model_defs sample_policy_def)
  from duplicate_key_locked_out [OF this, of "[]" sample_tenant "[sample_tenant\<lparr>tn_ID := ''second''\<rparr>]"]
  show ?thesis by (simp add: sample_config_def sample_tenant_def)
qed

lemma sample_admin_key: "TrimSpace (''admin'' @ [CHR 0x0A]) \<noteq> ''admin'' @ [CHR 0x0A]"
  by code_simp

theorem untrimmed_key_locked_out_witness:
  "ready_config (load_defaults sample_getenv sample_config) \<and>
   \<not> AuthenticateAdmin (load_defaults sample_getenv sample_config) ''Bearer admin''"
proof -
  have "cf_AdminKey (load_defaults sample_getenv sample_config) = ''admin'' @ [CHR 0x0A]"
    by (simp add: load_defaults_def sample_config_def sample_getenv_def)
  with untrimmed_key_locked_out sample_admin_key
  have "\<not> AuthenticateAdmin (load_defaults sample_getenv sample_config) ''Bearer admin''" by metis
  moreover have "ready_config (load_defaults sample_getenv sample_config)"
    by (rule sample_config_ready)
  ultimately show ?thesis by blast
qed

end
