(* ===== verification/Provider.thy ===== *)
theory Provider
  imports Config
begin

text \<open>
  The provider client (\<^verbatim>\<open>internal/provider/client.go\<close>): the circuit breaker per provider id, the
  upstream request it builds, and \<^verbatim>\<open>Client.Do\<close>. The network (\<^verbatim>\<open>http.Client.Do\<close>) and the parsing
  of the target URL are arguments, and the readings of the clock are explicit.
\<close>

subsection \<open>The circuit breaker\<close>

record circuit =
  ci_failures :: int64
  ci_openUntil :: time

type_synonym circuits = "circuit gomap"

definition zero_circuit :: circuit where
  "zero_circuit = \<lparr>ci_failures = 0, ci_openUntil = 0\<rparr>"

definition NewClient_circuits :: circuits where
  "NewClient_circuits = []"

text \<open>The answer and the circuits afterwards: an expired circuit is reset in place.\<close>

definition Available :: "time \<Rightarrow> circuits \<Rightarrow> string \<Rightarrow> bool \<times> circuits" where
  "Available now cs providerID =
     (case map_of cs providerID of
        None \<Rightarrow> (True, cs)
      | Some state \<Rightarrow>
          (let state' = (if ci_openUntil state \<noteq> 0 \<and> ci_openUntil state < now
                         then state\<lparr>ci_openUntil := 0, ci_failures := 0\<rparr> else state)
           in (ci_openUntil state' = 0, AList.update providerID state' cs)))"

definition circuit_limit :: "provider_config \<Rightarrow> int64" where
  "circuit_limit pv = (if pv_CircuitFailures pv \<le> 0 then 3 else pv_CircuitFailures pv)"

text \<open>\<^verbatim>\<open>time.Duration(ms) * time.Millisecond\<close>, a product of 64-bit integers.\<close>

definition circuit_duration :: "provider_config \<Rightarrow> int64" where
  "circuit_duration pv =
    (let duration = wrap64 (pv_CircuitOpenMS pv * 1000000)
     in if duration \<le> 0 then 30000000000 else duration)"

definition recordFailure :: "time \<Rightarrow> provider_config \<Rightarrow> circuits \<Rightarrow> circuits" where
  "recordFailure now pv cs =
    (let state = lookup_zero zero_circuit cs (pv_ID pv);
         state1 = state\<lparr>ci_failures := wrap64 (ci_failures state + 1)\<rparr>;
         state2 = (if circuit_limit pv \<le> ci_failures state1
                   then state1\<lparr>ci_openUntil := now + circuit_duration pv\<rparr> else state1)
     in AList.update (pv_ID pv) state2 cs)"

definition recordSuccess :: "string \<Rightarrow> circuits \<Rightarrow> circuits" where
  "recordSuccess providerID cs = AList.delete providerID cs"

subsection \<open>Errors and retries\<close>

record upstream_error =
  ue_StatusCode :: int64
  ue_Body :: string
  ue_ModelID :: string
  ue_ProviderID :: string

text \<open>\<open>ReadFailed\<close> is the joined error of an unreadable error body and its upstream error.\<close>

datatype do_error =
    CircuitIsOpen string
  | InvalidRequest
  | TransportFailed
  | Upstream upstream_error
  | ReadFailed upstream_error

definition retryableStatus :: "int64 \<Rightarrow> bool" where
  "retryableStatus status \<longleftrightarrow> status = 408 \<or> status = 409 \<or> status = 429 \<or> 500 \<le> status"

text \<open>\<^verbatim>\<open>errors.As\<close> with an \<^verbatim>\<open>*UpstreamError\<close>, also through a joined error.\<close>

fun as_upstream :: "do_error \<Rightarrow> upstream_error option" where
  "as_upstream (Upstream u) = Some u"
| "as_upstream (ReadFailed u) = Some u"
| "as_upstream _ = None"

definition Retryable :: "do_error \<Rightarrow> bool" where
  "Retryable err = (case as_upstream err of Some upstream \<Rightarrow> retryableStatus (ue_StatusCode upstream)
                                         | None \<Rightarrow> True)"

definition UpstreamError_Error :: "upstream_error \<Rightarrow> string" where
  "UpstreamError_Error u = ''upstream '' @ ue_ProviderID u @ ''/'' @ ue_ModelID u @
     '' returned status '' @ decimal_int (ue_StatusCode u)"

subsection \<open>Request headers\<close>

text \<open>
  An \<^verbatim>\<open>http.Header\<close> with one value per key. Keys are canonical: the first letter and every letter
  after a hyphen in upper case, the others in lower case; a key with a byte that is not allowed in
  a header name is left as it is.
\<close>

definition upper_char :: "char \<Rightarrow> char" where
  "upper_char c = (let n = (of_char c :: nat) in if 97 \<le> n \<and> n \<le> 122 then char_of (n - 32) else c)"

definition header_char :: "char \<Rightarrow> bool" where
  "header_char c = (let n = (of_char c :: nat) in
     (48 \<le> n \<and> n \<le> 57) \<or> (65 \<le> n \<and> n \<le> 90) \<or> (97 \<le> n \<and> n \<le> 122) \<or> c \<in> set ''!#$%&*+-.^_`|~'' \<or> n = 39)"

fun capitalize :: "bool \<Rightarrow> string \<Rightarrow> string" where
  "capitalize up [] = []"
| "capitalize up (c # cs) = (if up then upper_char c else fold_char c) # capitalize (c = CHR ''-'') cs"

definition canonical_key :: "string \<Rightarrow> string" where
  "canonical_key k = (if list_all header_char k then capitalize True k else k)"

type_synonym header = "string gomap"

definition Header_Get :: "header \<Rightarrow> string \<Rightarrow> string" where
  "Header_Get h k = lookup_zero [] h (canonical_key k)"

definition Header_Set :: "header \<Rightarrow> string \<Rightarrow> string \<Rightarrow> header" where
  "Header_Set h k v = AList.update (canonical_key k) v h"

definition do_headers :: "provider_config \<Rightarrow> header \<Rightarrow> header" where
  "do_headers pv requestHeaders =
    (let h1 = Header_Set [] ''Content-Type'' ''application/json'';
         h2 = Header_Set h1 ''Accept'' (Header_Get requestHeaders ''Accept'');
         h3 = (if Header_Get h2 ''Accept'' = []
               then Header_Set h2 ''Accept'' ''application/json, text/event-stream'' else h2);
         h4 = (if pv_APIKey pv \<noteq> [] then Header_Set h3 ''Authorization'' (''Bearer '' @ pv_APIKey pv) else h3);
         h5 = foldl (\<lambda>h (k, v). Header_Set h k v) h4 (pv_Headers pv)
     in foldl (\<lambda>h name. let v = Header_Get requestHeaders name in if v \<noteq> [] then Header_Set h name v else h)
          h5 [''OpenAI-Organization'', ''OpenAI-Project'', ''User-Agent''])"

subsection \<open>Client.Do\<close>

record upstream_request =
  ur_URL :: string
  ur_Header :: header
  ur_Body :: string
  ur_TimeoutNS :: int64

text \<open>
  What \<^verbatim>\<open>http.Client.Do\<close> yields; \<open>rs_Body\<close> is \<open>None\<close> where reading the body fails.
\<close>

record upstream_response =
  rs_StatusCode :: int64
  rs_Header :: header
  rs_Body :: "string option"

type_synonym transport = "upstream_request \<Rightarrow> upstream_response option"

definition do_timeout :: "provider_config \<Rightarrow> int64" where
  "do_timeout pv = (let timeout = wrap64 (pv_TimeoutMS pv * 1000000)
                    in if timeout \<le> 0 then 120000000000 else timeout)"

text \<open>\<open>now\<close> is the clock at the availability check, \<open>later\<close> when a failure is recorded.\<close>

definition Do ::
  "time \<Rightarrow> time \<Rightarrow> (string \<Rightarrow> bool) \<Rightarrow> transport \<Rightarrow> circuits \<Rightarrow> provider_config \<Rightarrow> model \<Rightarrow> string \<Rightarrow> header \<Rightarrow>
   (do_error + upstream_response) \<times> circuits" where
  "Do now later url_ok send cs pv m body requestHeaders =
    (let (available, cs1) = Available now cs (pv_ID pv)
     in if \<not> available then (Inl (CircuitIsOpen (pv_ID pv)), cs1)
        else if \<not> url_ok (pv_BaseURL pv) then (Inl InvalidRequest, cs1)
        else case send \<lparr>ur_URL = pv_BaseURL pv, ur_Header = do_headers pv requestHeaders, ur_Body = body,
                        ur_TimeoutNS = do_timeout pv\<rparr> of
          None \<Rightarrow> (Inl TransportFailed, recordFailure later pv cs1)
        | Some response \<Rightarrow>
            if 200 \<le> rs_StatusCode response \<and> rs_StatusCode response < 300
            then (Inr response, recordSuccess (pv_ID pv) cs1)
            else (let cs2 = (if retryableStatus (rs_StatusCode response) then recordFailure later pv cs1 else cs1);
                      err = \<lparr>ue_StatusCode = rs_StatusCode response, ue_Body = [], ue_ModelID = m_ID m,
                             ue_ProviderID = pv_ID pv\<rparr>
                  in case rs_Body response of
                       None \<Rightarrow> (Inl (ReadFailed err), cs2)
                     | Some errorBody \<Rightarrow>
                         (Inl (Upstream (err\<lparr>ue_Body := take (2 ^ 20) errorBody\<rparr>)), cs2)))"

subsection \<open>How a circuit opens, blocks and closes\<close>

lemma fst_Available:
  "fst (Available now cs i) \<longleftrightarrow>
     (case map_of cs i of None \<Rightarrow> True | Some c \<Rightarrow> ci_openUntil c = 0 \<or> ci_openUntil c < now)"
  by (auto simp: Available_def Let_def split: option.splits)

lemma map_of_Available:
  "map_of (snd (Available now cs i)) j =
     (if i = j then map_option (\<lambda>c. if ci_openUntil c \<noteq> 0 \<and> ci_openUntil c < now then zero_circuit else c)
        (map_of cs i) else map_of cs j)"
  by (auto simp: Available_def Let_def map_of_AList_update zero_circuit_def split: option.splits)

lemma map_of_recordFailure:
  "map_of (recordFailure now pv cs) j =
     (if pv_ID pv = j
      then Some (let f = wrap64 (ci_failures (lookup_zero zero_circuit cs j) + 1) in
        \<lparr>ci_failures = f, ci_openUntil = (if circuit_limit pv \<le> f then now + circuit_duration pv
           else ci_openUntil (lookup_zero zero_circuit cs j))\<rparr>)
      else map_of cs j)"
  by (auto simp: recordFailure_def Let_def map_of_AList_update)

lemma map_of_recordSuccess: "map_of (recordSuccess i cs) j = (if i = j then None else map_of cs j)"
  by (simp add: recordSuccess_def map_of_AList_delete)

lemma circuit_limit_pos: "0 < circuit_limit pv"
  by (simp add: circuit_limit_def)

lemma circuit_duration_pos: "0 < circuit_duration pv"
  by (simp add: circuit_duration_def Let_def)

lemmas breaker_simps = fst_Available map_of_Available map_of_recordFailure map_of_recordSuccess

text \<open>A run of failures of one provider.\<close>

definition fail_at :: "provider_config \<Rightarrow> time list \<Rightarrow> circuits \<Rightarrow> circuits" where
  "fail_at pv ts cs = foldl (\<lambda>cs now. recordFailure now pv cs) cs ts"

lemma fail_at_snoc: "fail_at pv (ts @ [t]) cs = recordFailure t pv (fail_at pv ts cs)"
  by (simp add: fail_at_def)

lemma fail_at_below:
  assumes "int (length ts) < circuit_limit pv" and "is_int64 (circuit_limit pv)"
    and "map_of cs (pv_ID pv) = None" and "ts \<noteq> []"
  shows "map_of (fail_at pv ts cs) (pv_ID pv) =
    Some \<lparr>ci_failures = int (length ts), ci_openUntil = 0\<rparr>"
  using assms
proof (induction ts rule: rev_induct)
  case (snoc t ts)
  have w: "wrap64 (int (length ts) + 1) = int (length ts) + 1"
    using snoc.prems(1,2) by (intro wrap64_id) (simp add: is_int64_def)
  show ?case
  proof (cases "ts = []")
    case True
    then show ?thesis
      using snoc.prems w by (simp add: fail_at_def map_of_recordFailure zero_circuit_def)
  next
    case False
    then show ?thesis
      using snoc w by (simp add: fail_at_snoc map_of_recordFailure Let_def)
  qed
qed simp

lemma fail_at_opens:
  assumes "int (length ts) = circuit_limit pv - 1" and "is_int64 (circuit_limit pv)"
    and "map_of cs (pv_ID pv) = None"
  shows "map_of (fail_at pv (ts @ [t]) cs) (pv_ID pv) =
    Some \<lparr>ci_failures = circuit_limit pv, ci_openUntil = t + circuit_duration pv\<rparr>"
proof -
  have "lookup_zero zero_circuit (fail_at pv ts cs) (pv_ID pv) =
      \<lparr>ci_failures = int (length ts), ci_openUntil = 0\<rparr>"
  proof (cases "ts = []")
    case True
    then show ?thesis using assms(3) by (simp add: fail_at_def zero_circuit_def)
  next
    case False
    then show ?thesis using fail_at_below [of ts pv cs] assms by simp
  qed
  then show ?thesis
    using assms wrap64_id [OF assms(2)] by (simp add: fail_at_snoc map_of_recordFailure Let_def)
qed

text \<open>C34: A provider whose last call succeeded stays available through fewer consecutive failures than
  its limit; the failure that reaches the limit blocks it for exactly the open interval, and the
  first check after that interval lets it through again with a clean count.\<close>

theorem breaker_life_cycle:
  assumes "int (length ts) = circuit_limit pv - 1" and "is_int64 (circuit_limit pv)"
    and "map_of cs (pv_ID pv) = None" and "0 \<le> t"
  shows "fst (Available now (fail_at pv (take k ts) cs) (pv_ID pv)) \<and>
    (fst (Available now (fail_at pv (ts @ [t]) cs) (pv_ID pv)) \<longleftrightarrow> t + circuit_duration pv < now) \<and>
    (t + circuit_duration pv < now \<longrightarrow>
       map_of (snd (Available now (fail_at pv (ts @ [t]) cs) (pv_ID pv))) (pv_ID pv) = Some zero_circuit)"
proof -
  have "int (length (take k ts)) < circuit_limit pv" using assms(1) by simp
  then have below: "fst (Available now (fail_at pv (take k ts) cs) (pv_ID pv))"
    using fail_at_below [of "take k ts" pv cs] assms(2,3)
    by (cases "take k ts = []") (auto simp: fst_Available fail_at_def)
  have "0 < t + circuit_duration pv" using circuit_duration_pos [of pv] assms(4) by linarith
  then show ?thesis
    using below fail_at_opens [OF assms(1-3), of t] by (simp add: breaker_simps)
qed

definition sample_upstream :: provider_config where
  "sample_upstream = sample_provider\<lparr>pv_CircuitFailures := 2, pv_CircuitOpenMS := 1000,
     pv_APIKey := ''sk-1''\<rparr>"

lemma sample_upstream_circuit: "circuit_limit sample_upstream = 2" "pv_ID sample_upstream = ''p''"
  "circuit_duration sample_upstream = 1000000000"
  by (simp_all add: circuit_limit_def circuit_duration_def sample_upstream_def sample_provider_def
      wrap64_id is_int64_def)

theorem breaker_life_cycle_witness:
  "fst (Available 9 (fail_at sample_upstream [3] []) ''p'') \<and>
   \<not> fst (Available 1000000004 (fail_at sample_upstream [3, 4] []) ''p'') \<and>
   fst (Available 1000000005 (fail_at sample_upstream [3, 4] []) ''p'')"
  using breaker_life_cycle [of "[3]" sample_upstream "[]" 4 9 1]
    breaker_life_cycle [of "[3]" sample_upstream "[]" 4 1000000004 0]
    breaker_life_cycle [of "[3]" sample_upstream "[]" 4 1000000005 0]
  by (simp add: sample_upstream_circuit is_int64_def)

subsection \<open>The breaker as a state machine\<close>

text \<open>
  Calls of several handlers interleave; each event holds the client's mutex for its whole body.
  \<open>cfg\<close> is the set of provider configurations in use.
\<close>

datatype breaker_event = Check string | Failure provider_config | Success string

inductive breaker_step ::
  "provider_config set \<Rightarrow> circuits \<times> time \<Rightarrow> breaker_event \<Rightarrow> circuits \<times> time \<Rightarrow> bool" for cfg where
  check: "now \<le> t \<Longrightarrow> breaker_step cfg (cs, now) (Check i) (snd (Available t cs i), t)"
| failure: "now \<le> t \<Longrightarrow> pv \<in> cfg \<Longrightarrow> breaker_step cfg (cs, now) (Failure pv) (recordFailure t pv cs, t)"
| success: "now \<le> t \<Longrightarrow> breaker_step cfg (cs, now) (Success i) (recordSuccess i cs, t)"

inductive breaker_reach :: "provider_config set \<Rightarrow> circuits \<times> time \<Rightarrow> bool" for cfg where
  init: "0 \<le> t \<Longrightarrow> breaker_reach cfg (NewClient_circuits, t)"
| step: "breaker_reach cfg s \<Longrightarrow> breaker_step cfg s ev s' \<Longrightarrow> breaker_reach cfg s'"

inductive_cases breaker_stepE: "breaker_step cfg (cs, now) ev s'"

text \<open>A closed circuit has fewer failures than some configuration of its provider tolerates, and an
  open one expires within the longest open interval of its provider.\<close>

definition circuit_ok :: "provider_config set \<Rightarrow> time \<Rightarrow> string \<Rightarrow> circuit \<Rightarrow> bool" where
  "circuit_ok cfg now i c \<longleftrightarrow>
     (\<exists>pv\<in>cfg. pv_ID pv = i \<and> (if ci_openUntil c = 0 then ci_failures c < circuit_limit pv
        else ci_openUntil c \<le> now + circuit_duration pv))"

definition breaker_inv :: "provider_config set \<Rightarrow> circuits \<times> time \<Rightarrow> bool" where
  "breaker_inv cfg s \<longleftrightarrow> wf_gomap (fst s) \<and> 0 \<le> snd s \<and>
     (\<forall>i c. map_of (fst s) i = Some c \<longrightarrow> circuit_ok cfg (snd s) i c)"

lemma circuit_ok_later: "circuit_ok cfg now i c \<Longrightarrow> now \<le> t \<Longrightarrow> circuit_ok cfg t i c"
  unfolding circuit_ok_def by (auto split: if_splits intro: order_trans)

lemma circuit_ok_reset: "circuit_ok cfg now i c \<Longrightarrow> circuit_ok cfg t i zero_circuit"
  using circuit_limit_pos by (auto simp: circuit_ok_def zero_circuit_def)

lemma breaker_inv_check:
  assumes "breaker_inv cfg (cs, now)" and "now \<le> t"
  shows "breaker_inv cfg (snd (Available t cs i), t)"
proof -
  have "wf_gomap (snd (Available t cs i))"
    using assms(1) by (auto simp: breaker_inv_def Available_def Let_def split: option.splits)
  moreover have "circuit_ok cfg t j c" if "map_of (snd (Available t cs i)) j = Some c" for j c
    using that assms by (auto simp: breaker_inv_def map_of_Available split: if_splits
        intro: circuit_ok_later circuit_ok_reset)
  ultimately show ?thesis using assms by (simp add: breaker_inv_def)
qed

lemma breaker_inv_failure:
  assumes "breaker_inv cfg (cs, now)" and "now \<le> t" and "pv \<in> cfg"
  shows "breaker_inv cfg (recordFailure t pv cs, t)"
proof -
  have t: "0 \<le> t" and ok: "\<And>i c. map_of cs i = Some c \<Longrightarrow> circuit_ok cfg t i c"
    using assms by (auto simp: breaker_inv_def intro: circuit_ok_later)
  let ?old = "lookup_zero zero_circuit cs (pv_ID pv)"
  have old: "ci_openUntil ?old \<noteq> 0 \<Longrightarrow> circuit_ok cfg t (pv_ID pv) ?old"
    using ok [of "pv_ID pv"] by (cases "map_of cs (pv_ID pv)") (auto simp: zero_circuit_def)
  have new: "circuit_ok cfg t (pv_ID pv) \<lparr>ci_failures = f, ci_openUntil =
      (if circuit_limit pv \<le> f then t + circuit_duration pv else ci_openUntil ?old)\<rparr>" for f
    using assms(3) t old circuit_duration_pos [of pv]
    by (cases "circuit_limit pv \<le> f"; cases "ci_openUntil ?old = 0") (auto simp: circuit_ok_def)
  have "circuit_ok cfg t j c" if "map_of (recordFailure t pv cs) j = Some c" for j c
  proof (cases "pv_ID pv = j")
    case True
    let ?f = "wrap64 (ci_failures ?old + 1)"
    have "c = \<lparr>ci_failures = ?f, ci_openUntil =
        (if circuit_limit pv \<le> ?f then t + circuit_duration pv else ci_openUntil ?old)\<rparr>"
      using that True by (auto simp: map_of_recordFailure Let_def split del: if_split cong: if_cong)
    then show ?thesis using new [of ?f] True by (simp only:)
  next
    case False
    then show ?thesis using that ok by (simp add: map_of_recordFailure)
  qed
  moreover have "wf_gomap (recordFailure t pv cs)"
    using assms(1) by (simp add: breaker_inv_def recordFailure_def Let_def)
  ultimately show ?thesis using t by (simp add: breaker_inv_def)
qed

lemma breaker_inv_success:
  assumes "breaker_inv cfg (cs, now)" and "now \<le> t"
  shows "breaker_inv cfg (recordSuccess i cs, t)"
  using assms by (auto simp: breaker_inv_def map_of_recordSuccess recordSuccess_def
      map_of_AList_delete intro: circuit_ok_later split: if_splits)

lemma breaker_reach_inv: "breaker_reach cfg s \<Longrightarrow> breaker_inv cfg s"
proof (induction rule: breaker_reach.induct)
  case (init t)
  then show ?case by (simp add: breaker_inv_def NewClient_circuits_def)
next
  case (step s ev s')
  obtain cs now where s: "s = (cs, now)" by (cases s)
  from step.hyps(2) step.IH show ?case
    unfolding s by (auto elim!: breaker_stepE intro: breaker_inv_check breaker_inv_failure breaker_inv_success)
qed

text \<open>In every state the interleaved checks, failures and successes of all handlers can reach, the
  circuit table has one entry per provider, a closed circuit is below a failure limit and an open
  one is due to expire within an open interval of its provider.\<close>

theorem breaker_invariant:
  assumes "breaker_reach cfg (cs, now)" and "map_of cs i = Some c"
  shows "wf_gomap cs \<and> (\<exists>pv\<in>cfg. pv_ID pv = i \<and>
    (if ci_openUntil c = 0 then ci_failures c < circuit_limit pv
     else ci_openUntil c \<le> now + circuit_duration pv))"
  using breaker_reach_inv [OF assms(1)] assms(2) by (simp add: breaker_inv_def circuit_ok_def)

text \<open>C40: No provider stays blocked for ever: from any reachable state, once the longest open interval
  configured for it has passed without further events, it is available.\<close>

theorem breaker_recovers:
  assumes "breaker_reach cfg (cs, now)" and "\<forall>pv\<in>cfg. pv_ID pv = i \<longrightarrow> circuit_duration pv \<le> longest"
    and "now + longest < t"
  shows "fst (Available t cs i)"
proof (cases "map_of cs i")
  case (Some c)
  then have "circuit_ok cfg now i c"
    using breaker_reach_inv [OF assms(1)] by (simp add: breaker_inv_def)
  then have "ci_openUntil c = 0 \<or> ci_openUntil c < t"
    using assms(2,3) unfolding circuit_ok_def by (auto split: if_splits)
  with Some show ?thesis by (auto simp: fst_Available)
qed (simp add: fst_Available)

lemma sample_breaker_reach:
  "breaker_reach {sample_upstream} (recordFailure 4 sample_upstream (recordFailure 3 sample_upstream []), 4)"
proof -
  have "breaker_reach {sample_upstream} ([], 0)"
    using breaker_reach.init [of 0] by (simp add: NewClient_circuits_def)
  moreover have "breaker_step {sample_upstream} ([], 0) (Failure sample_upstream)
      (recordFailure 3 sample_upstream [], 3)"
    by (rule breaker_step.failure) simp_all
  moreover have "breaker_step {sample_upstream} (recordFailure 3 sample_upstream [], 3)
      (Failure sample_upstream) (recordFailure 4 sample_upstream (recordFailure 3 sample_upstream []), 4)"
    by (rule breaker_step.failure) simp_all
  ultimately show ?thesis by (blast intro: breaker_reach.step)
qed

theorem breaker_invariant_witness:
  "wf_gomap (recordFailure 4 sample_upstream (recordFailure 3 sample_upstream []))"
proof -
  have "map_of (recordFailure 4 sample_upstream (recordFailure 3 sample_upstream [])) ''p'' \<noteq> None"
    by (simp add: map_of_recordFailure sample_upstream_circuit)
  then show ?thesis using breaker_invariant [OF sample_breaker_reach] by blast
qed

theorem breaker_recovers_witness:
  "fst (Available 1000000005 (recordFailure 4 sample_upstream (recordFailure 3 sample_upstream [])) ''p'')"
  by (rule breaker_recovers [OF sample_breaker_reach, of _ 1000000000])
    (simp_all add: sample_upstream_circuit)

subsection \<open>What Do returns and counts\<close>

definition upstream_call :: "provider_config \<Rightarrow> string \<Rightarrow> header \<Rightarrow> upstream_request" where
  "upstream_call pv body requestHeaders =
     \<lparr>ur_URL = pv_BaseURL pv, ur_Header = do_headers pv requestHeaders, ur_Body = body,
      ur_TimeoutNS = do_timeout pv\<rparr>"

lemma Do_unavailable:
  assumes "\<not> fst (Available now cs (pv_ID pv))"
  shows "Do now later url_ok send cs pv m body rh =
    (Inl (CircuitIsOpen (pv_ID pv)), snd (Available now cs (pv_ID pv)))"
  using assms by (simp add: Do_def case_prod_unfold)

lemma Do_available:
  assumes "fst (Available now cs (pv_ID pv))" and "url_ok (pv_BaseURL pv)"
  shows "Do now later url_ok send cs pv m body rh =
    (let cs1 = snd (Available now cs (pv_ID pv)) in
     case send (upstream_call pv body rh) of
       None \<Rightarrow> (Inl TransportFailed, recordFailure later pv cs1)
     | Some response \<Rightarrow>
         if 200 \<le> rs_StatusCode response \<and> rs_StatusCode response < 300
         then (Inr response, recordSuccess (pv_ID pv) cs1)
         else (let err = \<lparr>ue_StatusCode = rs_StatusCode response, ue_Body = [], ue_ModelID = m_ID m,
                          ue_ProviderID = pv_ID pv\<rparr>
               in (Inl (case rs_Body response of None \<Rightarrow> ReadFailed err
                        | Some errorBody \<Rightarrow> Upstream (err\<lparr>ue_Body := take (2 ^ 20) errorBody\<rparr>)),
                   if retryableStatus (rs_StatusCode response) then recordFailure later pv cs1 else cs1)))"
  using assms
  by (auto simp: Do_def case_prod_unfold Let_def upstream_call_def split: option.splits)

lemma Do_success:
  "fst (Do now later url_ok send cs pv m body rh) = Inr response \<longleftrightarrow>
     fst (Available now cs (pv_ID pv)) \<and> url_ok (pv_BaseURL pv) \<and>
     send (upstream_call pv body rh) = Some response \<and>
     200 \<le> rs_StatusCode response \<and> rs_StatusCode response < 300"
proof (cases "fst (Available now cs (pv_ID pv)) \<and> url_ok (pv_BaseURL pv)")
  case True
  then show ?thesis by (auto simp: Do_available Let_def split: option.splits)
next
  case False
  then have "\<exists>e. fst (Do now later url_ok send cs pv m body rh) = Inl e"
    by (auto simp: Do_def case_prod_unfold Let_def)
  with False show ?thesis by auto
qed

text \<open>A call returns a response exactly when the circuit lets it through, the target is a URL, the
  transport delivers a response, and its status is in the 200 range.\<close>

theorem Do_succeeds_iff:
  "fst (Do now later url_ok send cs pv m body rh) = Inr response \<longleftrightarrow>
     fst (Available now cs (pv_ID pv)) \<and> url_ok (pv_BaseURL pv) \<and>
     send (upstream_call pv body rh) = Some response \<and>
     200 \<le> rs_StatusCode response \<and> rs_StatusCode response < 300"
  by (rule Do_success)

text \<open>The breaker counts exactly the calls that reached the network and may be retried: a success
  clears the provider's count, a transport error or a retryable status adds one, and a client
  error, an open circuit or a bad URL leaves the count alone.\<close>

theorem Do_counts_retryable:
  "snd (Do now later url_ok send cs pv m body rh) =
    (let checked = snd (Available now cs (pv_ID pv)) in
     case fst (Do now later url_ok send cs pv m body rh) of
       Inr response \<Rightarrow> recordSuccess (pv_ID pv) checked
     | Inl err \<Rightarrow>
         (if Retryable err \<and> err \<noteq> CircuitIsOpen (pv_ID pv) \<and> err \<noteq> InvalidRequest
          then recordFailure later pv checked else checked))"
proof (cases "fst (Available now cs (pv_ID pv)) \<and> url_ok (pv_BaseURL pv)")
  case True
  then show ?thesis
    by (auto simp: Do_available Let_def Retryable_def split: option.splits)
next
  case False
  then show ?thesis by (auto simp: Do_def case_prod_unfold Let_def Retryable_def)
qed

text \<open>Circuits are keyed by the provider id alone: once one configuration's failures open the
  circuit, a call with any other configuration of that id - another tenant's, with its own URL and
  key - is refused without contacting its provider.\<close>

theorem breaker_shared_by_id:
  assumes "int (length ts) = circuit_limit pv - 1" and "is_int64 (circuit_limit pv)"
    and "map_of cs (pv_ID pv) = None" and "0 \<le> t"
    and "pv_ID other = pv_ID pv" and "now \<le> t + circuit_duration pv"
  shows "fst (Do now later url_ok send (fail_at pv (ts @ [t]) cs) other m body rh) =
    Inl (CircuitIsOpen (pv_ID other))"
proof -
  have "0 < t + circuit_duration pv" using circuit_duration_pos [of pv] assms(4) by linarith
  then have "\<not> fst (Available now (fail_at pv (ts @ [t]) cs) (pv_ID other))"
    using fail_at_opens [OF assms(1-3), of t] assms(5,6) by (simp add: fst_Available)
  then show ?thesis by (simp add: Do_unavailable)
qed

theorem breaker_shared_by_id_witness:
  "fst (Do 5 6 (\<lambda>_. True) (\<lambda>_. None) (fail_at sample_upstream [3, 4] [])
     (sample_upstream\<lparr>pv_BaseURL := ''http://other'', pv_APIKey := ''sk-2''\<rparr>) premium [] []) =
   Inl (CircuitIsOpen ''p'')"
  using breaker_shared_by_id [of "[3]" sample_upstream "[]" 4
      "sample_upstream\<lparr>pv_BaseURL := ''http://other'', pv_APIKey := ''sk-2''\<rparr>" 5]
  by (simp add: sample_upstream_circuit is_int64_def)

subsection \<open>Headers sent upstream\<close>

lemma canonical_names:
  "canonical_key ''Content-Type'' = ''Content-Type''" "canonical_key ''Accept'' = ''Accept''"
  "canonical_key ''Authorization'' = ''Authorization''"
  "canonical_key ''OpenAI-Organization'' = ''Openai-Organization''"
  "canonical_key ''OpenAI-Project'' = ''Openai-Project''" "canonical_key ''User-Agent'' = ''User-Agent''"
  by (simp_all add: canonical_key_def header_char_def upper_char_def fold_char_def Let_def)
    code_simp+

lemma lookup_Header_Set: "lookup_zero [] (Header_Set h k v) j = (if canonical_key k = j then v else lookup_zero [] h j)"
  by (simp add: Header_Set_def lookup_zero_update)

lemma lookup_fold_Header_Set:
  assumes "lookup_zero [] h j = lookup_zero [] h' j"
  shows "lookup_zero [] (foldl (\<lambda>h (k, v). Header_Set h k v) h kvs) j =
    lookup_zero [] (foldl (\<lambda>h (k, v). Header_Set h k v) h' kvs) j"
  using assms
proof (induction kvs arbitrary: h h')
  case (Cons kv kvs)
  obtain k v where kv: "kv = (k, v)" by (cases kv)
  have "lookup_zero [] (Header_Set h k v) j = lookup_zero [] (Header_Set h' k v) j"
    unfolding lookup_Header_Set Cons.prems ..
  then show ?case unfolding kv foldl_Cons prod.case by (rule Cons.IH)
qed simp

lemma lookup_forward:
  assumes "\<forall>n\<in>set names. canonical_key n \<noteq> j"
  shows "lookup_zero [] (foldl (\<lambda>h name. let v = Header_Get rh name in if v \<noteq> [] then Header_Set h name v else h)
    h names) j = lookup_zero [] h j"
  using assms by (induction names arbitrary: h) (auto simp: lookup_Header_Set Let_def)

definition forwarded_headers :: "string set" where
  "forwarded_headers = {''Accept'', ''Openai-Organization'', ''Openai-Project'', ''User-Agent''}"



end
