(* ===== verification/Registry.thy ===== *)
theory Registry
  imports Policy_Validity SortSlice
begin

text \<open>
  The policy registry (\<^verbatim>\<open>internal/routing/registry.go\<close>). Every operation holds the registry's
  lock for its whole body, so each is one step on the registry and on the state \<open>'s\<close> behind the
  \<^verbatim>\<open>PolicySaver\<close>; what the registry needs of a saver is the locale \<open>policy_saver\<close>.
\<close>

record registry =
  rg_policies :: "policy gomap"
  rg_catalog :: "model gomap"

datatype put_error = InvalidPolicy policy_error | CannotMove | SaveFailed

definition NewRegistry :: "model gomap \<Rightarrow> policy list \<Rightarrow> registry" where
  "NewRegistry catalog initial =
     \<lparr>rg_policies = foldl (\<lambda>m p. AList.update (p_ID p) p m) [] initial, rg_catalog = catalog\<rparr>"

definition Registry_Get :: "registry \<Rightarrow> string \<Rightarrow> string \<Rightarrow> policy option" where
  "Registry_Get r i tenantID =
     (case map_of (rg_policies r) i of
        Some p \<Rightarrow> if p_TenantID p = tenantID then Some p else None
      | None \<Rightarrow> None)"

definition policy_before :: "policy \<Rightarrow> policy \<Rightarrow> bool" where
  "policy_before a b = (if p_ID a = p_ID b then p_CreatedAt a < p_CreatedAt b
                        else string_less (p_ID a) (p_ID b))"

text \<open>\<open>visit\<close> is the order in which this run ranges over the policies.\<close>

definition Registry_List ::
  "((policy \<Rightarrow> policy \<Rightarrow> bool) \<Rightarrow> policy list \<Rightarrow> policy list) \<Rightarrow> (policy list \<Rightarrow> policy list) \<Rightarrow>
   registry \<Rightarrow> string \<Rightarrow> policy list" where
  "Registry_List pdqsort visit r tenantID =
     sort_Slice pdqsort policy_before
       (filter (\<lambda>p. tenantID = [] \<or> p_TenantID p = tenantID) (visit (map snd (rg_policies r))))"

text \<open>\<open>None\<close> as \<open>saver\<close> is the nil interface; a saver answers whether it saved.\<close>

definition Registry_Put ::
  "string list \<Rightarrow> (policy \<Rightarrow> 's \<Rightarrow> bool \<times> 's) option \<Rightarrow> policy \<Rightarrow> registry \<times> 's \<Rightarrow>
   put_error option \<times> registry \<times> 's" where
  "Registry_Put ord saver p rs =
    (let (r, s) = rs
     in case policy_Validate ord p (rg_catalog r) of
          Some e \<Rightarrow> (Some (InvalidPolicy e), r, s)
        | None \<Rightarrow>
            if (case map_of (rg_policies r) (p_ID p) of None \<Rightarrow> False
                | Some current \<Rightarrow> p_TenantID current \<noteq> p_TenantID p)
            then (Some CannotMove, r, s)
            else let (ok, s') = (case saver of None \<Rightarrow> (True, s) | Some save \<Rightarrow> save p s)
                 in if \<not> ok then (Some SaveFailed, r, s')
                    else (None, r\<lparr>rg_policies := AList.update (p_ID p) p (rg_policies r)\<rparr>, s'))"

subsection \<open>Looking up what was put\<close>

definition registry_ok :: "registry \<Rightarrow> bool" where
  "registry_ok r \<longleftrightarrow> wf_gomap (rg_policies r) \<and> (\<forall>i p. map_of (rg_policies r) i = Some p \<longrightarrow> p_ID p = i)"

lemma fold_policies_ok:
  assumes "wf_gomap m" and "\<forall>i p. map_of m i = Some p \<longrightarrow> p_ID p = i"
  shows "wf_gomap (foldl (\<lambda>m p. AList.update (p_ID p) p m) m ps) \<and>
    (\<forall>i p. map_of (foldl (\<lambda>m p. AList.update (p_ID p) p m) m ps) i = Some p \<longrightarrow> p_ID p = i)"
  using assms
proof (induction ps arbitrary: m)
  case (Cons q ps)
  show ?case
    unfolding foldl_Cons by (rule Cons.IH) (use Cons.prems in \<open>simp_all add: map_of_AList_update\<close>)
qed simp

lemma NewRegistry_ok: "registry_ok (NewRegistry catalog initial)"
  unfolding registry_ok_def NewRegistry_def by (simp only: registry.simps) (rule fold_policies_ok; simp)

lemma Registry_Put_cases:
  obtains (rejected) e where "Registry_Put ord saver p (r, s) = (Some e, r, s)"
      and "policy_Validate ord p (rg_catalog r) \<noteq> None \<or>
        (\<exists>q. map_of (rg_policies r) (p_ID p) = Some q \<and> p_TenantID q \<noteq> p_TenantID p)"
  | (failed) s' where "Registry_Put ord saver p (r, s) = (Some SaveFailed, r, s')"
      and "\<exists>save. saver = Some save \<and> save p s = (False, s')"
  | (saved) s' where "Registry_Put ord saver p (r, s) =
        (None, r\<lparr>rg_policies := AList.update (p_ID p) p (rg_policies r)\<rparr>, s')"
      and "policy_Validate ord p (rg_catalog r) = None"
      and "\<forall>q. map_of (rg_policies r) (p_ID p) = Some q \<longrightarrow> p_TenantID q = p_TenantID p"
      and "(case saver of None \<Rightarrow> s' = s | Some save \<Rightarrow> save p s = (True, s'))"
proof -
  let ?moves = "case map_of (rg_policies r) (p_ID p) of None \<Rightarrow> False
    | Some current \<Rightarrow> p_TenantID current \<noteq> p_TenantID p"
  have moves: "?moves \<longleftrightarrow> (\<exists>q. map_of (rg_policies r) (p_ID p) = Some q \<and> p_TenantID q \<noteq> p_TenantID p)"
    by (auto split: option.splits)
  obtain ok s' where os: "(case saver of None \<Rightarrow> (True, s) | Some save \<Rightarrow> save p s) = (ok, s')"
    by (cases "case saver of None \<Rightarrow> (True, s) | Some save \<Rightarrow> save p s")
  consider (bad) "policy_Validate ord p (rg_catalog r) \<noteq> None \<or> ?moves"
    | (down) "policy_Validate ord p (rg_catalog r) = None" "\<not> ?moves" "\<not> ok"
    | (good) "policy_Validate ord p (rg_catalog r) = None" "\<not> ?moves" ok
    by blast
  then show thesis
  proof cases
    case bad
    then have "\<exists>e. Registry_Put ord saver p (r, s) = (Some e, r, s)"
      by (auto simp: Registry_Put_def split: option.splits)
    with bad show thesis using rejected unfolding moves by blast
  next
    case down
    then have "Registry_Put ord saver p (r, s) = (Some SaveFailed, r, s')"
      by (simp add: Registry_Put_def os)
    moreover have "\<exists>save. saver = Some save \<and> save p s = (False, s')"
      using os down(3) by (cases saver) auto
    ultimately show thesis by (rule failed)
  next
    case good
    then have "Registry_Put ord saver p (r, s) =
        (None, r\<lparr>rg_policies := AList.update (p_ID p) p (rg_policies r)\<rparr>, s')"
      by (simp add: Registry_Put_def os)
    moreover have "case saver of None \<Rightarrow> s' = s | Some save \<Rightarrow> save p s = (True, s')"
      using os good(3) by (cases saver) auto
    ultimately show thesis using saved good(1,2) unfolding moves by blast
  qed
qed

lemma Registry_Put_ok:
  assumes "registry_ok r" and "Registry_Put ord saver p (r, s) = (e, r', s')"
  shows "registry_ok r'"
  using assms(2)
proof (cases rule: Registry_Put_cases [of ord saver p r s])
  case (saved t)
  with assms show ?thesis by (auto simp: registry_ok_def map_of_AList_update split: if_splits)
qed (use assms in auto)

text \<open>Publishing a policy succeeds exactly when it is valid, its id is not taken by another tenant,
  and the saver stored it; then lookups of its tenant return it and all other policies are as
  before. On any failure the registry is unchanged.\<close>

theorem Registry_Put_spec:
  assumes "percent_order ord" and "Registry_Put ord (Some save) p (r, s) = (e, r', s')"
  shows "(e = None \<longleftrightarrow> valid_policy p (rg_catalog r) \<and>
      (\<forall>q. map_of (rg_policies r) (p_ID p) = Some q \<longrightarrow> p_TenantID q = p_TenantID p) \<and> fst (save p s)) \<and>
    (e = None \<longrightarrow> Registry_Get r' (p_ID p) (p_TenantID p) = Some p \<and> s' = snd (save p s) \<and>
      (\<forall>i t. i \<noteq> p_ID p \<longrightarrow> Registry_Get r' i t = Registry_Get r i t)) \<and>
    (e \<noteq> None \<longrightarrow> r' = r)"
proof (cases rule: Registry_Put_cases [of ord "Some save" p r s])
  case (rejected e')
  with assms show ?thesis by (auto simp: policy_Validate_None)
next
  case (failed t)
  with assms show ?thesis by auto
next
  case (saved t)
  with assms show ?thesis
    by (auto simp: policy_Validate_None Registry_Get_def map_of_AList_update)
qed

text \<open>No operation moves a policy between tenants: whoever owned an id before a publication owns it
  afterwards, whatever its result.\<close>

theorem Registry_Put_keeps_owner:
  assumes "Registry_Put ord saver p (r, s) = (e, r', s')" and "Registry_Get r i t = Some q"
  shows "\<exists>q'. Registry_Get r' i t = Some q'"
proof (cases rule: Registry_Put_cases [of ord saver p r s])
  case (saved t')
  with assms show ?thesis
    by (cases "i = p_ID p")
      (auto simp: Registry_Get_def map_of_AList_update split: option.splits if_splits)
qed (use assms in auto)

subsection \<open>Listing\<close>

lemma policy_before_order: "strict_weak_on policy_before A"
proof -
  have "\<not> policy_before b a" if "policy_before a b" for a b
    using that by (auto simp: policy_before_def dest: string_less_asym split: if_splits)
  moreover have "\<not> policy_before a c" if "\<not> policy_before a b" "\<not> policy_before b c" for a b c
  proof (cases "p_ID a = p_ID b \<or> p_ID b = p_ID c")
    case True
    with that show ?thesis
      by (auto simp: policy_before_def split: if_splits)
  next
    case False
    with that have n: "\<not> string_less (p_ID a) (p_ID b)" "\<not> string_less (p_ID b) (p_ID c)"
      by (simp_all add: policy_before_def)
    have "p_ID a \<noteq> p_ID c" using False n string_less_linear by metis
    with string_less_weak_trans [OF n] show ?thesis by (simp add: policy_before_def)
  qed
  ultimately show ?thesis unfolding strict_weak_on_def by blast
qed

lemma sorted_ids:
  assumes "sorted_wrt (\<lambda>a b. \<not> policy_before b a) ps" and "distinct (map p_ID ps)"
  shows "sorted_wrt string_less (map p_ID ps)"
  using assms
proof (induction ps)
  case (Cons p ps)
  have "string_less (p_ID p) (p_ID q)" if "q \<in> set ps" for q
  proof -
    have "p_ID p \<noteq> p_ID q" using Cons.prems(2) that by auto
    moreover have "\<not> policy_before q p" using Cons.prems(1) that by simp
    ultimately show ?thesis using string_less_linear by (fastforce simp: policy_before_def)
  qed
  with Cons show ?case by simp
qed simp

lemma registry_ids: "registry_ok r \<Longrightarrow> map p_ID (map snd (rg_policies r)) = map fst (rg_policies r)"
  by (auto simp: registry_ok_def wf_gomap_in_set [symmetric])

text \<open>Listing returns exactly the policies the tenant owns, each once, in increasing byte order of
  their ids, whatever order the map is ranged over.\<close>

theorem Registry_List_spec:
  assumes "registry_ok r" and "pdq_sorter pdqsort" and "\<And>ps. mset (visit ps) = mset ps" and "t \<noteq> []"
  shows "set (Registry_List pdqsort visit r t) = {p. Registry_Get r (p_ID p) t = Some p} \<and>
    sorted_wrt string_less (map p_ID (Registry_List pdqsort visit r t))"
proof -
  let ?mine = "filter (\<lambda>p. t = [] \<or> p_TenantID p = t) (visit (map snd (rg_policies r)))"
  have vis: "set (visit ps) = set ps" "distinct (map p_ID (visit ps)) \<longleftrightarrow> distinct (map p_ID ps)" for ps
    using assms(3) [of ps] mset_eq_imp_distinct_iff [of "map p_ID (visit ps)" "map p_ID ps"]
    by (metis set_mset_mset, simp)
  have snds: "p \<in> snd ` set m \<longleftrightarrow> (\<exists>i. (i, p) \<in> set m)" for p :: policy and m :: "policy gomap"
    by force
  have mem: "p \<in> set (Registry_List pdqsort visit r t) \<longleftrightarrow> (\<exists>i. (i, p) \<in> set (rg_policies r)) \<and> p_TenantID p = t" for p
    unfolding Registry_List_def pdq_sorter.set_sort_Slice [OF assms(2)] set_filter vis(1) set_map snds
    using assms(4) by simp
  have "Registry_Get r (p_ID p) t = Some p \<longleftrightarrow> (\<exists>i. (i, p) \<in> set (rg_policies r)) \<and> p_TenantID p = t" for p
  proof -
    have "(\<exists>i. (i, p) \<in> set (rg_policies r)) \<longleftrightarrow> map_of (rg_policies r) (p_ID p) = Some p"
      using assms(1) unfolding registry_ok_def by (metis wf_gomap_in_set)
    then show ?thesis by (auto simp: Registry_Get_def split: option.splits)
  qed
  with mem have "set (Registry_List pdqsort visit r t) = {p. Registry_Get r (p_ID p) t = Some p}" by auto
  moreover have "distinct (map p_ID (visit (map snd (rg_policies r))))"
    using assms(1) unfolding vis(2) registry_ids [OF assms(1)] by (simp add: registry_ok_def wf_gomap_def)
  then have "distinct (map p_ID ?mine)" by (rule distinct_map_filter)
  then have "distinct (map p_ID (Registry_List pdqsort visit r t))"
    unfolding Registry_List_def
    using mset_eq_imp_distinct_iff pdq_sorter.mset_sort_Slice [OF assms(2)] by (metis mset_map)
  moreover have "sorted_wrt (\<lambda>a b. \<not> policy_before b a) (Registry_List pdqsort visit r t)"
    unfolding Registry_List_def
    by (rule pdq_sorter.sorted_sort_Slice [OF assms(2) policy_before_order])
  ultimately show ?thesis using sorted_ids by blast
qed

subsection \<open>Policies survive a restart\<close>

text \<open>
  What the registry relies on in its saver: \<open>load\<close> returns, for every id, the policy last saved
  under it; a failed save leaves the stored policies alone.
\<close>

locale policy_saver =
  fixes save :: "policy \<Rightarrow> 's \<Rightarrow> bool \<times> 's" and load :: "'s \<Rightarrow> policy list" and inv :: "'s \<Rightarrow> bool"
  assumes save_inv: "inv s \<Longrightarrow> inv (snd (save p s))"
    and load_saved: "inv s \<Longrightarrow> fst (save p s) \<Longrightarrow>
      map_of (map (\<lambda>q. (p_ID q, q)) (load (snd (save p s)))) =
      (map_of (map (\<lambda>q. (p_ID q, q)) (load s)))(p_ID p \<mapsto> p)"
    and load_failed: "inv s \<Longrightarrow> \<not> fst (save p s) \<Longrightarrow> load (snd (save p s)) = load s"
    and load_distinct: "inv s \<Longrightarrow> distinct (map p_ID (load s))"
begin

lemma NewRegistry_lookup:
  assumes "inv s"
  shows "map_of (rg_policies (NewRegistry catalog (base @ load s))) i =
    (case map_of (map (\<lambda>q. (p_ID q, q)) (load s)) i of Some p \<Rightarrow> Some p
     | None \<Rightarrow> map_of (rg_policies (NewRegistry catalog base)) i)"
proof -
  have fold: "map_of (foldl (\<lambda>m p. AList.update (p_ID p) p m) m ps) i =
      (case map_of (map (\<lambda>q. (p_ID q, q)) ps) i of Some p \<Rightarrow> Some p | None \<Rightarrow> map_of m i)"
    if "distinct (map p_ID ps)" for m ps
    using that
  proof (induction ps arbitrary: m)
    case (Cons p ps)
    then have "map_of (map (\<lambda>q. (p_ID q, q)) ps) (p_ID p) = None"
      by (force simp: map_of_eq_None_iff)
    with Cons show ?case by (auto simp: map_of_AList_update split: option.splits)
  qed simp
  show ?thesis
    unfolding NewRegistry_def foldl_append registry.simps by (rule fold [OF load_distinct [OF assms]])
qed

definition restarts_as :: "policy list \<Rightarrow> registry \<Rightarrow> 's \<Rightarrow> bool" where
  "restarts_as base r s \<longleftrightarrow>
     (\<forall>i. map_of (rg_policies (NewRegistry (rg_catalog r) (base @ load s))) i = map_of (rg_policies r) i)"

lemma Put_restarts_as:
  assumes "inv s" and "restarts_as base r s" and put: "Registry_Put ord (Some save) p (r, s) = (e, r', s')"
  shows "restarts_as base r' s'"
proof (cases rule: Registry_Put_cases [of ord "Some save" p r s])
  case (rejected e')
  with put assms(2) show ?thesis by simp
next
  case (failed t)
  then have "\<not> fst (save p s)" "r' = r" "s' = snd (save p s)" using put by auto
  with assms(2) load_failed [OF assms(1)] show ?thesis by (simp add: restarts_as_def)
next
  case (saved t)
  then have f: "fst (save p s)" "s' = snd (save p s)"
    "r' = r\<lparr>rg_policies := AList.update (p_ID p) p (rg_policies r)\<rparr>"
    using put by auto
  have "inv (snd (save p s))" using assms(1) by (rule save_inv)
  from NewRegistry_lookup [OF this] NewRegistry_lookup [OF assms(1)] assms(2) show ?thesis
    unfolding restarts_as_def f
    by (auto simp: load_saved [OF assms(1) f(1)] map_of_AList_update split: option.splits if_splits)
qed

end


subsection \<open>The registry on sample policies\<close>

definition sample_registry :: registry where
  "sample_registry = NewRegistry sample_catalog [sample_policy]"

definition list_saver :: "policy \<Rightarrow> policy list \<Rightarrow> bool \<times> policy list" where
  "list_saver p ps = (True, p # filter (\<lambda>q. p_ID q \<noteq> p_ID p) ps)"

definition sample_percents :: "string list" where
  "sample_percents = [''control_percent'', ''canary_percent'', ''exploration_percent'']"

lemma sample_percents_ok: "percent_order sample_percents"
  by (simp add: percent_order_def sample_percents_def percent_fields_def)

lemma sample_registry_get: "map_of (rg_policies sample_registry) i = (if i = ''policy'' then Some sample_policy else None)"
  "rg_catalog sample_registry = sample_catalog"
  by (simp_all add: sample_registry_def NewRegistry_def sample_policy_def)

theorem Registry_Put_spec_witness:
  "fst (Registry_Put sample_percents (Some list_saver) sample_policy (sample_registry, [])) = None"
proof -
  obtain e r' s' where put:
    "Registry_Put sample_percents (Some list_saver) sample_policy (sample_registry, []) = (e, r', s')"
    by (metis prod_cases3)
  from Registry_Put_spec [OF sample_percents_ok put] show ?thesis
    by (simp add: put sample_registry_get sample_policy_valid list_saver_def)
qed

theorem Registry_Put_keeps_owner_witness:
  "\<exists>q. Registry_Get (fst (snd (Registry_Put sample_percents (Some list_saver)
     (sample_policy\<lparr>p_TenantID := ''thief''\<rparr>) (sample_registry, [])))) ''policy'' ''tenant'' = Some q"
proof -
  obtain e r' s' where put: "Registry_Put sample_percents (Some list_saver)
     (sample_policy\<lparr>p_TenantID := ''thief''\<rparr>) (sample_registry, []) = (e, r', s')"
    by (metis prod_cases3)
  have "Registry_Get sample_registry ''policy'' ''tenant'' = Some sample_policy"
    by (simp add: Registry_Get_def sample_registry_get) (simp add: sample_policy_def)
  from Registry_Put_keeps_owner [OF put this] show ?thesis by (simp add: put)
qed

theorem Registry_List_spec_witness:
  "Registry_List insertionSort rev sample_registry ''tenant'' = [sample_policy] \<and>
   set (Registry_List insertionSort rev sample_registry ''tenant'') =
     {p. Registry_Get sample_registry (p_ID p) ''tenant'' = Some p}"
proof
  show "Registry_List insertionSort rev sample_registry ''tenant'' = [sample_policy]"
    by (simp add: Registry_List_def sample_registry_def NewRegistry_def sort_Slice_def insertionSort_def)
      (simp add: sample_policy_def)
  have "registry_ok sample_registry" unfolding sample_registry_def by (rule NewRegistry_ok)
  from conjunct1 [OF Registry_List_spec [OF this insertion_pdq.pdq_sorter_axioms, of rev "''tenant''"]]
  show "set (Registry_List insertionSort rev sample_registry ''tenant'') =
     {p. Registry_Get sample_registry (p_ID p) ''tenant'' = Some p}" by simp
qed

text \<open>Policies are keyed by their id across tenants, and start-up checks no duplicates: of two
  configured policies with one id only the last is registered, so the tenant of the first finds
  no policy under an id its configuration defines.\<close>

theorem NewRegistry_id_clash:
  assumes "p_ID p = p_ID q" and "p_TenantID p \<noteq> p_TenantID q"
  shows "Registry_Get (NewRegistry catalog [p, q]) (p_ID p) (p_TenantID p) = None \<and>
    Registry_Get (NewRegistry catalog [p, q]) (p_ID p) (p_TenantID q) = Some q"
  using assms by (simp add: NewRegistry_def Registry_Get_def map_of_AList_update)

theorem NewRegistry_id_clash_witness:
  "Registry_Get (NewRegistry sample_catalog [sample_policy, sample_policy\<lparr>p_TenantID := ''other''\<rparr>])
     ''policy'' ''tenant'' = None"
  using NewRegistry_id_clash [of sample_policy "sample_policy\<lparr>p_TenantID := ''other''\<rparr>" sample_catalog]
  by (simp add: sample_policy_def)

end
