(* ===== verification/Store.thy ===== *)
theory Store
  imports Registry
begin

text \<open>
  The local audit store (\<^verbatim>\<open>FileStore\<close> of \<^verbatim>\<open>internal/store/store.go\<close>): three append-only JSONL logs
  and the state rebuilt from them. A line of a log is what decoding it gives: a value, an empty
  line, a line that does not decode, or one longer than the scanner's buffer; the line \<^verbatim>\<open>Encode\<close>
  writes for a value decodes to it. The flag \<open>io\<close> of a save tells whether opening, encoding and
  writing succeeded.
\<close>

datatype 'a line = Line 'a | Blank | Bad | TooLong
datatype 'a log = Missing | Unreadable | Lines "'a line list"

datatype load_error = OpenError | LineError nat | ScanError

datatype store_error =
    DirectoryRequired
  | CreateDirectory
  | LoadDecisionsError load_error
  | LoadOutcomesError load_error
  | LoadPoliciesError load_error

subsection \<open>Logs\<close>

fun consume_lines :: "('a \<Rightarrow> 's \<Rightarrow> 's) \<Rightarrow> nat \<Rightarrow> 'a line list \<Rightarrow> 's \<Rightarrow> load_error + 's" where
  "consume_lines f n [] s = Inr s"
| "consume_lines f n (Line v # ls) s = consume_lines f (Suc n) ls (f v s)"
| "consume_lines f n (Blank # ls) s = consume_lines f (Suc n) ls s"
| "consume_lines f n (Bad # ls) s = Inl (LineError (Suc n))"
| "consume_lines f n (TooLong # ls) s = Inl ScanError"

fun loadJSONLines :: "('a \<Rightarrow> 's \<Rightarrow> 's) \<Rightarrow> 'a log \<Rightarrow> 's \<Rightarrow> load_error + 's" where
  "loadJSONLines f Missing s = Inr s"
| "loadJSONLines f Unreadable s = Inl OpenError"
| "loadJSONLines f (Lines ls) s = consume_lines f 0 ls s"

fun appendJSONLine :: "bool \<Rightarrow> 'a \<Rightarrow> 'a log \<Rightarrow> bool \<times> 'a log" where
  "appendJSONLine False v l = (False, l)"
| "appendJSONLine True v (Lines ls) = (True, Lines (ls @ [Line v]))"
| "appendJSONLine True v l = (True, Lines [Line v])"

subsection \<open>The store\<close>

record file_store =
  fs_decisions :: "route_decision gomap"
  fs_outcomes :: "outcome list"
  fs_policies :: "policy gomap"
  fs_decisionLog :: "route_decision log"
  fs_outcomeLog :: "outcome log"
  fs_policyLog :: "policy log"

definition NewFileStore ::
  "string \<Rightarrow> bool \<Rightarrow> route_decision log \<Rightarrow> outcome log \<Rightarrow> policy log \<Rightarrow> store_error + file_store" where
  "NewFileStore directory mkdir_ok dlog olog plog =
     (if directory = [] then Inl DirectoryRequired
      else if \<not> mkdir_ok then Inl CreateDirectory
      else case loadJSONLines (\<lambda>d m. AList.update (d_ID d) d m) dlog [] of
        Inl e \<Rightarrow> Inl (LoadDecisionsError e)
      | Inr decisions \<Rightarrow>
          (case loadJSONLines (\<lambda>v vs. vs @ [v]) olog [] of
             Inl e \<Rightarrow> Inl (LoadOutcomesError e)
           | Inr outcomes \<Rightarrow>
               (case loadJSONLines (\<lambda>p m. AList.update (p_ID p) p m) plog [] of
                  Inl e \<Rightarrow> Inl (LoadPoliciesError e)
                | Inr policies \<Rightarrow>
                    Inr \<lparr>fs_decisions = decisions, fs_outcomes = outcomes, fs_policies = policies,
                         fs_decisionLog = dlog, fs_outcomeLog = olog, fs_policyLog = plog\<rparr>)))"

definition SaveDecision :: "bool \<Rightarrow> route_decision \<Rightarrow> file_store \<Rightarrow> bool \<times> file_store" where
  "SaveDecision io d s =
    (let (ok, l) = appendJSONLine io d (fs_decisionLog s)
     in if \<not> ok then (False, s)
        else (True, s\<lparr>fs_decisionLog := l, fs_decisions := AList.update (d_ID d) d (fs_decisions s)\<rparr>))"

definition SaveOutcome :: "bool \<Rightarrow> outcome \<Rightarrow> file_store \<Rightarrow> bool \<times> file_store" where
  "SaveOutcome io v s =
    (let (ok, l) = appendJSONLine io v (fs_outcomeLog s)
     in if \<not> ok then (False, s)
        else (True, s\<lparr>fs_outcomeLog := l, fs_outcomes := fs_outcomes s @ [v]\<rparr>))"

definition SavePolicy :: "bool \<Rightarrow> policy \<Rightarrow> file_store \<Rightarrow> bool \<times> file_store" where
  "SavePolicy io p s =
    (let (ok, l) = appendJSONLine io p (fs_policyLog s)
     in if \<not> ok then (False, s)
        else (True, s\<lparr>fs_policyLog := l, fs_policies := AList.update (p_ID p) p (fs_policies s)\<rparr>))"

definition GetDecision :: "file_store \<Rightarrow> string \<Rightarrow> string \<Rightarrow> route_decision option" where
  "GetDecision s tenantID decisionID =
     (case map_of (fs_decisions s) decisionID of
        Some d \<Rightarrow> if d_TenantID d = tenantID then Some d else None
      | None \<Rightarrow> None)"

definition LoadPolicies ::
  "((policy \<Rightarrow> policy \<Rightarrow> bool) \<Rightarrow> policy list \<Rightarrow> policy list) \<Rightarrow> (policy list \<Rightarrow> policy list) \<Rightarrow>
   file_store \<Rightarrow> policy list" where
  "LoadPolicies pdqsort visit s =
     sort_Slice pdqsort (\<lambda>a b. string_less (p_ID a) (p_ID b)) (visit (map snd (fs_policies s)))"

subsection \<open>The state in memory is the state on disk\<close>

text \<open>Reloading the logs gives the state in memory.\<close>

definition on_disk :: "file_store \<Rightarrow> bool" where
  "on_disk s \<longleftrightarrow>
     loadJSONLines (\<lambda>d m. AList.update (d_ID d) d m) (fs_decisionLog s) [] = Inr (fs_decisions s) \<and>
     loadJSONLines (\<lambda>v vs. vs @ [v]) (fs_outcomeLog s) [] = Inr (fs_outcomes s) \<and>
     loadJSONLines (\<lambda>p m. AList.update (p_ID p) p m) (fs_policyLog s) [] = Inr (fs_policies s)"

lemma consume_snoc:
  "consume_lines f n ls s = Inr s' \<Longrightarrow> consume_lines f n (ls @ [Line v]) s = Inr (f v s')"
  by (induction f n ls s rule: consume_lines.induct) auto

lemma load_append:
  assumes "loadJSONLines f l s = Inr s'" and "appendJSONLine io v l = (True, l')"
  shows "loadJSONLines f l' s = Inr (f v s')"
  using assms by (cases io; cases l) (auto intro: consume_snoc)

lemma append_failed: "appendJSONLine io v l = (ok, l') \<Longrightarrow> ok = io \<and> (\<not> io \<longrightarrow> l' = l)"
  by (cases io; cases l) auto

lemma on_disk_saves:
  assumes "on_disk s"
  shows "on_disk (snd (SaveDecision io d s))" and "on_disk (snd (SaveOutcome io v s))"
    and "on_disk (snd (SavePolicy io p s))"
  using assms
  by (auto simp: on_disk_def SaveDecision_def SaveOutcome_def SavePolicy_def split: prod.splits
      dest: load_append)

lemma NewFileStore_Inr:
  "NewFileStore directory mkdir_ok dlog olog plog = Inr s \<longleftrightarrow>
     directory \<noteq> [] \<and> mkdir_ok \<and> on_disk s \<and>
     fs_decisionLog s = dlog \<and> fs_outcomeLog s = olog \<and> fs_policyLog s = plog"
proof -
  have "s = \<lparr>fs_decisions = fs_decisions s, fs_outcomes = fs_outcomes s, fs_policies = fs_policies s,
      fs_decisionLog = fs_decisionLog s, fs_outcomeLog = fs_outcomeLog s, fs_policyLog = fs_policyLog s\<rparr>"
    by simp
  then show ?thesis
    unfolding NewFileStore_def on_disk_def by (auto split: sum.splits)
qed

datatype store_op = OpDecision bool route_decision | OpOutcome bool outcome | OpPolicy bool policy

fun run_op :: "file_store \<Rightarrow> store_op \<Rightarrow> file_store" where
  "run_op s (OpDecision io d) = snd (SaveDecision io d s)"
| "run_op s (OpOutcome io v) = snd (SaveOutcome io v s)"
| "run_op s (OpPolicy io p) = snd (SavePolicy io p s)"

lemma on_disk_run: "on_disk s \<Longrightarrow> on_disk (foldl run_op s ops)"
proof (induction ops arbitrary: s)
  case (Cons op ops)
  then show ?case by (cases op) (auto simp: on_disk_saves)
qed simp

text \<open>Nothing acknowledged is lost by a restart: after any sequence of saves, failed ones included,
  opening a store on the logs it left gives back exactly the decisions, outcomes and policies it
  had in memory.\<close>

theorem restart_restores:
  assumes "NewFileStore directory True dlog olog plog = Inr s" and "s' = foldl run_op s ops"
  shows "NewFileStore directory True (fs_decisionLog s') (fs_outcomeLog s') (fs_policyLog s') = Inr s'"
  using assms on_disk_run [of s ops] by (simp add: NewFileStore_Inr)

text \<open>One line that does not decode makes the whole store unusable: however many good lines follow, a
  service restarted on it does not start, and the error names the line.\<close>

theorem bad_line_blocks_start:
  assumes "directory \<noteq> []" and "\<forall>l\<in>set ls. l = Blank \<or> (\<exists>d. l = Line d)"
  shows "NewFileStore directory True (Lines (ls @ Bad # rest)) olog plog =
    Inl (LoadDecisionsError (LineError (Suc (length ls))))"
proof -
  have "consume_lines f n (ls @ Bad # rest) m = Inl (LineError (Suc (n + length ls)))"
    for f n and m :: "route_decision gomap"
    using assms(2) by (induction ls arbitrary: n m) auto
  then show ?thesis using assms(1) by (simp add: NewFileStore_def)
qed

subsection \<open>Reading decisions back\<close>

text \<open>The ledger contract the handlers rely on: upserts by id, read per tenant.\<close>

locale decision_ledger =
  fixes save :: "route_decision \<Rightarrow> 's \<Rightarrow> bool \<times> 's"
    and get :: "'s \<Rightarrow> string \<Rightarrow> string \<Rightarrow> route_decision option"
    and ok :: "route_decision \<Rightarrow> 's \<Rightarrow> bool"
  assumes saved: "ok d s \<Longrightarrow> fst (save d s) \<Longrightarrow>
      get (snd (save d s)) t i = (if i = d_ID d then (if t = d_TenantID d then Some d else None) else get s t i)"
    and not_saved: "\<not> fst (save d s) \<Longrightarrow> get (snd (save d s)) t i = get s t i"
begin

lemma get_after_save:
  assumes "ok d s" and "fst (save d s)"
  shows "get (snd (save d s)) (d_TenantID d) (d_ID d) = Some d"
  using saved [OF assms] by simp

lemma other_tenant_blind:
  assumes "ok d s" and "fst (save d s)" and "t \<noteq> d_TenantID d"
  shows "get (snd (save d s)) t (d_ID d) = None"
  using saved [OF assms(1,2)] assms(3) by simp

lemma second_save_wins:
  assumes "ok d s" and "fst (save d s)" and "ok d' (snd (save d s))"
    and "d_ID d' = d_ID d" and "d_TenantID d' = d_TenantID d"
  shows "get (snd (save d' (snd (save d s)))) (d_TenantID d) (d_ID d) =
    Some (if fst (save d' (snd (save d s))) then d' else d)"
  using saved [OF assms(3)] saved [OF assms(1,2)] not_saved assms(4,5) by auto

end

lemma SaveDecision_get:
  "fst (SaveDecision io d s) \<Longrightarrow> GetDecision (snd (SaveDecision io d s)) t i =
     (if i = d_ID d then (if t = d_TenantID d then Some d else None) else GetDecision s t i)"
  by (auto simp: SaveDecision_def GetDecision_def map_of_AList_update split: prod.splits if_splits)

lemma SaveDecision_failed: "\<not> fst (SaveDecision io d s) \<Longrightarrow> snd (SaveDecision io d s) = s"
  by (auto simp: SaveDecision_def split: prod.splits if_splits)

interpretation file_ledger: decision_ledger "SaveDecision io" GetDecision "\<lambda>d s. True" for io
  by unfold_locales (simp_all add: SaveDecision_get SaveDecision_failed)

text \<open>A saved decision is read back by its tenant and by nobody else, a later save under the same id
  replaces it, and a save that fails leaves the earlier record.\<close>

theorem decision_roundtrip:
  assumes "fst (SaveDecision io d s)" and "d_ID d' = d_ID d" and "d_TenantID d' = d_TenantID d"
  shows "GetDecision (snd (SaveDecision io d s)) (d_TenantID d) (d_ID d) = Some d \<and>
    (t \<noteq> d_TenantID d \<longrightarrow> GetDecision (snd (SaveDecision io d s)) t (d_ID d) = None) \<and>
    GetDecision (snd (SaveDecision io' d' (snd (SaveDecision io d s)))) (d_TenantID d) (d_ID d) =
      Some (if io' then d' else d)"
proof -
  have "fst (SaveDecision io' d' s') \<longleftrightarrow> io'" for s'
    by (auto simp: SaveDecision_def split: prod.splits dest: append_failed)
  then show ?thesis
    using file_ledger.get_after_save [OF TrueI assms(1)] file_ledger.other_tenant_blind [OF TrueI assms(1)]
      SaveDecision_get [of io' d' "snd (SaveDecision io d s)"] SaveDecision_failed [of io' d'] assms(2,3)
    by (cases io') auto
qed

subsection \<open>Policies\<close>

definition policies_ok :: "policy gomap \<Rightarrow> bool" where
  "policies_ok m \<longleftrightarrow> wf_gomap m \<and> (\<forall>i p. map_of m i = Some p \<longrightarrow> p_ID p = i)"

lemma policies_ok_update: "policies_ok m \<Longrightarrow> policies_ok (AList.update (p_ID p) p m)"
  by (simp add: policies_ok_def map_of_AList_update)

lemma consume_policies_ok:
  "consume_lines (\<lambda>p m. AList.update (p_ID p) p m) n ls m = Inr m' \<Longrightarrow> policies_ok m \<Longrightarrow> policies_ok m'"
proof (induction "\<lambda>(p::policy) m. AList.update (p_ID p) p m" n ls m rule: consume_lines.induct)
  case (2 n v ls m)
  then show ?case using policies_ok_update by simp
qed auto

lemma on_disk_policies: "on_disk s \<Longrightarrow> policies_ok (fs_policies s)"
proof -
  have e: "policies_ok []" by (simp add: policies_ok_def)
  show "on_disk s \<Longrightarrow> policies_ok (fs_policies s)"
    by (cases "fs_policyLog s") (auto simp: on_disk_def e dest: consume_policies_ok [OF _ e])
qed

lemma policies_ids: "policies_ok m \<Longrightarrow> map (\<lambda>q. (p_ID q, q)) (map snd m) = m"
proof -
  assume "policies_ok m"
  then have "p_ID (snd x) = fst x" if "x \<in> set m" for x
    using that wf_gomap_in_set [of m "fst x" "snd x"] by (simp add: policies_ok_def)
  then have "map ((\<lambda>q. (p_ID q, q)) \<circ> snd) m = m" by (intro map_idI) (simp add: prod_eq_iff)
  then show ?thesis by simp
qed

lemma policies_distinct: "policies_ok m \<Longrightarrow> distinct (map p_ID (map snd m))"
proof -
  assume ok: "policies_ok m"
  have "map p_ID (map snd m) = map fst (map (\<lambda>q. (p_ID q, q)) (map snd m))" by simp
  also have "\<dots> = map fst m" unfolding policies_ids [OF ok] ..
  finally have "map p_ID (map snd m) = map fst m" .
  then show ?thesis using ok unfolding policies_ok_def wf_gomap_def by (simp only:)
qed

lemma string_less_ids: "strict_weak_on (\<lambda>a b. string_less (p_ID a) (p_ID b)) A"
  unfolding strict_weak_on_def using string_less_asym string_less_weak_trans by blast

lemma map_of_mset:
  assumes "mset xs = mset ys" and "distinct (map p_ID ys)"
  shows "map_of (map (\<lambda>q. (p_ID q, q)) xs) = map_of (map (\<lambda>q. (p_ID q, q)) ys)"
proof -
  have "mset (map p_ID xs) = mset (map p_ID ys)" using assms(1) by simp
  then have "distinct (map p_ID xs)" using assms(2) mset_eq_imp_distinct_iff by blast
  moreover have "set xs = set ys" using assms(1) by (rule mset_eq_setD)
  ultimately show ?thesis
    using assms(2) by (subst map_of_inject_set) (simp_all add: comp_def)
qed

text \<open>A store whose policies are listed with some order of visiting its map.\<close>

locale listing_store = pdq_sorter pdqsort
  for pdqsort :: "(policy \<Rightarrow> policy \<Rightarrow> bool) \<Rightarrow> policy list \<Rightarrow> policy list" +
  fixes visit :: "policy list \<Rightarrow> policy list"
  assumes visits: "mset (visit ps) = mset ps"
begin

lemma mset_LoadPolicies: "mset (LoadPolicies pdqsort visit s) = mset (map snd (fs_policies s))"
  by (simp add: LoadPolicies_def mset_sort_Slice visits)

lemma map_of_LoadPolicies:
  assumes "policies_ok (fs_policies s)"
  shows "map_of (map (\<lambda>q. (p_ID q, q)) (LoadPolicies pdqsort visit s)) = map_of (fs_policies s)"
    and "distinct (map p_ID (LoadPolicies pdqsort visit s))"
proof -
  have d: "distinct (map p_ID (map snd (fs_policies s)))"
    using assms by (rule policies_distinct)
  show "map_of (map (\<lambda>q. (p_ID q, q)) (LoadPolicies pdqsort visit s)) = map_of (fs_policies s)"
    using map_of_mset [OF mset_LoadPolicies d] unfolding policies_ids [OF assms] .
  have "mset (map p_ID (LoadPolicies pdqsort visit s)) = mset (map p_ID (map snd (fs_policies s)))"
    unfolding mset_map mset_LoadPolicies ..
  then show "distinct (map p_ID (LoadPolicies pdqsort visit s))"
    using d mset_eq_imp_distinct_iff by blast
qed

lemma sorted_LoadPolicies:
  "sorted_wrt (\<lambda>a b. \<not> string_less (p_ID b) (p_ID a)) (LoadPolicies pdqsort visit s)"
  unfolding LoadPolicies_def by (rule sorted_sort_Slice [OF string_less_ids])

end

lemma SavePolicy_cases:
  "SavePolicy io p s =
     (if io then (True, s\<lparr>fs_policyLog := snd (appendJSONLine True p (fs_policyLog s)),
                          fs_policies := AList.update (p_ID p) p (fs_policies s)\<rparr>) else (False, s))"
  by (cases io; cases "fs_policyLog s") (simp_all add: SavePolicy_def)

sublocale listing_store \<subseteq> saver: policy_saver "SavePolicy io" "LoadPolicies pdqsort visit" on_disk for io
proof unfold_locales
  fix s p
  assume ok: "on_disk s"
  show "on_disk (snd (SavePolicy io p s))" using ok by (rule on_disk_saves(3))
  show "distinct (map p_ID (LoadPolicies pdqsort visit s))"
    using on_disk_policies [OF ok] by (rule map_of_LoadPolicies(2))
  show "LoadPolicies pdqsort visit (snd (SavePolicy io p s)) = LoadPolicies pdqsort visit s"
    if "\<not> fst (SavePolicy io p s)"
    using that by (simp add: SavePolicy_cases split: if_splits)
  show "map_of (map (\<lambda>q. (p_ID q, q)) (LoadPolicies pdqsort visit (snd (SavePolicy io p s)))) =
      (map_of (map (\<lambda>q. (p_ID q, q)) (LoadPolicies pdqsort visit s)))(p_ID p \<mapsto> p)"
    if "fst (SavePolicy io p s)"
  proof -
    have "policies_ok (fs_policies (snd (SavePolicy io p s)))"
      using ok by (intro on_disk_policies on_disk_saves(3))
    then show ?thesis
      using that map_of_LoadPolicies(1) [OF on_disk_policies [OF ok]]
      by (simp add: map_of_LoadPolicies(1)) (simp add: SavePolicy_cases update_conv' split: if_splits)
  qed
qed

lemma Registry_Put_store:
  assumes "Registry_Put ord (Some save) p (r, s) = (e, r', s')"
  shows "s' = s \<or> s' = snd (save p s)" and "rg_catalog r' = rg_catalog r"
  using assms by (cases rule: Registry_Put_cases [of ord "Some save" p r s]; force)+

fun run_puts :: "registry \<times> file_store \<Rightarrow> (string list \<times> bool \<times> policy) list \<Rightarrow> registry \<times> file_store" where
  "run_puts rs [] = rs"
| "run_puts rs ((ord, io, p) # puts) = run_puts (snd (Registry_Put ord (Some (SavePolicy io)) p rs)) puts"

context listing_store begin

lemma run_puts_restarts:
  assumes "run_puts (r, s) puts = (r', s')" and "on_disk s" and "saver.restarts_as base r s"
  shows "on_disk s' \<and> saver.restarts_as base r' s' \<and> rg_catalog r' = rg_catalog r"
  using assms
proof (induction puts arbitrary: r s)
  case (Cons put puts)
  obtain ord io p where p: "put = (ord, io, p)" by (cases put)
  obtain e r1 s1 where put: "Registry_Put ord (Some (SavePolicy io)) p (r, s) = (e, r1, s1)"
    by (metis prod_cases3)
  have "on_disk s1" using Registry_Put_store(1) [OF put] Cons.prems(2) on_disk_saves(3) by blast
  moreover have "saver.restarts_as base r1 s1"
    using Cons.prems(2,3) put by (rule saver.Put_restarts_as)
  moreover have "run_puts (r1, s1) puts = (r', s')" using Cons.prems(1) by (simp add: p put)
  ultimately show ?case using Cons.IH Registry_Put_store(2) [OF put] by simp
qed simp

lemma restarts_initially: "saver.restarts_as base (NewRegistry catalog (base @ LoadPolicies pdqsort visit s)) s"
  by (simp add: saver.restarts_as_def NewRegistry_def)

lemma run_puts_lookup:
  assumes "run_puts (NewRegistry catalog (base @ LoadPolicies pdqsort visit s), s) puts = (r', s')"
    and "on_disk s"
  shows "on_disk s' \<and> map_of (rg_policies (NewRegistry catalog (base @ LoadPolicies pdqsort visit s'))) i =
    map_of (rg_policies r') i"
  using run_puts_restarts [OF assms restarts_initially]
  by (simp add: saver.restarts_as_def) (simp add: NewRegistry_def)

end

interpretation insertion_store: listing_store insertionSort rev
  by unfold_locales simp_all


subsection \<open>A sample ledger\<close>

definition sample_decision :: route_decision where
  "sample_decision = \<lparr>d_ID = ''dec_1'', d_ParentDecisionID = [], d_TenantID = ''tenant'', d_TraceID = ''trace-1'',
     d_Workflow = ''support'', d_Step = ''draft'', d_RiskClass = RiskNormal, d_PolicyID = ''policy'',
     d_PolicyVersion = ''1'', d_SnapshotVersion = ''snapshot'', d_CatalogVersion = ''catalog'',
     d_IncumbentModel = ''premium'', d_SelectedModel = ''balanced'', d_FinalModel = ''balanced'',
     d_Bucket = ''treatment'', d_FallbackReason = [], d_FeasibleModels = [''premium'', ''balanced''],
     d_ShadowModels = [], d_Predictions = [], d_Features = sample_features, d_EstimatedCostUSD = Fin 2,
     d_IncumbentEstimatedCostUSD = Fin 8, d_ActualCostUSD = Fin 3, d_InputTokens = 15, d_OutputTokens = 40,
     d_RoutingLatencyMicros = 42, d_ProviderLatencyMS = 700, d_AttemptedModels = [''balanced''],
     d_UpstreamStatus = 200, d_Error = [], d_CreatedAt = 100, d_CompletedAt = Some 101\<rparr>"

lemma empty_store:
  "NewFileStore ''data'' True Missing Missing Missing =
     Inr \<lparr>fs_decisions = [], fs_outcomes = [], fs_policies = [], fs_decisionLog = Missing,
          fs_outcomeLog = Missing, fs_policyLog = Missing\<rparr>"
  by (simp add: NewFileStore_def)

theorem restart_restores_witness:
  "NewFileStore ''data'' True (Lines [Line sample_decision]) Missing Missing =
     Inr \<lparr>fs_decisions = [(''dec_1'', sample_decision)], fs_outcomes = [], fs_policies = [],
          fs_decisionLog = Lines [Line sample_decision], fs_outcomeLog = Missing, fs_policyLog = Missing\<rparr>"
  using restart_restores [OF empty_store refl,
      of "[OpDecision True sample_decision, OpDecision False (sample_decision\<lparr>d_ID := ''dec_2''\<rparr>)]"]
  by (simp add: SaveDecision_def) (simp add: sample_decision_def)

theorem bad_line_blocks_start_witness:
  "NewFileStore ''data'' True (Lines [Line sample_decision, Blank, Bad, Line sample_decision]) Missing Missing =
     Inl (LoadDecisionsError (LineError 3))"
  using bad_line_blocks_start [of "''data''" "[Line sample_decision, Blank]" "[Line sample_decision]" Missing Missing]
  by simp

theorem decision_roundtrip_witness:
  "GetDecision (snd (SaveDecision True sample_decision \<lparr>fs_decisions = [], fs_outcomes = [], fs_policies = [],
     fs_decisionLog = Missing, fs_outcomeLog = Missing, fs_policyLog = Missing\<rparr>)) ''tenant'' ''dec_1'' =
   Some sample_decision"
proof -
  have "fst (SaveDecision True sample_decision \<lparr>fs_decisions = [], fs_outcomes = [], fs_policies = [],
     fs_decisionLog = Missing, fs_outcomeLog = Missing, fs_policyLog = Missing\<rparr>)"
    by (simp add: SaveDecision_def)
  from decision_roundtrip [OF this refl refl] show ?thesis by (simp add: sample_decision_def)
qed


end
