(* ===== verification/AuditSummary.thy ===== *)
theory AuditSummary
  imports Store
begin

text \<open>
  The audit summary (\<^verbatim>\<open>summarize\<close> and \<^verbatim>\<open>wilson\<close> of \<^verbatim>\<open>internal/store/store.go\<close>): one pass over the
  decisions, one over the outcomes, and the treatment and control estimates per trace.
\<close>

subsection \<open>Square roots\<close>

text \<open>\<^verbatim>\<open>math.Sqrt\<close> is the correctly rounded square root; \<open>isqrt\<close> is the integer square root.\<close>

function isqrt :: "int \<Rightarrow> int" where
  "isqrt n = (if n \<le> 0 then 0
     else let r = 2 * isqrt (n div 4) in if (r + 1) * (r + 1) \<le> n then r + 1 else r)"
  by auto
termination by (relation "measure nat") auto

declare isqrt.simps [simp del]

lemma isqrt_bounds: "0 \<le> n \<Longrightarrow> 0 \<le> isqrt n \<and> isqrt n * isqrt n \<le> n \<and> n < (isqrt n + 1) * (isqrt n + 1)"
proof (induction n rule: isqrt.induct)
  case (1 n)
  show ?case
  proof (cases "n \<le> 0")
    case False
    let ?s = "isqrt (n div 4)"
    have IH: "0 \<le> ?s" "?s * ?s \<le> n div 4" "n div 4 < (?s + 1) * (?s + 1)" using 1 False by auto
    have lo: "(2 * ?s) * (2 * ?s) \<le> n" using IH(2) by (simp add: algebra_simps)
    have "n < 4 * ((?s + 1) * (?s + 1))" using IH(3) by linarith
    then have hi: "n < (2 * ?s + 2) * (2 * ?s + 2)" by (simp add: algebra_simps)
    have r: "isqrt n = (if (2 * ?s + 1) * (2 * ?s + 1) \<le> n then 2 * ?s + 1 else 2 * ?s)"
      using False by (subst isqrt.simps) (simp add: Let_def)
    show ?thesis using lo hi IH(1) unfolding r by (auto simp: algebra_simps)
  qed (use 1 in \<open>simp add: isqrt.simps\<close>)
qed

text \<open>The root has the exponent \<open>ilog2 q div 2\<close>, so its last place is 52 below it.\<close>

definition sqrt_rat :: "rat \<Rightarrow> rat" where
  "sqrt_rat q =
     (if q \<le> 0 then 0
      else let u = pow2 (ilog2 q div 2 - 52); y = q / (u * u); s = isqrt \<lfloor>y\<rfloor>;
               h = of_int s + 1 / 2
           in (of_int (if y < h * h then s else s + 1)) * u)"

fun fsqrt :: "float64 \<Rightarrow> float64" where
  "fsqrt (Fin q) = (if q < 0 then NaN else f64 (sqrt_rat q))"
| "fsqrt PosInf = PosInf"
| "fsqrt x = NaN"

subsection \<open>The square root is correctly rounded\<close>

text \<open>The root lies within half a unit in the last place of the value.\<close>

lemma sqrt_rat_nearest:
  assumes "0 < q"
  shows "\<exists>s u. sqrt_rat q = of_int s * u \<and> 0 \<le> s \<and> u = pow2 (ilog2 q div 2 - 52) \<and>
    q \<le> ((of_int s + 1 / 2) * u)\<^sup>2 \<and> (0 < s \<longrightarrow> ((of_int s - 1 / 2) * u)\<^sup>2 \<le> q)"
proof -
  define u where "u = pow2 (ilog2 q div 2 - 52)"
  define y where "y = q / (u * u)"
  define s where "s = isqrt \<lfloor>y\<rfloor>"
  have u: "0 < u" by (simp add: u_def)
  have y: "0 < y" "q = y * (u * u)" using u assms by (simp_all add: y_def)
  have s: "0 \<le> s" "s * s \<le> \<lfloor>y\<rfloor>" "\<lfloor>y\<rfloor> < (s + 1) * (s + 1)"
    using isqrt_bounds [of "\<lfloor>y\<rfloor>"] y(1) by (simp_all add: s_def)
  have lo: "of_int s * of_int s \<le> y" using s(2) unfolding le_floor_iff by simp
  have hi: "y < (of_int s + 1) * (of_int s + 1)" using s(3) unfolding floor_less_iff by simp
  have sq: "q \<le> (a * u)\<^sup>2 \<longleftrightarrow> y \<le> a * a" "(a * u)\<^sup>2 \<le> q \<longleftrightarrow> a * a \<le> y" for a
    unfolding y(2) using u by (simp_all add: power2_eq_square mult.assoc mult.left_commute [of a u])
  have eq: "sqrt_rat q = of_int (if y < (of_int s + 1 / 2) * (of_int s + 1 / 2) then s else s + 1) * u"
    using assms by (simp add: sqrt_rat_def Let_def u_def y_def s_def)
  have close: "?thesis" if "sqrt_rat q = of_int t * u" "0 \<le> t" "y \<le> (of_int t + 1 / 2) * (of_int t + 1 / 2)"
    "0 < t \<longrightarrow> (of_int t - 1 / 2) * (of_int t - 1 / 2) \<le> y" for t
    using that unfolding sq [symmetric] by (intro exI [of _ t] exI [of _ u]) (simp add: u_def)
  show ?thesis
  proof (cases "y < (of_int s + 1 / 2) * (of_int s + 1 / 2)")
    case True
    have "(of_int s - 1 / 2) * (of_int s - 1 / 2) \<le> y" if "0 < s"
      using that lo by (simp add: algebra_simps)
    with True eq s(1) show ?thesis by (intro close [of s]) simp_all
  next
    case False
    then have "(of_int (s + 1) - 1 / 2) * (of_int (s + 1) - 1 / 2) \<le> y" by (simp add: algebra_simps)
    moreover have "y \<le> (of_int (s + 1) + 1 / 2) * (of_int (s + 1) + 1 / 2)"
      using hi s(1) by (simp add: algebra_simps)
    ultimately show ?thesis using False eq s(1) by (intro close [of "s + 1"]) simp_all
  qed
qed

lemma sqrt_rat_nonneg: "0 \<le> sqrt_rat q"
proof (cases "0 < q")
  case True
  then obtain s u where "sqrt_rat q = of_int s * u" "0 \<le> s" "u = pow2 (ilog2 q div 2 - 52)"
    using sqrt_rat_nearest by blast
  then show ?thesis by (simp add: less_imp_le)
qed (simp add: sqrt_rat_def)

lemma fsqrt_nonneg: "0 \<le> q \<Longrightarrow> fle (Fin 0) (fsqrt (Fin q))"
  by (simp add: f64_nonneg sqrt_rat_nonneg)

subsection \<open>The interval\<close>

definition wilson :: "float64 \<Rightarrow> int64 \<Rightarrow> float64 \<Rightarrow> interval" where
  "wilson successes n z =
     (if n = 0 then zero_interval
      else let fn = f64_of_int n;
               proportion = fdiv successes fn;
               denominator = fadd (Fin 1) (fdiv (fmul z z) fn);
               center = fdiv (fadd proportion (fdiv (fmul z z) (fmul (Fin 2) fn))) denominator;
               margin = fdiv (fmul z (fsqrt (fdiv (fadd (fmul proportion (fsub (Fin 1) proportion))
                                                    (fdiv (fmul z z) (fmul (Fin 4) fn))) fn))) denominator
           in \<lparr>i_Estimate = proportion, i_Lower = fmax (Fin 0) (fsub center margin),
               i_Upper = fmin (Fin 1) (fadd center margin), i_N = n\<rparr>)"

subsection \<open>The pass over the decisions\<close>

text \<open>The variables of the first loop.\<close>

record decision_pass =
  dp_summary :: audit_summary
  dp_decisions :: "route_decision gomap"
  dp_traceBuckets :: "string gomap"

definition billed_cost :: "route_decision \<Rightarrow> float64" where
  "billed_cost d = (if fle (d_ActualCostUSD d) (Fin 0) then d_EstimatedCostUSD d else d_ActualCostUSD d)"

definition served_model :: "route_decision \<Rightarrow> string" where
  "served_model d = (if d_FinalModel d = [] then d_SelectedModel d else d_FinalModel d)"

definition in_scope :: "string \<Rightarrow> string \<Rightarrow> time \<Rightarrow> route_decision \<Rightarrow> bool" where
  "in_scope tenantID policyID since d \<longleftrightarrow>
     \<not> (d_TenantID d \<noteq> tenantID \<or> d_CreatedAt d < since) \<and> \<not> (policyID \<noteq> [] \<and> d_PolicyID d \<noteq> policyID)"

definition count_decision :: "route_decision \<Rightarrow> decision_pass \<Rightarrow> decision_pass" where
  "count_decision d a =
    (let s = dp_summary a;
         s1 = s\<lparr>s_ByBucket := AList.update (d_Bucket d) (lookup_zero 0 (s_ByBucket s) (d_Bucket d) + 1) (s_ByBucket s)\<rparr>;
         a1 = a\<lparr>dp_decisions := AList.update (d_ID d) d (dp_decisions a)\<rparr>
     in if d_Bucket d = ''shadow''
        then a1\<lparr>dp_summary := s1\<lparr>s_ShadowRequests := s_ShadowRequests s1 + 1\<rparr>\<rparr>
        else
          (let s2 = s1\<lparr>s_Requests := s_Requests s1 + 1\<rparr>;
               s3 = (if d_Bucket d = ''control'' then s2\<lparr>s_ControlRequests := s_ControlRequests s2 + 1\<rparr> else s2);
               s4 = (if d_SelectedModel d \<noteq> d_IncumbentModel d
                     then s3\<lparr>s_RoutedRequests := s_RoutedRequests s3 + 1\<rparr> else s3);
               cost = billed_cost d;
               s5 = s4\<lparr>s_ActualCostUSD := fadd (s_ActualCostUSD s4) cost,
                       s_EstimatedCostUSD := fadd (s_EstimatedCostUSD s4) (d_EstimatedCostUSD d),
                       s_IncumbentCostUSD := fadd (s_IncumbentCostUSD s4) (d_IncumbentEstimatedCostUSD d)\<rparr>;
               m = lookup_zero zero_model_summary (s_ByModel s5) (served_model d);
               m' = m\<lparr>ms_Requests := ms_Requests m + 1, ms_CostUSD := fadd (ms_CostUSD m) cost\<rparr>;
               s6 = s5\<lparr>s_ByModel := AList.update (served_model d) m' (s_ByModel s5)\<rparr>;
               buckets = (if d_Bucket d = ''treatment'' \<or> d_Bucket d = ''exploration''
                          then AList.update (d_TraceID d) ''treatment'' (dp_traceBuckets a)
                          else if map_of (dp_traceBuckets a) (d_TraceID d) = None
                          then AList.update (d_TraceID d) ''control'' (dp_traceBuckets a)
                          else dp_traceBuckets a)
           in a1\<lparr>dp_summary := s6, dp_traceBuckets := buckets\<rparr>))"

definition summary_decision :: "string \<Rightarrow> string \<Rightarrow> time \<Rightarrow> decision_pass \<Rightarrow> route_decision \<Rightarrow> decision_pass" where
  "summary_decision tenantID policyID since a d =
     (if d_TenantID d \<noteq> tenantID \<or> d_CreatedAt d < since then a
      else if policyID \<noteq> [] \<and> d_PolicyID d \<noteq> policyID then a
      else count_decision d a)"

subsection \<open>The pass over the outcomes\<close>

record outcome_pass =
  op_ByModel :: "model_summary gomap"
  op_primaryByTrace :: "float64 gomap"

definition count_outcome ::
  "route_decision gomap \<Rightarrow> outcome \<Rightarrow> float64 \<Rightarrow> outcome_pass \<Rightarrow> outcome_pass" where
  "count_outcome decisions out value a =
    (let known = (if o_DecisionID out \<noteq> [] then map_of decisions (o_DecisionID out) else None);
         traceID = (case known of None \<Rightarrow> o_TraceID out
                    | Some d \<Rightarrow> if o_TraceID out = [] then d_TraceID d else o_TraceID out);
         a1 = (case known of None \<Rightarrow> a
               | Some d \<Rightarrow>
                   (let m = lookup_zero zero_model_summary (op_ByModel a) (served_model d);
                        m' = m\<lparr>ms_Successes := fadd (ms_Successes m) value, ms_Outcomes := ms_Outcomes m + 1\<rparr>
                    in a\<lparr>op_ByModel := AList.update (served_model d) m' (op_ByModel a)\<rparr>))
     in if traceID \<noteq> [] then a1\<lparr>op_primaryByTrace := AList.update traceID value (op_primaryByTrace a1)\<rparr> else a1)"

definition summary_outcome ::
  "string \<Rightarrow> string \<Rightarrow> time \<Rightarrow> route_decision gomap \<Rightarrow> outcome_pass \<Rightarrow> outcome \<Rightarrow> outcome_pass" where
  "summary_outcome tenantID primaryOutcome since decisions a out =
     (if o_TenantID out \<noteq> tenantID \<or> o_CreatedAt out < since \<or> o_Type out \<noteq> primaryOutcome then a
      else let (value, ok) = NumericValue out in if \<not> ok then a else count_outcome decisions out value a)"

subsection \<open>summarize\<close>

record arms =
  ar_treatmentSuccess :: float64
  ar_controlSuccess :: float64
  ar_treatmentN :: int64
  ar_controlN :: int64

definition count_trace :: "string gomap \<Rightarrow> arms \<Rightarrow> string \<times> float64 \<Rightarrow> arms" where
  "count_trace traceBuckets a p =
    (let (traceID, value) = p; bucket = lookup_zero [] traceBuckets traceID
     in if bucket = ''treatment''
        then a\<lparr>ar_treatmentSuccess := fadd (ar_treatmentSuccess a) value, ar_treatmentN := ar_treatmentN a + 1\<rparr>
        else if bucket = ''control''
        then a\<lparr>ar_controlSuccess := fadd (ar_controlSuccess a) value, ar_controlN := ar_controlN a + 1\<rparr>
        else a)"

definition rate_model :: "model_summary \<Rightarrow> model_summary" where
  "rate_model m = (if 0 < ms_Outcomes m
     then m\<lparr>ms_SuccessRate := fdiv (ms_Successes m) (f64_of_int (ms_Outcomes m))\<rparr> else m)"

definition initial_summary :: "string \<Rightarrow> string \<Rightarrow> string \<Rightarrow> time \<Rightarrow> time \<Rightarrow> audit_summary" where
  "initial_summary tenantID policyID primaryOutcome since now =
     \<lparr>s_TenantID = tenantID, s_PolicyID = policyID, s_Since = since, s_Requests = 0, s_RoutedRequests = 0,
      s_ControlRequests = 0, s_ShadowRequests = 0, s_ActualCostUSD = Fin 0, s_EstimatedCostUSD = Fin 0,
      s_IncumbentCostUSD = Fin 0, s_VerifiedGrossSavingsUSD = Fin 0, s_SavingsPercent = Fin 0,
      s_PrimaryOutcome = primaryOutcome, s_TreatmentOutcome = zero_interval, s_ControlOutcome = zero_interval,
      s_NonInferiorityDelta = Fin 0, s_ByModel = [], s_ByBucket = [], s_GeneratedAt = now\<rparr>"

text \<open>\<open>visit\<close> is the order in which this run ranges over the traces with an outcome.\<close>

definition summarize ::
  "((string \<times> float64) list \<Rightarrow> (string \<times> float64) list) \<Rightarrow> time \<Rightarrow> route_decision list \<Rightarrow> outcome list \<Rightarrow>
   string \<Rightarrow> string \<Rightarrow> string \<Rightarrow> time \<Rightarrow> audit_summary" where
  "summarize visit now allDecisions outcomes tenantID policyID primaryOutcome since =
    (let dp = foldl (summary_decision tenantID policyID since)
                \<lparr>dp_summary = initial_summary tenantID policyID primaryOutcome since now,
                 dp_decisions = [], dp_traceBuckets = []\<rparr> allDecisions;
         s = dp_summary dp;
         op = foldl (summary_outcome tenantID primaryOutcome since (dp_decisions dp))
                \<lparr>op_ByModel = s_ByModel s, op_primaryByTrace = []\<rparr> outcomes;
         a = foldl (count_trace (dp_traceBuckets dp))
               \<lparr>ar_treatmentSuccess = Fin 0, ar_controlSuccess = Fin 0, ar_treatmentN = 0, ar_controlN = 0\<rparr>
               (visit (op_primaryByTrace op));
         treatment = wilson (ar_treatmentSuccess a) (ar_treatmentN a) (f64 (196 / 100));
         control = wilson (ar_controlSuccess a) (ar_controlN a) (f64 (196 / 100));
         savings = fmax (Fin 0) (fsub (s_IncumbentCostUSD s) (s_ActualCostUSD s))
     in s\<lparr>s_TreatmentOutcome := treatment, s_ControlOutcome := control,
          s_NonInferiorityDelta := fsub (i_Estimate treatment) (i_Estimate control),
          s_VerifiedGrossSavingsUSD := savings,
          s_SavingsPercent := (if flt (Fin 0) (s_IncumbentCostUSD s)
             then fmul (fdiv savings (s_IncumbentCostUSD s)) (Fin 100) else s_SavingsPercent s),
          s_ByModel := map (\<lambda>(i, m). (i, rate_model m)) (op_ByModel op)\<rparr>)"

definition Summary ::
  "(route_decision list \<Rightarrow> route_decision list) \<Rightarrow> ((string \<times> float64) list \<Rightarrow> (string \<times> float64) list) \<Rightarrow>
   time \<Rightarrow> file_store \<Rightarrow> string \<Rightarrow> string \<Rightarrow> string \<Rightarrow> time \<Rightarrow> audit_summary" where
  "Summary visit_decisions visit now s tenantID policyID primaryOutcome since =
     summarize visit now (visit_decisions (map snd (fs_decisions s))) (fs_outcomes s)
       tenantID policyID primaryOutcome since"

subsection \<open>The Wilson interval\<close>

lemma f64_196: "f64 (196 / 100) = Fin (2206763817411543 / 1125899906842624)"
  by code_simp

lemma z_squared: "fmul (f64 (196 / 100)) (f64 (196 / 100)) = Fin (135164283816457 / 35184372088832)"
  by code_simp

text \<open>A rounded quotient of a number up to 4 by a larger one.\<close>

lemma f64_unit:
  assumes "0 \<le> q" "q \<le> of_int k" "0 \<le> k" "k \<le> 16"
  obtains r where "f64 q = Fin r" and "0 \<le> r" and "r \<le> of_int k"
proof -
  have k: "is_f64 (of_int k)" using assms(3,4) by (intro is_f64_int) simp
  have "(of_int k :: rat) < pow2 1024"
    using of_int_le_iff [of k 16, where 'a = rat] assms(4) pow2_1024_big by simp
  then have "f64 q = Fin (rnd_rat q)"
    using assms k by (intro f64_bounded [of _ "of_int k"]) auto
  then show thesis using that assms k by (auto intro: rnd_rat_nonneg rnd_rat_le)
qed

lemma wilson_range:
  assumes "1 \<le> n" "n \<le> 2 ^ 53" "0 \<le> s" "s \<le> of_int n"
    and z: "0 < zr" and zz: "f64 (zr * zr) = Fin Z" "0 \<le> Z" "Z \<le> 4"
  obtains p l u where "wilson (Fin s) n (Fin zr) = \<lparr>i_Estimate = Fin p, i_Lower = Fin l, i_Upper = Fin u, i_N = n\<rparr>"
    and "0 \<le> p" "p \<le> 1" "0 \<le> l" "l \<le> u" "u \<le> 1"
proof -
  let ?n = "of_int n :: rat"
  have n1: "1 \<le> ?n" using assms(1) by simp
  have fn: "f64_of_int n = Fin ?n" using assms(1,2) by (intro f64_of_int_small) simp
  have isn: "is_f64 ?n" using assms(1,2) by (intro is_f64_int) simp
  obtain p where p: "f64 (s / ?n) = Fin p" "0 \<le> p" "p \<le> 1"
    using f64_unit [of "s / ?n" 1] assms n1 by auto
  have scaled: "\<exists>t. fmul (Fin c) (Fin ?n) = Fin t \<and> ?n \<le> t" if c: "1 \<le> c" "c \<le> 4" for c :: rat
  proof -
    have "?n \<le> of_int (2 ^ 53)" using assms(2) by (simp only: of_int_le_iff)
    then have "c * ?n \<le> 4 * of_int (2 ^ 53)" using c n1 by (intro mult_mono) auto
    then have b: "c * ?n \<le> of_int (2 ^ 55)" by simp
    have "is_f64 (of_int (2 ^ 55))" using is_f64_pow2 [of 55] pow2_of_int [of 55] by simp
    moreover have "(of_int (2 ^ 55) :: rat) < pow2 1024" using pow2_1024_big by simp
    ultimately have "f64 (c * ?n) = Fin (rnd_rat (c * ?n))"
      using b c n1 by (intro f64_bounded [of _ "of_int (2 ^ 55)"]) auto
    moreover have "?n \<le> c * ?n" using c n1 by simp
    ultimately show ?thesis using rnd_rat_ge [OF _ isn] by auto
  qed
  obtain t2 where t2: "fmul (Fin 2) (Fin ?n) = Fin t2" "?n \<le> t2" using scaled [of 2] by auto
  obtain t4 where t4: "fmul (Fin 4) (Fin ?n) = Fin t4" "?n \<le> t4" using scaled [of 4] by auto
  have Zn: "Z / t \<le> 4" "0 \<le> Z / t" if "?n \<le> t" for t
  proof -
    have "1 \<le> t" using that n1 by simp
    then show "Z / t \<le> 4" "0 \<le> Z / t" using zz by (simp_all add: divide_le_eq)
  qed
  obtain y where y: "f64 (Z / ?n) = Fin y" "0 \<le> y" "y \<le> 4" using f64_unit [of "Z / ?n" 4] Zn [of ?n] by auto
  obtain x where x: "f64 (Z / t2) = Fin x" "0 \<le> x" using f64_unit [of "Z / t2" 4] Zn [OF t2(2)] by auto
  have "Z / t2 \<le> Z / ?n" using t2(2) n1 zz by (intro divide_left_mono) simp_all
  then have xy: "x \<le> y" using f64_mono x(1) y(1) by (metis fle.simps(1))
  obtain w where w: "f64 (Z / t4) = Fin w" "0 \<le> w" "w \<le> 4" using f64_unit [of "Z / t4" 4] Zn [OF t4(2)] by auto
  obtain D where D: "f64 (1 + y) = Fin D" "0 \<le> D" using f64_unit [of "1 + y" 5] y by auto
  have D1: "1 \<le> D" using f64_mono [of 1 "1 + y"] y(2) D(1) by simp
  obtain N where N: "f64 (p + x) = Fin N" "0 \<le> N"
    using f64_unit [of "p + x" 5] p x xy y by auto
  have "p + x \<le> 1 + y" using p(3) xy by simp
  then have "N \<le> D" using f64_mono N(1) D(1) by (metis fle.simps(1))
  then obtain c where c: "f64 (N / D) = Fin c" "0 \<le> c" "c \<le> 1"
    using f64_unit [of "N / D" 1] N D1 by auto
  obtain compl where compl: "f64 (1 + - p) = Fin compl" "0 \<le> compl" "compl \<le> 1" using f64_unit [of "1 + - p" 1] p by auto
  obtain v where v: "f64 (p * compl) = Fin v" "0 \<le> v" "v \<le> 1"
    using f64_unit [of "p * compl" 1] p compl by (auto simp: mult_le_one)
  obtain a where a: "f64 (v + w) = Fin a" "0 \<le> a" "a \<le> 5" using f64_unit [of "v + w" 5] v w by auto
  obtain b where b: "f64 (a / ?n) = Fin b" "0 \<le> b"
  proof -
    have "a / ?n \<le> 5" using a n1 by (simp add: divide_le_eq) 
    then show thesis using f64_unit [of "a / ?n" 5] a n1 that by auto
  qed
  have rt: "fle (Fin 0) (fsqrt (Fin b))" using b(2) by (rule fsqrt_nonneg)
  have mg: "fle (Fin 0) (fdiv (fmul (Fin zr) (fsqrt (Fin b))) (Fin D))"
  proof (cases "fsqrt (Fin b)")
    case (Fin q)
    then have "0 \<le> q" using rt by (simp del: fsqrt.simps)
    then have "fle (Fin 0) (f64 (zr * q))" using z by (simp add: f64_nonneg)
    then show ?thesis using Fin D1
      by (cases "f64 (zr * q)") (auto simp: f64_nonneg inf_of_sgn_def simp del: fsqrt.simps)
  qed (use rt D1 z in \<open>auto simp: inf_of_sgn_def simp del: fsqrt.simps\<close>)
  define m where "m = fdiv (fmul (Fin zr) (fsqrt (Fin b))) (Fin D)"
  have W: "wilson (Fin s) n (Fin zr) = \<lparr>i_Estimate = Fin p, i_Lower = fmax (Fin 0) (fsub (Fin c) m),
      i_Upper = fmin (Fin 1) (fadd (Fin c) m), i_N = n\<rparr>"
    using n1 D1 t2 t4 p y x w D N c compl v a b
    by (simp add: wilson_def Let_def fn zz(1) m_def fsub_def del: fsqrt.simps)
  have mg: "fle (Fin 0) m" using mg by (simp only: m_def)
  have lower: "fle (Fin 0) (fmax (Fin 0) (fsub (Fin c) m)) \<and> fle (fmax (Fin 0) (fsub (Fin c) m)) (fmin (Fin 1) (fadd (Fin c) m))
      \<and> fle (fmin (Fin 1) (fadd (Fin c) m)) (Fin 1)"
  proof (cases m)
    case (Fin r)
    then have r: "0 \<le> r" using mg by simp
    have "fle (f64 (c + - r)) (f64 (c + r))" "fle (f64 (c + - r)) (Fin 1)" "fle (Fin 0) (f64 (c + r))"
      using r c f64_mono [of "c + - r" "c + r"] f64_mono [of "c + - r" 1] f64_nonneg [of "c + r"] by simp_all
    then show ?thesis
      unfolding Fin fsub_def by (auto intro!: fmax_le fmin_ge simp: fmax_ge fmin_le dest: fle_not_NaN)
  qed (use mg in \<open>auto simp: fsub_def fmax_def fmin_def\<close>)
  show thesis
    using lower W p that
    by (cases "fmax (Fin 0) (fsub (Fin c) m)"; cases "fmin (Fin 1) (fadd (Fin c) m)") auto
qed

text \<open>C17: For outcome values between zero and one the reported interval is an interval of probabilities:
  0 <= lower <= upper <= 1 in binary64 arithmetic, rounding included, and none of them is NaN,
  for every count a float64 holds exactly.\<close>

theorem wilson_bounds:
  assumes "1 \<le> n" and "n \<le> 2 ^ 53" and "0 \<le> s" and "s \<le> of_int n"
  shows "fle (Fin 0) (i_Lower (wilson (Fin s) n (f64 (196 / 100)))) \<and>
    fle (i_Lower (wilson (Fin s) n (f64 (196 / 100)))) (i_Upper (wilson (Fin s) n (f64 (196 / 100)))) \<and>
    fle (i_Upper (wilson (Fin s) n (f64 (196 / 100)))) (Fin 1) \<and>
    fle (Fin 0) (i_Estimate (wilson (Fin s) n (f64 (196 / 100)))) \<and>
    fle (i_Estimate (wilson (Fin s) n (f64 (196 / 100)))) (Fin 1)"
proof -
  have "f64 (2206763817411543 / 1125899906842624 * (2206763817411543 / 1125899906842624)) =
      Fin (135164283816457 / 35184372088832)"
    using z_squared unfolding f64_196 by simp
  from wilson_range [OF assms _ this] show ?thesis unfolding f64_196 by fastforce
qed

theorem wilson_bounds_witness:
  "fle (i_Lower (wilson (Fin 7) 10 (f64 (196 / 100)))) (i_Upper (wilson (Fin 7) 10 (f64 (196 / 100))))"
  by (rule wilson_bounds [of 10 7, THEN conjunct2, THEN conjunct1]) simp_all

text \<open>The API accepts any number as an outcome value. One production trace with the outcome 3 makes
  both bounds of the interval NaN, which the JSON encoding of the summary cannot represent.\<close>

theorem wilson_NaN: "wilson (Fin 3) 1 (f64 (196 / 100)) = \<lparr>i_Estimate = Fin 3, i_Lower = NaN, i_Upper = NaN, i_N = 1\<rparr>"
  by code_simp

subsection \<open>Which records a summary reads\<close>

lemma summary_decision_scope:
  "summary_decision t p since a d = (if in_scope t p since d then count_decision d a else a)"
  by (simp add: summary_decision_def in_scope_def)

lemma fold_scope:
  "foldl (summary_decision t p since) a ds = foldl (\<lambda>a d. count_decision d a) a (filter (in_scope t p since) ds)"
  by (induction ds arbitrary: a) (simp_all add: summary_decision_scope)

definition outcome_in_scope :: "string \<Rightarrow> string \<Rightarrow> time \<Rightarrow> outcome \<Rightarrow> bool" where
  "outcome_in_scope t kind since out \<longleftrightarrow> o_TenantID out = t \<and> since \<le> o_CreatedAt out \<and> o_Type out = kind"

lemma summary_outcome_scope:
  "summary_outcome t kind since decisions a out =
     (if outcome_in_scope t kind since out \<and> snd (NumericValue out)
      then count_outcome decisions out (fst (NumericValue out)) a else a)"
  by (auto simp: summary_outcome_def outcome_in_scope_def split: prod.splits)

definition counted :: "string \<Rightarrow> string \<Rightarrow> time \<Rightarrow> outcome \<Rightarrow> bool" where
  "counted t kind since out \<longleftrightarrow> outcome_in_scope t kind since out \<and> snd (NumericValue out)"

lemma fold_outcome_scope:
  "foldl (summary_outcome t kind since decisions) a os =
     foldl (\<lambda>a out. count_outcome decisions out (fst (NumericValue out)) a) a (filter (counted t kind since) os)"
  by (induction os arbitrary: a) (simp_all add: summary_outcome_scope counted_def)

lemma summarize_filter:
  assumes "\<And>d. in_scope t p since d \<Longrightarrow> P d" and "\<And>out. outcome_in_scope t kind since out \<Longrightarrow> Q out"
  shows "summarize visit now (filter P ds) (filter Q os) t p kind since = summarize visit now ds os t p kind since"
proof -
  have "filter (in_scope t p since) (filter P ds) = filter (in_scope t p since) ds"
    using assms(1) by (auto intro: filter_cong)
  moreover have "filter (counted t kind since) (filter Q os) = filter (counted t kind since) os"
    using assms(2) by (auto simp: counted_def intro: filter_cong)
  ultimately show ?thesis by (simp add: summarize_def fold_scope fold_outcome_scope Let_def)
qed

text \<open>A tenant's summary is a function of that tenant's own records: decisions and outcomes of other
  tenants, whatever their ids, traces and values, change nothing in it.\<close>

theorem summary_tenant_isolation:
  "summarize visit now ds os t p kind since =
     summarize visit now (filter (\<lambda>d. d_TenantID d = t) ds) (filter (\<lambda>out. o_TenantID out = t) os) t p kind since"
  by (rule summarize_filter [symmetric]) (simp_all add: in_scope_def outcome_in_scope_def)

subsection \<open>Counts and costs\<close>

lemma count_decision_fields:
  "s_Requests (dp_summary (count_decision d a)) =
     s_Requests (dp_summary a) + (if d_Bucket d = ''shadow'' then 0 else 1)"
  "s_ShadowRequests (dp_summary (count_decision d a)) =
     s_ShadowRequests (dp_summary a) + (if d_Bucket d = ''shadow'' then 1 else 0)"
  "s_ControlRequests (dp_summary (count_decision d a)) =
     s_ControlRequests (dp_summary a) + (if d_Bucket d = ''control'' then 1 else 0)"
  "s_RoutedRequests (dp_summary (count_decision d a)) = s_RoutedRequests (dp_summary a) +
     (if d_Bucket d \<noteq> ''shadow'' \<and> d_SelectedModel d \<noteq> d_IncumbentModel d then 1 else 0)"
  "s_ActualCostUSD (dp_summary (count_decision d a)) = (if d_Bucket d = ''shadow'' then s_ActualCostUSD (dp_summary a)
     else fadd (s_ActualCostUSD (dp_summary a)) (billed_cost d))"
  "s_EstimatedCostUSD (dp_summary (count_decision d a)) =
     (if d_Bucket d = ''shadow'' then s_EstimatedCostUSD (dp_summary a)
      else fadd (s_EstimatedCostUSD (dp_summary a)) (d_EstimatedCostUSD d))"
  "s_IncumbentCostUSD (dp_summary (count_decision d a)) =
     (if d_Bucket d = ''shadow'' then s_IncumbentCostUSD (dp_summary a)
      else fadd (s_IncumbentCostUSD (dp_summary a)) (d_IncumbentEstimatedCostUSD d))"
  "s_ByBucket (dp_summary (count_decision d a)) = AList.update (d_Bucket d)
     (lookup_zero 0 (s_ByBucket (dp_summary a)) (d_Bucket d) + 1) (s_ByBucket (dp_summary a))"
  "dp_decisions (count_decision d a) = AList.update (d_ID d) d (dp_decisions a)"
  "dp_traceBuckets (count_decision d a) =
     (if d_Bucket d = ''shadow'' then dp_traceBuckets a
      else if d_Bucket d = ''treatment'' \<or> d_Bucket d = ''exploration''
      then AList.update (d_TraceID d) ''treatment'' (dp_traceBuckets a)
      else if map_of (dp_traceBuckets a) (d_TraceID d) = None
      then AList.update (d_TraceID d) ''control'' (dp_traceBuckets a) else dp_traceBuckets a)"
  by (simp_all add: count_decision_def Let_def)

lemma summarize_fields:
  fixes t p since kind now
  defines "dp \<equiv> \<lambda>ds. foldl (\<lambda>a d. count_decision d a)
     \<lparr>dp_summary = initial_summary t p kind since now, dp_decisions = [], dp_traceBuckets = []\<rparr>
     (filter (in_scope t p since) ds)"
  shows "s_Requests (summarize visit now ds os t p kind since) = s_Requests (dp_summary (dp ds))"
    and "s_ShadowRequests (summarize visit now ds os t p kind since) = s_ShadowRequests (dp_summary (dp ds))"
    and "s_ControlRequests (summarize visit now ds os t p kind since) = s_ControlRequests (dp_summary (dp ds))"
    and "s_RoutedRequests (summarize visit now ds os t p kind since) = s_RoutedRequests (dp_summary (dp ds))"
    and "s_ActualCostUSD (summarize visit now ds os t p kind since) = s_ActualCostUSD (dp_summary (dp ds))"
    and "s_EstimatedCostUSD (summarize visit now ds os t p kind since) = s_EstimatedCostUSD (dp_summary (dp ds))"
    and "s_IncumbentCostUSD (summarize visit now ds os t p kind since) = s_IncumbentCostUSD (dp_summary (dp ds))"
    and "s_ByBucket (summarize visit now ds os t p kind since) = s_ByBucket (dp_summary (dp ds))"
  unfolding dp_def by (simp_all add: summarize_def Let_def fold_scope)

definition production :: "string \<Rightarrow> string \<Rightarrow> time \<Rightarrow> route_decision \<Rightarrow> bool" where
  "production t p since d \<longleftrightarrow> in_scope t p since d \<and> d_Bucket d \<noteq> ''shadow''"

lemma fold_counts:
  fixes a :: decision_pass
  defines "b \<equiv> \<lambda>ds. foldl (\<lambda>a d. count_decision d a) a ds"
  shows "s_Requests (dp_summary (b ds)) =
      s_Requests (dp_summary a) + int (length (filter (\<lambda>d. d_Bucket d \<noteq> ''shadow'') ds))"
    and "s_ShadowRequests (dp_summary (b ds)) =
      s_ShadowRequests (dp_summary a) + int (length (filter (\<lambda>d. d_Bucket d = ''shadow'') ds))"
    and "s_ControlRequests (dp_summary (b ds)) =
      s_ControlRequests (dp_summary a) + int (length (filter (\<lambda>d. d_Bucket d = ''control'') ds))"
    and "s_RoutedRequests (dp_summary (b ds)) = s_RoutedRequests (dp_summary a) +
      int (length (filter (\<lambda>d. d_Bucket d \<noteq> ''shadow'' \<and> d_SelectedModel d \<noteq> d_IncumbentModel d) ds))"
    and "lookup_zero 0 (s_ByBucket (dp_summary (b ds))) k =
      lookup_zero 0 (s_ByBucket (dp_summary a)) k + int (length (filter (\<lambda>d. d_Bucket d = k) ds))"
    and "s_ActualCostUSD (dp_summary (b ds)) = foldl (\<lambda>c d. fadd c (billed_cost d)) (s_ActualCostUSD (dp_summary a))
      (filter (\<lambda>d. d_Bucket d \<noteq> ''shadow'') ds)"
    and "s_EstimatedCostUSD (dp_summary (b ds)) = foldl (\<lambda>c d. fadd c (d_EstimatedCostUSD d))
      (s_EstimatedCostUSD (dp_summary a)) (filter (\<lambda>d. d_Bucket d \<noteq> ''shadow'') ds)"
    and "s_IncumbentCostUSD (dp_summary (b ds)) = foldl (\<lambda>c d. fadd c (d_IncumbentEstimatedCostUSD d))
      (s_IncumbentCostUSD (dp_summary a)) (filter (\<lambda>d. d_Bucket d \<noteq> ''shadow'') ds)"
  unfolding b_def
  by (induction ds arbitrary: a) (simp_all add: count_decision_fields lookup_zero_update)

text \<open>C38: The audit counts every production decision of the tenant and policy in the window once: requests
  are the non-shadow decisions, control and routed requests those in the control bucket and those
  not sent to the incumbent, and each bucket's count is the number of its decisions.\<close>

theorem summary_counts:
  "s_Requests (summarize visit now ds os t p kind since) =
     int (length (filter (\<lambda>d. in_scope t p since d \<and> d_Bucket d \<noteq> ''shadow'') ds)) \<and>
   s_ShadowRequests (summarize visit now ds os t p kind since) =
     int (length (filter (\<lambda>d. in_scope t p since d \<and> d_Bucket d = ''shadow'') ds)) \<and>
   s_ControlRequests (summarize visit now ds os t p kind since) =
     int (length (filter (\<lambda>d. in_scope t p since d \<and> d_Bucket d = ''control'') ds)) \<and>
   s_RoutedRequests (summarize visit now ds os t p kind since) =
     int (length (filter (\<lambda>d. in_scope t p since d \<and> d_Bucket d \<noteq> ''shadow'' \<and>
       d_SelectedModel d \<noteq> d_IncumbentModel d) ds)) \<and>
   lookup_zero 0 (s_ByBucket (summarize visit now ds os t p kind since)) b =
     int (length (filter (\<lambda>d. in_scope t p since d \<and> d_Bucket d = b) ds))"
  unfolding summarize_fields fold_counts
  by (simp add: initial_summary_def lookup_zero_def conj_commute)

text \<open>Shadow traffic is never billed to the audit: the three costs are the sums, in binary64 and in the
  order the decisions are visited, over the non-shadow decisions in scope, each with its actual
  cost where one was recorded and its estimate otherwise.\<close>

theorem summary_costs:
  "s_ActualCostUSD (summarize visit now ds os t p kind since) =
     foldl (\<lambda>c d. fadd c (billed_cost d)) (Fin 0) (filter (production t p since) ds) \<and>
   s_EstimatedCostUSD (summarize visit now ds os t p kind since) =
     foldl (\<lambda>c d. fadd c (d_EstimatedCostUSD d)) (Fin 0) (filter (production t p since) ds) \<and>
   s_IncumbentCostUSD (summarize visit now ds os t p kind since) =
     foldl (\<lambda>c d. fadd c (d_IncumbentEstimatedCostUSD d)) (Fin 0) (filter (production t p since) ds)"
proof -
  have "filter (\<lambda>d. d_Bucket d \<noteq> ''shadow'') (filter (in_scope t p since) ds) = filter (production t p since) ds"
    by (auto simp: production_def conj_commute intro: filter_cong)
  then show ?thesis unfolding summarize_fields fold_counts by (simp add: initial_summary_def)
qed

subsection \<open>One outcome per trace\<close>

definition trace_arm :: "route_decision list \<Rightarrow> string \<Rightarrow> string option" where
  "trace_arm ds tr =
     (if \<exists>d\<in>set ds. d_TraceID d = tr \<and> d_Bucket d \<in> {''treatment'', ''exploration''} then Some ''treatment''
      else if \<exists>d\<in>set ds. d_TraceID d = tr \<and> d_Bucket d \<noteq> ''shadow'' then Some ''control'' else None)"

lemma trace_arm_snoc:
  "trace_arm (ds @ [d]) tr =
     (if d_TraceID d = tr \<and> d_Bucket d \<in> {''treatment'', ''exploration''} then Some ''treatment''
      else if d_TraceID d = tr \<and> d_Bucket d \<noteq> ''shadow'' \<and> trace_arm ds tr = None then Some ''control''
      else trace_arm ds tr)"
  by (auto simp: trace_arm_def)

lemma fold_trace_arm:
  assumes "dp_traceBuckets a = []"
  shows "map_of (dp_traceBuckets (foldl (\<lambda>a d. count_decision d a) a ds)) tr = trace_arm ds tr"
proof (induction ds rule: rev_induct)
  case Nil
  then show ?case using assms by (simp add: trace_arm_def)
next
  case (snoc d ds)
  then show ?case
    by (auto simp: count_decision_fields trace_arm_snoc map_of_AList_update)
qed

text \<open>The trace an outcome is counted for.\<close>

definition outcome_trace :: "route_decision gomap \<Rightarrow> outcome \<Rightarrow> string" where
  "outcome_trace decisions out =
     (if o_TraceID out \<noteq> [] then o_TraceID out
      else if o_DecisionID out \<noteq> [] then (case map_of decisions (o_DecisionID out) of
             None \<Rightarrow> [] | Some d \<Rightarrow> d_TraceID d)
      else [])"

lemma count_outcome_primary:
  "op_primaryByTrace (count_outcome decisions out v a) =
     (if outcome_trace decisions out = [] then op_primaryByTrace a
      else AList.update (outcome_trace decisions out) v (op_primaryByTrace a))"
  by (auto simp: count_outcome_def outcome_trace_def Let_def split: option.splits)

lemma fold_primary:
  assumes "op_primaryByTrace a = []"
  shows "wf_gomap (op_primaryByTrace (foldl (\<lambda>a out. count_outcome decisions out (v out) a) a os)) \<and>
    fst ` set (op_primaryByTrace (foldl (\<lambda>a out. count_outcome decisions out (v out) a) a os)) =
      outcome_trace decisions ` set os - {[]}"
proof (induction os rule: rev_induct)
  case Nil
  then show ?case using assms by simp
next
  case (snoc out os)
  then show ?case by (auto simp: count_outcome_primary update_keys dom_update image_insert)
qed

lemma fold_arms:
  "ar_treatmentN (foldl (count_trace bs) a ps) = ar_treatmentN a +
     int (length (filter (\<lambda>p. map_of bs (fst p) = Some ''treatment'') ps))"
  "ar_controlN (foldl (count_trace bs) a ps) = ar_controlN a +
     int (length (filter (\<lambda>p. map_of bs (fst p) = Some ''control'') ps))"
  by (induction ps arbitrary: a) (auto simp: count_trace_def lookup_zero_def Let_def split: option.splits)

lemma i_N_wilson [simp]: "i_N (wilson s n z) = n"
  by (simp add: wilson_def zero_interval_def Let_def)

definition scope_decisions :: "string \<Rightarrow> string \<Rightarrow> time \<Rightarrow> route_decision list \<Rightarrow> route_decision gomap" where
  "scope_decisions t p since ds = foldl (\<lambda>m d. AList.update (d_ID d) d m) [] (filter (in_scope t p since) ds)"

lemma fold_decisions:
  "dp_decisions (foldl (\<lambda>a d. count_decision d a) a ds) = foldl (\<lambda>m d. AList.update (d_ID d) d m) (dp_decisions a) ds"
  by (induction ds arbitrary: a) (simp_all add: count_decision_fields)

text \<open>The traces with a counted outcome that belong to one arm.\<close>

definition arm_traces ::
  "string \<Rightarrow> string \<Rightarrow> string \<Rightarrow> time \<Rightarrow> route_decision list \<Rightarrow> outcome list \<Rightarrow> string \<Rightarrow> string set" where
  "arm_traces t p kind since ds os arm =
     {tr \<in> outcome_trace (scope_decisions t p since ds) ` set (filter (counted t kind since) os).
        tr \<noteq> [] \<and> trace_arm (filter (in_scope t p since) ds) tr = Some arm}"

lemma length_filter_keys:
  assumes "mset xs = mset m" and "wf_gomap m"
  shows "length (filter (\<lambda>q. P (fst q)) xs) = card {k \<in> fst ` set m. P k}"
proof -
  have "length (filter (\<lambda>q. P (fst q)) xs) = length (filter (\<lambda>q. P (fst q)) m)"
    using assms(1) by (metis mset_filter size_mset)
  also have "\<dots> = length (map fst (filter (\<lambda>q. P (fst q)) m))" by simp
  also have "\<dots> = card (set (map fst (filter (\<lambda>q. P (fst q)) m)))"
    using assms(2) distinct_card distinct_map_filter unfolding wf_gomap_def by metis
  also have "set (map fst (filter (\<lambda>q. P (fst q)) m)) = {k \<in> fst ` set m. P k}" by force
  finally show ?thesis .
qed

text \<open>C16: Each arm of the audit counts a trace at most once, however many calls and outcome events it has:
  its size is the number of distinct traces with a counted outcome, a trace being treatment as
  soon as one of its calls was, and control if it has only other production calls.\<close>

theorem one_outcome_per_trace:
  assumes "\<And>ps. mset (visit ps) = mset ps"
  shows "i_N (s_TreatmentOutcome (summarize visit now ds os t p kind since)) =
      int (card (arm_traces t p kind since ds os ''treatment'')) \<and>
    i_N (s_ControlOutcome (summarize visit now ds os t p kind since)) =
      int (card (arm_traces t p kind since ds os ''control''))"
proof -
  let ?dp = "foldl (\<lambda>a d. count_decision d a) \<lparr>dp_summary = initial_summary t p kind since now, dp_decisions = [],
     dp_traceBuckets = []\<rparr> (filter (in_scope t p since) ds)"
  let ?op = "foldl (\<lambda>a out. count_outcome (scope_decisions t p since ds) out (fst (NumericValue out)) a)
     \<lparr>op_ByModel = s_ByModel (dp_summary ?dp), op_primaryByTrace = []\<rparr> (filter (counted t kind since) os)"
  have dec: "dp_decisions ?dp = scope_decisions t p since ds" by (simp add: fold_decisions scope_decisions_def)
  have op: "wf_gomap (op_primaryByTrace ?op)"
    "fst ` set (op_primaryByTrace ?op) =
      outcome_trace (scope_decisions t p since ds) ` set (filter (counted t kind since) os) - {[]}"
    using fold_primary [of "\<lparr>op_ByModel = s_ByModel (dp_summary ?dp), op_primaryByTrace = []\<rparr>"] by auto
  have bs: "map_of (dp_traceBuckets ?dp) tr = trace_arm (filter (in_scope t p since) ds) tr" for tr
    by (rule fold_trace_arm) simp
  have n: "int (length (filter (\<lambda>q. map_of (dp_traceBuckets ?dp) (fst q) = Some arm) (visit (op_primaryByTrace ?op)))) =
      int (card (arm_traces t p kind since ds os arm))" for arm
  proof -
    have "{k \<in> fst ` set (op_primaryByTrace ?op). trace_arm (filter (in_scope t p since) ds) k = Some arm} =
        arm_traces t p kind since ds os arm"
      unfolding op(2) arm_traces_def by blast
    then show ?thesis
      unfolding bs length_filter_keys [OF assms op(1), of "\<lambda>k. trace_arm (filter (in_scope t p since) ds) k = Some arm"]
      by simp
  qed
  show ?thesis
    unfolding summarize_def Let_def fold_scope fold_outcome_scope dec
    by (simp add: fold_arms n)
qed

subsection \<open>Summaries of the sample ledger\<close>

definition sample_shadow :: route_decision where
  "sample_shadow = sample_decision\<lparr>d_ID := ''dec_2'', d_ParentDecisionID := ''dec_1'', d_SelectedModel := ''economy'',
     d_FinalModel := ''economy'', d_Bucket := ''shadow''\<rparr>"

definition sample_outcome :: outcome where
  "sample_outcome = \<lparr>o_ID = ''out_1'', o_TenantID = ''tenant'', o_DecisionID = ''dec_2'', o_TraceID = [],
     o_Type = ''resolution'', o_Value = Some (JBool False), o_OccurredAt = 150, o_Metadata = [], o_CreatedAt = 150\<rparr>"

lemma i_Estimate_wilson: "i_Estimate (wilson s n z) = (if n = 0 then Fin 0 else fdiv s (f64_of_int n))"
  by (simp add: wilson_def zero_interval_def Let_def)

lemmas summary_eval = summarize_def Let_def summary_decision_scope summary_outcome_scope in_scope_def outcome_in_scope_def
  NumericValue_def count_decision_fields count_outcome_primary outcome_trace_def count_trace_def i_Estimate_wilson f64_of_int_small
  initial_summary_def lookup_zero_def served_model_def

theorem one_outcome_per_trace_witness:
  "i_N (s_TreatmentOutcome (summarize rev 200 [sample_decision, sample_decision\<lparr>d_ID := ''dec_3''\<rparr>]
     [sample_outcome\<lparr>o_DecisionID := ''dec_1''\<rparr>, sample_outcome\<lparr>o_DecisionID := ''dec_3''\<rparr>]
     ''tenant'' [] ''resolution'' 50)) = 1"
proof -
  let ?ds = "[sample_decision, sample_decision\<lparr>d_ID := ''dec_3''\<rparr>]"
  let ?os = "[sample_outcome\<lparr>o_DecisionID := ''dec_1''\<rparr>, sample_outcome\<lparr>o_DecisionID := ''dec_3''\<rparr>]"
  have "arm_traces ''tenant'' [] ''resolution'' 50 ?ds ?os ''treatment'' = {''trace-1''}"
    by (auto simp: arm_traces_def scope_decisions_def in_scope_def counted_def outcome_in_scope_def
        NumericValue_def outcome_trace_def trace_arm_def sample_decision_def sample_outcome_def)
  then show ?thesis
    using conjunct1 [OF one_outcome_per_trace [of rev 200 ?ds ?os "''tenant''" "[]" "''resolution''" 50]] by simp
qed

text \<open>An outcome reported on a shadow decision - a response the user never saw - is counted as the
  production outcome of the trace: a failing label on a shadow answer turns the treatment arm's
  success estimate to 0 although no production outcome was reported.\<close>

theorem shadow_label_counts_for_trace:
  "i_N (s_TreatmentOutcome (summarize rev 200 [sample_decision, sample_shadow] [] ''tenant'' [] ''resolution'' 50)) = 0 \<and>
   i_N (s_TreatmentOutcome (summarize rev 200 [sample_decision, sample_shadow] [sample_outcome]
     ''tenant'' [] ''resolution'' 50)) = 1 \<and>
   i_Estimate (s_TreatmentOutcome (summarize rev 200 [sample_decision, sample_shadow] [sample_outcome]
     ''tenant'' [] ''resolution'' 50)) = Fin 0"
  by (simp add: summary_eval sample_decision_def sample_outcome_def sample_shadow_def)

text \<open>The control arm of the audit is not the randomized control: every production decision outside the
  treatment arm is put into it, here one served by the incumbent because its policy had drifted,
  while the summary reports no control request.\<close>

theorem incumbent_counts_as_control:
  "s_ControlRequests (summarize rev 200 [sample_decision\<lparr>d_Bucket := ''incumbent'', d_FallbackReason := ''policy_drifted''\<rparr>]
     [sample_outcome\<lparr>o_DecisionID := ''dec_1''\<rparr>] ''tenant'' [] ''resolution'' 50) = 0 \<and>
   i_N (s_ControlOutcome (summarize rev 200 [sample_decision\<lparr>d_Bucket := ''incumbent'', d_FallbackReason := ''policy_drifted''\<rparr>]
     [sample_outcome\<lparr>o_DecisionID := ''dec_1''\<rparr>] ''tenant'' [] ''resolution'' 50)) = 1"
  by (simp add: summary_eval sample_decision_def sample_outcome_def sample_shadow_def)

end
