(* ===== verification/Postgres.thy ===== *)
theory Postgres
  imports AuditSummary
begin

text \<open>
  The PostgreSQL store (\<^verbatim>\<open>internal/store/postgres.go\<close>): its three tables and the statements the
  code sends. A table is an association list from the primary key to the other columns. The
  database decides whether a statement succeeds (\<open>io\<close>), and in which order, and how far, the
  rows of a query without an \<^verbatim>\<open>ORDER BY\<close> arrive (\<open>fetch\<close>). The \<^verbatim>\<open>data\<close> columns hold the JSON of
  the record they were written from and decode to it.
\<close>

subsection \<open>Tables\<close>

text \<open>A \<^verbatim>\<open>TIMESTAMPTZ\<close> holds microseconds.\<close>

definition timestamptz :: "time \<Rightarrow> int" where
  "timestamptz t = t div 1000"

record decision_row =
  dr_tenant_id :: string
  dr_trace_id :: string
  dr_policy_id :: string
  dr_policy_version :: string
  dr_selected_model :: string
  dr_final_model :: string
  dr_bucket :: string
  dr_estimated_cost_usd :: float64
  dr_actual_cost_usd :: float64
  dr_created_at :: int
  dr_data :: route_decision

record outcome_row =
  or_tenant_id :: string
  or_decision_id :: "string option"
  or_trace_id :: "string option"
  or_outcome_type :: string
  or_occurred_at :: int
  or_created_at :: int
  or_data :: outcome

record policy_row =
  por_tenant_id :: string
  por_version :: string
  por_created_at :: int
  por_data :: policy

record postgres_store =
  pg_decisions :: "decision_row gomap"
  pg_outcomes :: "outcome_row gomap"
  pg_policies :: "policy_row gomap"

subsection \<open>Statements\<close>

definition decision_columns :: "route_decision \<Rightarrow> decision_row" where
  "decision_columns d =
     \<lparr>dr_tenant_id = d_TenantID d, dr_trace_id = d_TraceID d, dr_policy_id = d_PolicyID d,
      dr_policy_version = d_PolicyVersion d, dr_selected_model = d_SelectedModel d,
      dr_final_model = d_FinalModel d, dr_bucket = d_Bucket d,
      dr_estimated_cost_usd = d_EstimatedCostUSD d, dr_actual_cost_usd = d_ActualCostUSD d,
      dr_created_at = timestamptz (d_CreatedAt d), dr_data = d\<rparr>"

text \<open>\<^verbatim>\<open>ON CONFLICT (id) DO UPDATE SET\<close> rewrites five columns of the row that is there.\<close>

definition PG_SaveDecision :: "bool \<Rightarrow> route_decision \<Rightarrow> postgres_store \<Rightarrow> bool \<times> postgres_store" where
  "PG_SaveDecision io d db =
     (if \<not> io then (False, db)
      else (True, db\<lparr>pg_decisions := AList.update (d_ID d)
        (case map_of (pg_decisions db) (d_ID d) of
           None \<Rightarrow> decision_columns d
         | Some row \<Rightarrow> row\<lparr>dr_final_model := d_FinalModel d, dr_bucket := d_Bucket d,
             dr_estimated_cost_usd := d_EstimatedCostUSD d, dr_actual_cost_usd := d_ActualCostUSD d,
             dr_data := d\<rparr>)
        (pg_decisions db)\<rparr>))"

definition nullif_empty :: "string \<Rightarrow> string option" where
  "nullif_empty s = (if s = [] then None else Some s)"

text \<open>\<^verbatim>\<open>DO NOTHING\<close> on a known id; the table's check wants a decision or a trace.\<close>

definition PG_SaveOutcome :: "bool \<Rightarrow> outcome \<Rightarrow> postgres_store \<Rightarrow> bool \<times> postgres_store" where
  "PG_SaveOutcome io out db =
     (if \<not> io \<or> (nullif_empty (o_DecisionID out) = None \<and> nullif_empty (o_TraceID out) = None) then (False, db)
      else if map_of (pg_outcomes db) (o_ID out) \<noteq> None then (True, db)
      else (True, db\<lparr>pg_outcomes := AList.update (o_ID out)
        \<lparr>or_tenant_id = o_TenantID out, or_decision_id = nullif_empty (o_DecisionID out),
         or_trace_id = nullif_empty (o_TraceID out), or_outcome_type = o_Type out,
         or_occurred_at = timestamptz (o_OccurredAt out), or_created_at = timestamptz (o_CreatedAt out),
         or_data = out\<rparr> (pg_outcomes db)\<rparr>))"

definition PG_GetDecision :: "bool \<Rightarrow> postgres_store \<Rightarrow> string \<Rightarrow> string \<Rightarrow> route_decision option" where
  "PG_GetDecision io db tenantID decisionID =
     (if \<not> io then None
      else case map_of (pg_decisions db) decisionID of
        None \<Rightarrow> None
      | Some row \<Rightarrow> if dr_tenant_id row = tenantID then Some (dr_data row) else None)"

definition failed_summary :: "string \<Rightarrow> string \<Rightarrow> time \<Rightarrow> time \<Rightarrow> audit_summary" where
  "failed_summary tenantID policyID since now = initial_summary tenantID policyID [] since now"

text \<open>\<open>io\<close> and \<open>io'\<close>: the two queries succeed. Errors that end a result early go unnoticed.\<close>

definition PG_Summary ::
  "bool \<Rightarrow> bool \<Rightarrow> (decision_row gomap \<Rightarrow> decision_row gomap) \<Rightarrow> (outcome_row gomap \<Rightarrow> outcome_row gomap) \<Rightarrow>
   ((string \<times> float64) list \<Rightarrow> (string \<times> float64) list) \<Rightarrow> time \<Rightarrow>
   postgres_store \<Rightarrow> string \<Rightarrow> string \<Rightarrow> string \<Rightarrow> time \<Rightarrow> audit_summary" where
  "PG_Summary io io' fetch fetch' visit now db tenantID policyID primaryOutcome since =
     (if \<not> io then failed_summary tenantID policyID since now
      else let decisions = map (dr_data \<circ> snd) (fetch (filter (\<lambda>(i, row). dr_tenant_id row = tenantID \<and>
                 timestamptz since \<le> dr_created_at row \<and> (policyID \<noteq> [] \<longrightarrow> dr_policy_id row = policyID))
                 (pg_decisions db)))
           in if \<not> io' then summarize visit now decisions [] tenantID policyID primaryOutcome since
              else summarize visit now decisions
                (map (or_data \<circ> snd) (fetch' (filter (\<lambda>(i, row). or_tenant_id row = tenantID \<and>
                   timestamptz since \<le> or_created_at row \<and> or_outcome_type row = primaryOutcome)
                   (pg_outcomes db))))
                tenantID policyID primaryOutcome since)"

definition PG_SavePolicy :: "bool \<Rightarrow> policy \<Rightarrow> postgres_store \<Rightarrow> bool \<times> postgres_store" where
  "PG_SavePolicy io p db =
     (if \<not> io then (False, db)
      else (True, db\<lparr>pg_policies := AList.update (p_ID p)
        (case map_of (pg_policies db) (p_ID p) of
           None \<Rightarrow> \<lparr>por_tenant_id = p_TenantID p, por_version = p_Version p,
                    por_created_at = timestamptz (p_CreatedAt p), por_data = p\<rparr>
         | Some row \<Rightarrow> row\<lparr>por_version := p_Version p, por_created_at := timestamptz (p_CreatedAt p),
                           por_data := p\<rparr>)
        (pg_policies db)\<rparr>))"

text \<open>\<open>order_by_id\<close> is the database's sort by its collation; \<open>None\<close> is an error.\<close>

definition PG_LoadPolicies ::
  "bool \<Rightarrow> (policy_row gomap \<Rightarrow> policy_row gomap) \<Rightarrow> postgres_store \<Rightarrow> policy list option" where
  "PG_LoadPolicies io order_by_id db =
     (if \<not> io then None else Some (map (por_data \<circ> snd) (order_by_id (pg_policies db))))"

subsection \<open>The ledger contract\<close>

text \<open>An upsert keeps the tenant column, so the contract holds for decisions that keep their tenant.\<close>

definition same_tenant :: "route_decision \<Rightarrow> postgres_store \<Rightarrow> bool" where
  "same_tenant d db \<longleftrightarrow>
     (case map_of (pg_decisions db) (d_ID d) of None \<Rightarrow> True | Some row \<Rightarrow> dr_tenant_id row = d_TenantID d)"

interpretation pg_ledger: decision_ledger "PG_SaveDecision io" "PG_GetDecision True" same_tenant for io
  by unfold_locales
    (auto simp: PG_SaveDecision_def PG_GetDecision_def same_tenant_def decision_columns_def map_of_AList_update
      split: option.splits)

subsection \<open>The two stores give the same audit\<close>

text \<open>What a database row says of a decision and an outcome of the file store.\<close>

definition row_of_decision :: "route_decision \<Rightarrow> decision_row \<Rightarrow> bool" where
  "row_of_decision d row \<longleftrightarrow> dr_data row = d \<and> dr_tenant_id row = d_TenantID d \<and>
     dr_policy_id row = d_PolicyID d \<and> dr_created_at row = timestamptz (d_CreatedAt d)"

definition row_of_outcome :: "outcome \<Rightarrow> outcome_row \<Rightarrow> bool" where
  "row_of_outcome out row \<longleftrightarrow> or_data row = out \<and> or_tenant_id row = o_TenantID out \<and>
     or_outcome_type row = o_Type out \<and> or_created_at row = timestamptz (o_CreatedAt out)"

text \<open>The abstraction relation between the two stores.\<close>

definition mirrors :: "postgres_store \<Rightarrow> file_store \<Rightarrow> bool" where
  "mirrors db s \<longleftrightarrow>
     list_all2 (\<lambda>(i, row) (j, d). i = j \<and> row_of_decision d row) (pg_decisions db) (fs_decisions s) \<and>
     list_all2 (\<lambda>(i, row) out. i = o_ID out \<and> row_of_outcome out row) (pg_outcomes db) (fs_outcomes s)"

lemma mirrors_update:
  assumes "list_all2 (\<lambda>(i, row) (j, d). i = j \<and> P d row) m m'" and "P d row"
  shows "list_all2 (\<lambda>(i, row) (j, d). i = j \<and> P d row) (AList.update k row m) (AList.update k d m')"
  using assms by (induction m m' rule: list_all2_induct) auto

lemma mirrors_lookup:
  assumes "list_all2 (\<lambda>(i, row) (j, d). i = j \<and> P d row) m m'"
  shows "rel_option (\<lambda>row d. P d row) (map_of m k) (map_of m' k)"
  using assms by (induction m m' rule: list_all2_induct) auto

lemma update_fresh: "map_of m k = None \<Longrightarrow> AList.update k v m = m @ [(k, v)]"
  by (induction m) (auto split: if_splits)

text \<open>What the server does with a store: a decision is saved again under its id with the same
  tenant, policy and creation time, an outcome is new.\<close>

datatype save = OfDecision route_decision | OfOutcome outcome

fun file_save :: "save \<Rightarrow> file_store \<Rightarrow> file_store" where
  "file_save (OfDecision d) s = snd (SaveDecision True d s)"
| "file_save (OfOutcome out) s = snd (SaveOutcome True out s)"

fun pg_save :: "save \<Rightarrow> postgres_store \<Rightarrow> postgres_store" where
  "pg_save (OfDecision d) db = snd (PG_SaveDecision True d db)"
| "pg_save (OfOutcome out) db = snd (PG_SaveOutcome True out db)"

definition same_columns :: "route_decision \<Rightarrow> route_decision \<Rightarrow> bool" where
  "same_columns d e \<longleftrightarrow> d_TenantID d = d_TenantID e \<and> d_PolicyID d = d_PolicyID e \<and> d_CreatedAt d = d_CreatedAt e"

fun admissible :: "file_store \<Rightarrow> save \<Rightarrow> bool" where
  "admissible s (OfDecision d) \<longleftrightarrow>
     (case map_of (fs_decisions s) (d_ID d) of None \<Rightarrow> True | Some e \<Rightarrow> same_columns d e)"
| "admissible s (OfOutcome out) \<longleftrightarrow>
     o_ID out \<notin> o_ID ` set (fs_outcomes s) \<and> (o_DecisionID out \<noteq> [] \<or> o_TraceID out \<noteq> [])"

fun all_admissible :: "file_store \<Rightarrow> save list \<Rightarrow> bool" where
  "all_admissible s [] \<longleftrightarrow> True"
| "all_admissible s (x # xs) \<longleftrightarrow> admissible s x \<and> all_admissible (file_save x s) xs"

lemma SaveDecision_decisions:
  "fs_decisions (snd (SaveDecision True d s)) = AList.update (d_ID d) d (fs_decisions s)"
  "fs_outcomes (snd (SaveDecision True d s)) = fs_outcomes s"
  by (cases "fs_decisionLog s"; simp add: SaveDecision_def)+

lemma SaveOutcome_outcomes:
  "fs_outcomes (snd (SaveOutcome True out s)) = fs_outcomes s @ [out]"
  "fs_decisions (snd (SaveOutcome True out s)) = fs_decisions s"
  by (cases "fs_outcomeLog s"; simp add: SaveOutcome_def)+

lemma mirrors_save:
  assumes "mirrors db s" and "admissible s x"
  shows "mirrors (pg_save x db) (file_save x s)"
proof (cases x)
  case (OfDecision d)
  define row where "row = (case map_of (pg_decisions db) (d_ID d) of
           None \<Rightarrow> decision_columns d
         | Some row \<Rightarrow> row\<lparr>dr_final_model := d_FinalModel d, dr_bucket := d_Bucket d,
             dr_estimated_cost_usd := d_EstimatedCostUSD d, dr_actual_cost_usd := d_ActualCostUSD d,
             dr_data := d\<rparr>)"
  have "rel_option (\<lambda>row d. row_of_decision d row) (map_of (pg_decisions db) (d_ID d)) (map_of (fs_decisions s) (d_ID d))"
    using assms(1) by (auto simp: mirrors_def intro: mirrors_lookup)
  then have "row_of_decision d row"
    using assms(2) OfDecision
    by (cases rule: option.rel_cases) (auto simp: row_def row_of_decision_def decision_columns_def same_columns_def)
  then show ?thesis
    using assms(1) OfDecision
    by (auto simp: mirrors_def PG_SaveDecision_def SaveDecision_decisions row_def [symmetric] intro: mirrors_update)
next
  case (OfOutcome out)
  have rows: "list_all2 (\<lambda>(i, row) out. i = o_ID out \<and> row_of_outcome out row) (pg_outcomes db) (fs_outcomes s)"
    using assms(1) by (simp add: mirrors_def)
  then have "fst ` set (pg_outcomes db) = o_ID ` set (fs_outcomes s)"
    by (induction rule: list_all2_induct) auto
  then have "map_of (pg_outcomes db) (o_ID out) = None"
    using assms(2) OfOutcome by (simp add: map_of_eq_None_iff)
  then show ?thesis
    using assms OfOutcome rows
    by (auto simp: mirrors_def PG_SaveOutcome_def SaveOutcome_outcomes nullif_empty_def update_fresh
        row_of_outcome_def intro!: list_all2_appendI)
qed

lemma mirrors_saves:
  "mirrors db s \<Longrightarrow> all_admissible s xs \<Longrightarrow> mirrors (fold pg_save xs db) (fold file_save xs s)"
  by (induction xs arbitrary: db s) (auto intro: mirrors_save)

lemma map_filter_rows:
  assumes "list_all2 R xs ys" and "\<And>x y. R x y \<Longrightarrow> f x = g y \<and> (P x \<longleftrightarrow> Q y)"
  shows "map f (filter P xs) = map g (filter Q ys)"
  using assms(1) by (induction rule: list_all2_induct) (auto dest: assms(2))

lemma timestamptz_mono: "t \<le> u \<Longrightarrow> timestamptz t \<le> timestamptz u"
  by (simp add: timestamptz_def zdiv_mono1)

lemma mirrors_Summary:
  assumes "mirrors db s"
  shows "PG_Summary True True id id visit now db t p kind since = Summary id visit now s t p kind since"
proof -
  let ?P = "\<lambda>d. d_TenantID d = t \<and> timestamptz since \<le> timestamptz (d_CreatedAt d) \<and> (p \<noteq> [] \<longrightarrow> d_PolicyID d = p)"
  let ?Q = "\<lambda>out. o_TenantID out = t \<and> timestamptz since \<le> timestamptz (o_CreatedAt out) \<and> o_Type out = kind"
  have "map (dr_data \<circ> snd) (filter (\<lambda>(i, row). dr_tenant_id row = t \<and>
           timestamptz since \<le> dr_created_at row \<and> (p \<noteq> [] \<longrightarrow> dr_policy_id row = p)) (pg_decisions db)) =
        map snd (filter (?P \<circ> snd) (fs_decisions s))"
    using assms by (intro map_filter_rows [where R = "\<lambda>(i, row) (j, d). i = j \<and> row_of_decision d row"])
      (auto simp: mirrors_def row_of_decision_def)
  then have ds: "map (dr_data \<circ> snd) (filter (\<lambda>(i, row). dr_tenant_id row = t \<and>
           timestamptz since \<le> dr_created_at row \<and> (p \<noteq> [] \<longrightarrow> dr_policy_id row = p)) (pg_decisions db)) =
        filter ?P (map snd (fs_decisions s))"
    by (simp only: filter_map)
  have "map (or_data \<circ> snd) (filter (\<lambda>(i, row). or_tenant_id row = t \<and>
           timestamptz since \<le> or_created_at row \<and> or_outcome_type row = kind) (pg_outcomes db)) =
        map id (filter ?Q (fs_outcomes s))"
    using assms by (intro map_filter_rows [where R = "\<lambda>(i, row) out. i = o_ID out \<and> row_of_outcome out row"])
      (auto simp: mirrors_def row_of_outcome_def)
  with ds show ?thesis
    by (simp add: PG_Summary_def Summary_def)
      (rule summarize_filter; auto simp: in_scope_def outcome_in_scope_def timestamptz_mono not_less)
qed

definition empty_postgres :: postgres_store where
  "empty_postgres = \<lparr>pg_decisions = [], pg_outcomes = [], pg_policies = []\<rparr>"

definition empty_files :: file_store where
  "empty_files = \<lparr>fs_decisions = [], fs_outcomes = [], fs_policies = [],
     fs_decisionLog = Missing, fs_outcomeLog = Missing, fs_policyLog = Missing\<rparr>"

lemma mirrors_empty: "mirrors empty_postgres empty_files"
  by (simp add: mirrors_def empty_postgres_def empty_files_def)

lemma mirrors_GetDecision: "mirrors db s \<Longrightarrow> PG_GetDecision True db t i = GetDecision s t i"
  using mirrors_lookup [of row_of_decision "pg_decisions db" "fs_decisions s" i]
  by (auto simp: mirrors_def PG_GetDecision_def GetDecision_def row_of_decision_def
      split: option.splits elim: option.rel_cases)



subsection \<open>Publications\<close>

definition stored_policies :: "postgres_store \<Rightarrow> policy gomap" where
  "stored_policies db = map (\<lambda>(i, row). (i, por_data row)) (pg_policies db)"

lemma map_snd_update:
  "map (\<lambda>(i, row). (i, f row)) (AList.update k row m) = AList.update k (f row) (map (\<lambda>(i, row). (i, f row)) m)"
  by (induction m) auto

lemma stored_policies_save:
  "stored_policies (snd (PG_SavePolicy io p db)) =
     (if io then AList.update (p_ID p) p (stored_policies db) else stored_policies db)"
  by (simp add: PG_SavePolicy_def stored_policies_def map_snd_update split: option.split)

text \<open>A database whose \<^verbatim>\<open>ORDER BY\<close> returns the rows of the table in some order.\<close>

locale listing_database =
  fixes order_by_id :: "policy_row gomap \<Rightarrow> policy_row gomap"
  assumes rows: "mset (order_by_id t) = mset t"
begin

abbreviation listed :: "postgres_store \<Rightarrow> policy list" where
  "listed db \<equiv> the (PG_LoadPolicies True order_by_id db)"

lemma mset_listed: "mset (listed db) = mset (map snd (stored_policies db))"
proof -
  have "mset (map (por_data \<circ> snd) (order_by_id (pg_policies db))) = mset (map (por_data \<circ> snd) (pg_policies db))"
    unfolding mset_map rows ..
  then show ?thesis by (simp add: PG_LoadPolicies_def stored_policies_def comp_def case_prod_unfold)
qed

lemma map_of_listed:
  assumes "policies_ok (stored_policies db)"
  shows "map_of (map (\<lambda>q. (p_ID q, q)) (listed db)) = map_of (stored_policies db)"
    and "distinct (map p_ID (listed db))"
proof -
  have d: "distinct (map p_ID (map snd (stored_policies db)))"
    using assms by (rule policies_distinct)
  show "map_of (map (\<lambda>q. (p_ID q, q)) (listed db)) = map_of (stored_policies db)"
    using map_of_mset [OF mset_listed d] unfolding policies_ids [OF assms] .
  have "mset (map p_ID (listed db)) = mset (map p_ID (map snd (stored_policies db)))"
    unfolding mset_map mset_listed ..
  then show "distinct (map p_ID (listed db))"
    using d mset_eq_imp_distinct_iff by blast
qed

end

lemma fst_PG_SavePolicy [simp]: "fst (PG_SavePolicy io p db) = io"
  by (simp add: PG_SavePolicy_def)

sublocale listing_database \<subseteq> saver: policy_saver "PG_SavePolicy io" listed "\<lambda>db. policies_ok (stored_policies db)" for io
proof unfold_locales
  fix db p
  assume ok: "policies_ok (stored_policies db)"
  show saved: "policies_ok (stored_policies (snd (PG_SavePolicy io p db)))"
    using ok by (simp add: stored_policies_save policies_ok_update)
  show "map_of (map (\<lambda>q. (p_ID q, q)) (listed (snd (PG_SavePolicy io p db)))) =
      (map_of (map (\<lambda>q. (p_ID q, q)) (listed db)))(p_ID p \<mapsto> p)"
    if "fst (PG_SavePolicy io p db)"
    using that ok saved by (simp add: map_of_listed stored_policies_save update_conv')
  show "listed (snd (PG_SavePolicy io p db)) = listed db" if "\<not> fst (PG_SavePolicy io p db)"
    using that by (cases io) (simp_all, simp add: PG_SavePolicy_def)
  show "distinct (map p_ID (listed db))" using ok by (rule map_of_listed(2))
qed

interpretation insertion_database: listing_database "insertionSort (\<lambda>a b. string_less (fst a) (fst b))"
  by unfold_locales (rule mset_insertionSort)

text \<open>An outcome id seen before: the database keeps the first record, the file store both.\<close>

theorem duplicate_outcome_id:
  assumes "map_of (pg_outcomes db) (o_ID out) \<noteq> None" and "o_DecisionID out \<noteq> [] \<or> o_TraceID out \<noteq> []"
  shows "PG_SaveOutcome True out db = (True, db)"
    and "length (fs_outcomes (snd (SaveOutcome True out s))) = Suc (length (fs_outcomes s))"
  using assms by (auto simp: PG_SaveOutcome_def nullif_empty_def SaveOutcome_outcomes)

end
