(* ===== verification/JsonText.thy ===== *)
theory JsonText
  imports Json
begin

text \<open>
  Reading a JSON text is local: what a value is read to does not depend on what follows it, so the text of
  every member and element is itself a text of its value. The retained texts of a request can
  therefore be read, and written, again.
\<close>

subsection \<open>Runes and escapes look no further than their bytes\<close>

lemma decode_rune_valid:
  assumes "decode_rune (c # s) = (r, n)" and "\<not> (r = rune_error \<and> n = 1)"
  shows "0 < n" and "n \<le> Suc (length s)" and "decode_rune (take n (c # s) @ t) = (r, n)"
proof -
  have "0 < n \<and> n \<le> Suc (length s) \<and> decode_rune (take n (c # s) @ t) = (r, n)"
    using assms
    by (cases s rule: remdups_adj.cases; (simp add: Let_def split: if_splits list.splits)?)
      (auto simp: Let_def split: if_splits list.splits)
  then show "0 < n" and "n \<le> Suc (length s)" and "decode_rune (take n (c # s) @ t) = (r, n)" by blast+
qed

lemma decode_rune_cut:
  assumes "decode_rune (c # p @ r) = (u, n)" and "n - 1 \<le> length p" and "prefix r1 r"
  shows "decode_rune (c # p @ r1) = (u, n)"
proof (cases "u = rune_error \<and> n = 1")
  case False
  then have "0 < n" by (rule decode_rune_valid(1) [OF assms(1)])
  then have "take n (c # p @ r) @ drop (n - 1) p @ r1 = c # p @ r1"
    using assms(2) by (cases n) (simp_all add: append_assoc [symmetric] del: append_assoc)
  with decode_rune_valid(3) [OF assms(1) False, of "drop (n - 1) p @ r1"] show ?thesis by metis
next
  case True
  obtain u' n' where d: "decode_rune (c # p @ r1) = (u', n')" by (cases "decode_rune (c # p @ r1)")
  show ?thesis
  proof (rule ccontr)
    assume "decode_rune (c # p @ r1) \<noteq> (u, n)"
    then have v: "\<not> (u' = rune_error \<and> n' = 1)" using d True by simp
    obtain r2 where r: "r = r1 @ r2" using assms(3) by (auto elim: prefixE)
    have "take n' (c # p @ r1) @ drop n' (c # p @ r1) @ r2 = c # p @ r"
      unfolding append_assoc [symmetric] append_take_drop_id by (simp add: r)
    then have "decode_rune (c # p @ r) = (u', n')"
      using decode_rune_valid(3) [OF d v, of "drop n' (c # p @ r1) @ r2"] by simp
    then show False using assms(1) True v by simp
  qed
qed

lemma hex4_append: "4 \<le> length p \<Longrightarrow> hex4 (p @ t) = hex4 p"
  by (cases p rule: hex4.cases) simp_all

lemma hex4_Some: "hex4 s = Some h \<Longrightarrow> 4 \<le> length s"
  by (cases s rule: hex4.cases) simp_all

lemma low_surrogate_Some: "low_surrogate s = Some h \<Longrightarrow> 6 \<le> length s"
  by (auto simp: low_surrogate_def split: list.splits if_splits option.splits dest: hex4_Some)

lemma hex4_mono: "hex4 s = Some h \<Longrightarrow> hex4 (s @ t) = Some h"
  by (simp add: hex4_append hex4_Some)

lemma low_surrogate_append:
  assumes "low_surrogate s = Some h" shows "low_surrogate (s @ t) = Some h"
  using assms by (auto simp: low_surrogate_def hex4_mono split: list.splits if_splits option.splits)

lemma low_surrogate_cut: "6 \<le> length p \<Longrightarrow> low_surrogate (p @ t) = low_surrogate p"
  by (auto simp: low_surrogate_def hex4_append split: list.splits)

lemma escape_simple: "c \<noteq> CHR ''u'' \<Longrightarrow> escape (c # s) = escape (c # t)"
  by simp

lemma escape_width_le: "escape s = Some (out, k) \<Longrightarrow> k \<le> length s"
  by (cases s) (auto split: if_splits option.splits bool.splits dest: hex4_Some low_surrogate_Some)

lemma escape_cut:
  assumes "escape (p @ r) = Some (out, k)" and "k \<le> length p" and "prefix r1 r"
  shows "escape (p @ r1) = Some (out, k)"
proof (cases p)
  case Nil
  then show ?thesis using assms escape_width by fastforce
next
  case (Cons c q)
  obtain r2 where r: "r = r1 @ r2" using assms(3) by (auto elim: prefixE)
  show ?thesis
  proof (cases "c = CHR ''u''")
    case False
    show ?thesis using assms(1) unfolding Cons append_Cons escape_simple [OF False, of "q @ r1" "q @ r"] .
  next
    case True
    then obtain h where h: "hex4 (q @ r) = Some h" using assms(1) by (auto simp: Cons split: option.splits)
    then have "5 \<le> k" using assms(1) True by (auto simp: Cons split: if_splits option.splits bool.splits)
    then have q: "4 \<le> length q" using assms(2) by (simp add: Cons)
    then have h1: "hex4 (q @ r1) = Some h" using h by (simp add: hex4_append)
    have d: "drop 4 (q @ t) = drop 4 q @ t" for t using q by simp
    show ?thesis
    proof (cases "is_surrogate h \<and> h < 0xDC00")
      case False
      then show ?thesis using assms(1) True h h1 by (auto simp: Cons split: if_splits bool.splits)
    next
      case pair: True
      show ?thesis
      proof (cases "low_surrogate (drop 4 q @ r)")
        case None
        then have "low_surrogate (drop 4 q @ r1) = None"
          using low_surrogate_append [of "drop 4 q @ r1" _ r2] by (cases "low_surrogate (drop 4 q @ r1)") (auto simp: r)
        then show ?thesis using assms(1) True h h1 d pair None by (simp add: Cons)
      next
        case (Some l)
        then have "k = 11" using assms(1) True h d pair by (simp add: Cons)
        then have "low_surrogate (drop 4 q @ r1) = Some l"
          using Some assms(2) by (simp add: low_surrogate_cut Cons)
        then show ?thesis using assms(1) True h h1 d pair Some by (simp add: Cons)
      qed
    qed
  qed
qed

subsection \<open>Reading does not depend on what follows\<close>

text \<open>
  \<open>cut f s x r\<close>: \<open>f\<close> reads \<open>x\<close> off the front of \<open>s\<close> and leaves \<open>r\<close>, and would do the same if the text
  ended earlier in \<open>r\<close>.
\<close>

definition cut :: "(string \<Rightarrow> ('a \<times> string) option) \<Rightarrow> string \<Rightarrow> 'a \<Rightarrow> string \<Rightarrow> bool" where
  "cut f s x r \<longleftrightarrow> (\<exists>p. p \<noteq> [] \<and> s = p @ r \<and> (\<forall>r1. prefix r1 r \<longrightarrow> f (p @ r1) = Some (x, r1)))"

lemma cutI: "p \<noteq> [] \<Longrightarrow> s = p @ r \<Longrightarrow> (\<And>r1. prefix r1 r \<Longrightarrow> f (p @ r1) = Some (x, r1)) \<Longrightarrow> cut f s x r"
  by (auto simp: cut_def)

lemma cutD: "cut f s x r \<Longrightarrow> \<exists>p. p \<noteq> [] \<and> s = p @ r \<and> (\<forall>r1. prefix r1 r \<longrightarrow> f (p @ r1) = Some (x, r1))"
  by (simp add: cut_def)

lemma scan_string_cut: "scan_string s = Some (x, r) \<Longrightarrow> cut scan_string s x r"
proof (induction s arbitrary: x rule: scan_string.induct)
  case (2 c s)
  consider (close) "c = CHR 0x22" | (esc) "c = CHR 0x5C" | (rune) "c \<noteq> CHR 0x22" "c \<noteq> CHR 0x5C" by blast
  then show ?case
  proof cases
    case close
    with "2.prems" show ?thesis by (intro cutI [of "[c]"]) (simp_all add: scan_string.simps)
  next
    case esc
    with "2.prems" obtain out k y where e: "escape s = Some (out, k)" "scan_string (drop k s) = Some (y, r)" "x = out @ y"
      by (auto simp: scan_string.simps split: option.splits)
    have "cut scan_string (drop k s) y r" using "2.IH"(1) [OF _ esc e(1) refl e(2)] esc by simp
    then obtain p where p: "p \<noteq> []" "drop k s = p @ r" "\<forall>r1. prefix r1 r \<longrightarrow> scan_string (p @ r1) = Some (y, r1)"
      by (auto dest: cutD)
    have len: "length (take k s) = k" using escape_width_le [OF e(1)] by simp
    have s: "s = (take k s @ p) @ r" using p(2) by (metis append_assoc append_take_drop_id)
    show ?thesis
    proof (rule cutI [of "c # take k s @ p"])
      show "c # s = (c # take k s @ p) @ r" using s by simp
      fix r1 assume r1: "prefix r1 r"
      have "escape ((take k s @ p) @ r1) = Some (out, k)"
        by (rule escape_cut [OF _ _ r1]) (use e(1) s len in simp_all)
      moreover have "drop k (take k s @ p @ r1) = p @ r1" using len by simp
      ultimately show "scan_string ((c # take k s @ p) @ r1) = Some (x, r1)"
        using esc p(3) [rule_format, OF r1] e(3) by (simp add: scan_string.simps)
    qed simp
  next
    case rune
    with "2.prems" obtain u n y where e: "decode_rune (c # s) = (u, n)" "scan_string (drop (n - 1) s) = Some (y, r)"
        "x = encode_rune u @ y" and c: "\<not> byte c < 0x20"
      by (auto simp: scan_string.simps split: if_splits prod.splits)
    have "cut scan_string (drop (n - 1) s) y r" using "2.IH"(2) [OF rune c e(1) [symmetric] e(2)] .
    then obtain p where p: "p \<noteq> []" "drop (n - 1) s = p @ r" "\<forall>r1. prefix r1 r \<longrightarrow> scan_string (p @ r1) = Some (y, r1)"
      by (auto dest: cutD)
    have len: "length (take (n - 1) s) = n - 1"
      using decode_rune_valid(2) [OF e(1)] by (cases "u = rune_error \<and> n = 1") auto
    have s: "s = (take (n - 1) s @ p) @ r" using p(2) by (metis append_assoc append_take_drop_id)
    show ?thesis
    proof (rule cutI [of "c # take (n - 1) s @ p"])
      show "c # s = (c # take (n - 1) s @ p) @ r" using s by simp
      fix r1 assume r1: "prefix r1 r"
      have "decode_rune (c # (take (n - 1) s @ p) @ r1) = (u, n)"
        by (rule decode_rune_cut [OF _ _ r1]) (use e(1) s len in simp_all)
      moreover have "drop (n - 1) (take (n - 1) s @ p @ r1) = p @ r1" using len by simp
      ultimately show "scan_string ((c # take (n - 1) s @ p) @ r1) = Some (x, r1)"
        using rune c p(3) [rule_format, OF r1] e(3) by (simp add: scan_string.simps)
    qed simp
  qed
qed simp

text \<open>A number literal is the text it was read from; it ends where no digit follows.\<close>

definition ends_number :: "string \<Rightarrow> bool" where
  "ends_number t \<longleftrightarrow> t = [] \<or> \<not> is_digit (hd t)"

lemma scan_digits_Some:
  "scan_digits s = Some (ds, r) \<Longrightarrow> s = ds @ r \<and> ds \<noteq> [] \<and> list_all is_digit ds \<and> ends_number r"
  by (auto simp: scan_digits_def ends_number_def list_all_iff dest: set_takeWhileD hd_dropWhile split: if_splits)

lemma scan_digits_append:
  assumes "ds \<noteq> []" and "list_all is_digit ds" and "ends_number t"
  shows "scan_digits (ds @ t) = Some (ds, t)"
proof -
  have "takeWhile is_digit t = []" "dropWhile is_digit t = t" using assms(3) by (cases t; simp add: ends_number_def)+
  then have "takeWhile is_digit (ds @ t) = ds" "dropWhile is_digit (ds @ t) = t"
    using assms(2) by (simp_all add: list_all_iff takeWhile_append2 dropWhile_append2)
  then show ?thesis using assms(1) by (simp add: scan_digits_def)
qed

lemma ends_number_prefix: "prefix r1 r \<Longrightarrow> ends_number r \<Longrightarrow> ends_number r1"
  by (cases r1) (auto simp: ends_number_def elim!: prefixE)

text \<open>A literal: what was read is the front of the text, and reading it again ends where it ends.\<close>

definition literal :: "(string \<Rightarrow> (string \<times> string) option) \<Rightarrow> string \<Rightarrow> string \<Rightarrow> string \<Rightarrow> bool" where
  "literal f s x r \<longleftrightarrow> s = x @ r \<and> (\<forall>t. prefix t r \<longrightarrow> f (x @ t) = Some (x, t))"

lemma scan_digits_literal: "scan_digits s = Some (ds, r) \<Longrightarrow> literal scan_digits s ds r \<and> ds \<noteq> []"
  using scan_digits_Some [of s ds r] by (auto simp: literal_def intro: scan_digits_append ends_number_prefix)

lemma scan_integer_literal:
  assumes "scan_integer s = Some (n, r)"
  shows "literal scan_integer s n r \<and> n \<noteq> []"
proof (cases s)
  case (Cons c t)
  show ?thesis
  proof (cases "c = CHR ''0''")
    case False
    then have d: "scan_digits s = Some (n, r)" using assms Cons by (simp add: scan_integer_def)
    note l = scan_digits_literal [OF d]
    then obtain n' where n: "n = c # n'" using Cons by (cases n) (auto simp: literal_def)
    have "scan_integer (n @ q) = scan_digits (n @ q)" for q using False by (simp add: scan_integer_def n)
    then show ?thesis using l by (simp add: literal_def)
  qed (use assms Cons in \<open>auto simp: scan_integer_def literal_def\<close>)
qed (use assms in \<open>simp add: scan_integer_def\<close>)

lemma prefix_Cons_other: "prefix t (c # s) \<Longrightarrow> t = [] \<or> (\<exists>u. t = c # u \<and> prefix u s)"
  by (cases t) auto

lemma scan_fraction_literal:
  assumes "scan_fraction s = Some (f, r)" shows "literal scan_fraction s f r"
proof (cases s)
  case (Cons c t)
  show ?thesis
  proof (cases "c = CHR ''.''")
    case True
    with assms Cons obtain ds where d: "scan_digits t = Some (ds, r)" "f = c # ds" by (auto simp: scan_fraction_def)
    show ?thesis using scan_digits_literal [OF d(1)] Cons True d(2) by (auto simp: literal_def scan_fraction_def)
  next
    case False
    with assms Cons have "f = []" "r = s" by (auto simp: scan_fraction_def)
    then show ?thesis using Cons False by (auto simp: literal_def scan_fraction_def dest: prefix_Cons_other)
  qed
qed (use assms in \<open>simp add: scan_fraction_def literal_def\<close>)

lemma scan_exponent_literal:
  assumes "scan_exponent s = Some (x, r)" shows "literal scan_exponent s x r"
proof (cases s)
  case (Cons c t)
  consider (no) "c \<noteq> CHR ''e'' \<and> c \<noteq> CHR ''E''" | (sign) g u where "c = CHR ''e'' \<or> c = CHR ''E''" "t = g # u" "g = CHR ''+'' \<or> g = CHR ''-''"
    | (plain) g u where "c = CHR ''e'' \<or> c = CHR ''E''" "t = g # u" "\<not> (g = CHR ''+'' \<or> g = CHR ''-'')"
    using assms Cons by (cases t) (auto simp: scan_exponent_def split: if_splits)
  then show ?thesis
  proof cases
    case no
    with assms Cons have "x = []" "r = s" by (auto simp: scan_exponent_def)
    then show ?thesis using Cons no by (auto simp: literal_def scan_exponent_def dest: prefix_Cons_other)
  next
    case sign
    with assms Cons obtain ds where d: "scan_digits u = Some (ds, r)" "x = c # g # ds" by (auto simp: scan_exponent_def)
    show ?thesis using scan_digits_literal [OF d(1)] Cons sign d(2) by (auto simp: literal_def scan_exponent_def)
  next
    case plain
    with assms Cons obtain ds where d: "scan_digits t = Some (ds, r)" "x = c # ds" by (auto simp: scan_exponent_def)
    note l = scan_digits_literal [OF d(1)]
    then obtain ds' where "ds = g # ds'" using plain(2) by (cases ds) (auto simp: literal_def)
    then show ?thesis using l Cons plain d(2) by (auto simp: literal_def scan_exponent_def)
  qed
qed (use assms in \<open>simp add: scan_exponent_def literal_def\<close>)

lemma scan_number_cut:
  assumes "scan_number s = Some (l, r)" shows "cut scan_number s l r" and "s = l @ r"
proof -
  define neg where "neg = (s \<noteq> [] \<and> hd s = CHR ''-'')"
  define sign where "sign = (if neg then ''-'' else [])"
  define s0 where "s0 = (if neg then tl s else s)"
  have s: "s = sign @ s0" by (cases s) (auto simp: neg_def sign_def s0_def)
  have "(if s \<noteq> [] \<and> hd s = CHR ''-'' then (''-'', tl s) else ([], s)) = (sign, s0)"
    by (simp add: sign_def s0_def neg_def)
  with assms obtain n s1 f s2 x where parts: "scan_integer s0 = Some (n, s1)" "scan_fraction s1 = Some (f, s2)"
      "scan_exponent s2 = Some (x, r)" "l = sign @ n @ f @ x"
    by (auto simp: scan_number_def split: option.splits prod.splits)
  note lit = scan_integer_literal [OF parts(1)] scan_fraction_literal [OF parts(2)] scan_exponent_literal [OF parts(3)]
  have eqs: "s0 = n @ s1" "s1 = f @ s2" "s2 = x @ r" "n \<noteq> []" using lit by (auto simp: literal_def)
  have n0: "hd n \<noteq> CHR ''-''" if "\<not> neg"
  proof -
    have "s = n @ s1" using that eqs(1) s by (simp add: sign_def)
    then show ?thesis using that eqs(4) by (simp add: neg_def)
  qed
  show "s = l @ r" using s eqs parts(4) by simp
  show "cut scan_number s l r"
  proof (rule cutI [of l])
    show "l \<noteq> []" "s = l @ r" using eqs parts(4) s by simp_all
    fix t assume t: "prefix t r"
    have num: "scan_integer (n @ f @ x @ t) = Some (n, f @ x @ t)" "scan_fraction (f @ x @ t) = Some (f, x @ t)"
      "scan_exponent (x @ t) = Some (x, t)"
      using lit t eqs by (auto simp: literal_def)
    have sg: "(if l @ t \<noteq> [] \<and> hd (l @ t) = CHR ''-'' then (''-'', tl (l @ t)) else ([], l @ t)) = (sign, n @ f @ x @ t)"
      using n0 eqs(4) by (cases neg) (simp_all add: sign_def parts(4))
    show "scan_number (l @ t) = Some (l, t)"
      unfolding scan_number_def sg prod.case num option.case by (simp add: parts(4))
  qed
qed

lemma skip_ws_split: "skip_ws t = p @ r \<Longrightarrow> p \<noteq> [] \<Longrightarrow> \<exists>w. t = w @ p @ r \<and> list_all is_ws w \<and> \<not> is_ws (hd p)"
  by (rule exI [of _ "takeWhile is_ws t"])
    (metis Ball_set hd_append2 hd_dropWhile append_is_Nil_conv set_takeWhileD takeWhile_dropWhile_id)

lemma skip_ws_append: "list_all is_ws w \<Longrightarrow> p \<noteq> [] \<Longrightarrow> \<not> is_ws (hd p) \<Longrightarrow> skip_ws (w @ p @ t) = p @ t"
  by (cases p) (simp_all add: dropWhile_append2 list_all_iff)

lemma scan_number_ws: "is_ws c \<Longrightarrow> scan_number (c # t) = None"
  by (auto simp: is_ws_def scan_number_def scan_integer_def scan_digits_def is_digit_def byte_in_def byte_def)

text \<open>A value as it was read, with every text in it.\<close>

definition reads :: "nat \<Rightarrow> string \<Rightarrow> jv \<Rightarrow> bool" where
  "reads d raw v \<longleftrightarrow> raw \<noteq> [] \<and> \<not> is_ws (hd raw) \<and> (\<forall>d'\<ge>d. parse_value d' raw = Some (v, []))"

lemma cut_text:
  assumes "cut f s x r" obtains p where "take (length s - length r) s = p" and "p \<noteq> []" and "s = p @ r"
    and "\<forall>r1. prefix r1 r \<longrightarrow> f (p @ r1) = Some (x, r1)"
  using assms by (auto simp: cut_def)

lemma parse_literal_cut:
  assumes "lit \<in> {''null'', ''true'', ''false''}" and "prefix lit s"
  shows "parse_value d s = Some (if lit = ''null'' then VNull else VBool (lit = ''true''), drop (length lit) s)"
    and "cut (parse_value d) s (if lit = ''null'' then VNull else VBool (lit = ''true'')) (drop (length lit) s)"
proof -
  have eval: "parse_value d (lit @ r1) = Some (if lit = ''null'' then VNull else VBool (lit = ''true''), r1)" for r1
    using assms(1) by (auto simp: parse_value.simps)
  obtain t where s: "s = lit @ t" using assms(2) by (auto elim: prefixE)
  show "parse_value d s = Some (if lit = ''null'' then VNull else VBool (lit = ''true''), drop (length lit) s)"
    using eval by (simp add: s)
  show "cut (parse_value d) s (if lit = ''null'' then VNull else VBool (lit = ''true'')) (drop (length lit) s)"
    by (rule cutI [of lit]) (use assms(1) eval s in auto)
qed

lemma parse_number:
  assumes "c \<noteq> CHR 0x22" "c \<noteq> CHR 0x7B" "c \<noteq> CHR 0x5B"
    and "\<not> prefix ''null'' (c # t)" "\<not> prefix ''true'' (c # t)" "\<not> prefix ''false'' (c # t)"
  shows "parse_value d (c # t) = map_option (\<lambda>(l, r). (VNum l, r)) (scan_number (c # t))"
  unfolding parse_value.simps [of d "c # t"] list.case using assms by (simp only: if_False)

lemma parse_cut:
  "parse_value d s = Some (v, r) \<Longrightarrow> d \<le> d' \<Longrightarrow> cut (parse_value d') s v r \<and> \<not> is_ws (hd s)"
  "parse_elems d s = Some (es, r) \<Longrightarrow> d \<le> d' \<Longrightarrow> cut (parse_elems d') s es r \<and> \<not> is_ws (hd s) \<and>
     (\<forall>(raw, v)\<in>set es. reads d raw v)"
  "parse_members d s = Some (ms, r) \<Longrightarrow> d \<le> d' \<Longrightarrow> cut (parse_members d') s ms r \<and> \<not> is_ws (hd s) \<and>
     (\<forall>(k, raw, v)\<in>set ms. reads d raw v)"
proof (induction d s and d s and d s arbitrary: v r d' and es r d' and ms r d'
    rule: parse_value_parse_elems_parse_members.induct)
  case (1 d s)
  obtain c t where s: "s = c # t" using "1.prems"(1) by (cases s) (simp_all add: parse_value.simps)
  consider (str) "c = CHR 0x22" | (obj) "c = CHR 0x7B" | (arr) "c = CHR 0x5B"
    | (lit) lit where "lit \<in> {''null'', ''true'', ''false''}" "prefix lit s"
    | (num) "c \<noteq> CHR 0x22" "c \<noteq> CHR 0x7B" "c \<noteq> CHR 0x5B" "\<not> prefix ''null'' s" "\<not> prefix ''true'' s" "\<not> prefix ''false'' s"
    by blast
  then show ?case
  proof cases
    case str
    then obtain x where x: "scan_string t = Some (x, r)" "v = VStr x" using "1.prems"(1) s
      by (auto simp: parse_value.simps)
    obtain p where p: "p \<noteq> []" "t = p @ r" "\<forall>r1. prefix r1 r \<longrightarrow> scan_string (p @ r1) = Some (x, r1)"
      using cutD [OF scan_string_cut [OF x(1)]] by blast
    have "cut (parse_value d') s v r"
      by (rule cutI [of "c # p"]) (use p str s x(2) in \<open>simp_all add: parse_value.simps\<close>)
    then show ?thesis using str s by (simp add: is_ws_def)
  next
    case lit
    then show ?thesis
      using "1.prems"(1) parse_literal_cut(1) [OF lit, of d] parse_literal_cut(2) [OF lit, of d']
      by (auto simp: is_ws_def prefix_def)
  next
    case num
    have "parse_value d s = map_option (\<lambda>(l, r). (VNum l, r)) (scan_number s)"
      using num unfolding s by (rule parse_number)
    then obtain l where l: "scan_number s = Some (l, r)" "v = VNum l"
      using "1.prems"(1) by (cases "scan_number s") auto
    obtain p where p: "p \<noteq> []" "s = p @ r" "\<forall>r1. prefix r1 r \<longrightarrow> scan_number (p @ r1) = Some (l, r1)"
      using cutD [OF scan_number_cut(1) [OF l(1)]] by blast
    have "cut (parse_value d') s v r"
    proof (rule cutI [of p])
      fix r1 assume r1: "prefix r1 r"
      then have "prefix (p @ r1) s" using p(2) by (auto elim: prefixE)
      then have "\<not> prefix ''null'' (p @ r1)" "\<not> prefix ''true'' (p @ r1)" "\<not> prefix ''false'' (p @ r1)"
        using num(4-6) prefix_order.trans by blast+
      moreover obtain p' where p': "p @ r1 = c # p'" using p(1,2) s by (cases p) auto
      ultimately have "parse_value d' (p @ r1) = map_option (\<lambda>(l, r). (VNum l, r)) (scan_number (p @ r1))"
        using num(1-3) unfolding p' by (intro parse_number)
      then show "parse_value d' (p @ r1) = Some (v, r1)" using p(3) r1 l(2) by simp
    qed (use p in simp_all)
    moreover have "\<not> is_ws c" using l(1) scan_number_ws s by auto
    ultimately show ?thesis using s by simp
  next
    case obj
    then obtain e where d: "d = Suc e" using "1.prems"(1) s by (cases d) (auto simp: parse_value.simps)
    then obtain e' where d': "d' = Suc e'" "d - 1 \<le> e'" using "1.prems"(2) by (cases d') auto
    have d0: "d \<noteq> 0" using d by simp
    obtain b u where b: "skip_ws t = b # u" using "1.prems"(1) s obj d
      by (auto simp: parse_value.simps split: list.splits)
    obtain q where q: "q \<noteq> []" "skip_ws t = q @ r" and rest: "\<forall>r1. prefix r1 r \<longrightarrow>
        (if b = CHR 0x7D then v = VObj [] \<and> q = [b] else \<exists>ms. v = VObj ms \<and> parse_members e' (q @ r1) = Some (ms, r1))"
    proof (cases "b = CHR 0x7D")
      case True
      then show ?thesis using "1.prems"(1) s obj d b that [of "[b]"] by (auto simp: parse_value.simps)
    next
      case False
      then obtain ms where ms: "parse_members (d - 1) (skip_ws t) = Some (ms, r)" "v = VObj ms"
        using "1.prems"(1) s obj d b by (auto simp: parse_value.simps)
      have no: "c \<noteq> CHR 0x22" using obj by simp
      have "cut (parse_members e') (skip_ws t) ms r"
        using "1.IH"(1) [OF s no obj d0 b False ms(1) d'(2)] by simp
      then show ?thesis using that ms(2) False by (auto simp: cut_def)
    qed
    obtain w where w: "t = w @ q @ r" "list_all is_ws w" "\<not> is_ws (hd q)" using skip_ws_split [OF q(2,1)] by blast
    obtain q' where q': "q = b # q'" using q b by (cases q) auto
    have "cut (parse_value d') s v r"
    proof (rule cutI [of "c # w @ q"])
      fix r1 assume r1: "prefix r1 r"
      have sk: "skip_ws (w @ q @ r1) = q @ r1" by (rule skip_ws_append [OF w(2) q(1) w(3)])
      show "parse_value d' ((c # w @ q) @ r1) = Some (v, r1)"
        using rest [rule_format, OF r1] obj d'(1) sk
        by (subst parse_value.simps) (auto simp: q' split: if_splits)
    qed (use w s in simp_all)
    then show ?thesis using obj s by (simp add: is_ws_def)
  next
    case arr
    then have no: "c \<noteq> CHR 0x22" "c \<noteq> CHR 0x7B" by simp_all
    from arr obtain e where d: "d = Suc e" using "1.prems"(1) s by (cases d) (auto simp: parse_value.simps)
    then obtain e' where d': "d' = Suc e'" "d - 1 \<le> e'" using "1.prems"(2) by (cases d') auto
    have d0: "d \<noteq> 0" using d by simp
    obtain b u where b: "skip_ws t = b # u" using "1.prems"(1) s arr d
      by (auto simp: parse_value.simps split: list.splits)
    obtain q where q: "q \<noteq> []" "skip_ws t = q @ r" and rest: "\<forall>r1. prefix r1 r \<longrightarrow>
        (if b = CHR 0x5D then v = VArr [] \<and> q = [b] else \<exists>es. v = VArr es \<and> parse_elems e' (q @ r1) = Some (es, r1))"
    proof (cases "b = CHR 0x5D")
      case True
      then show ?thesis using "1.prems"(1) s arr d b that [of "[b]"] by (auto simp: parse_value.simps)
    next
      case False
      then obtain es where es: "parse_elems (d - 1) (skip_ws t) = Some (es, r)" "v = VArr es"
        using "1.prems"(1) s arr d b by (auto simp: parse_value.simps)
      have "cut (parse_elems e') (skip_ws t) es r"
        using "1.IH"(2) [OF s no arr d0 b False es(1) d'(2)] by simp
      then show ?thesis using that es(2) False by (auto simp: cut_def)
    qed
    obtain w where w: "t = w @ q @ r" "list_all is_ws w" "\<not> is_ws (hd q)" using skip_ws_split [OF q(2,1)] by blast
    obtain q' where q': "q = b # q'" using q b by (cases q) auto
    have "cut (parse_value d') s v r"
    proof (rule cutI [of "c # w @ q"])
      fix r1 assume r1: "prefix r1 r"
      have sk: "skip_ws (w @ q @ r1) = q @ r1" by (rule skip_ws_append [OF w(2) q(1) w(3)])
      show "parse_value d' ((c # w @ q) @ r1) = Some (v, r1)"
        using rest [rule_format, OF r1] arr d'(1) sk
        by (subst parse_value.simps) (auto simp: q' split: if_splits)
    qed (use w s in simp_all)
    then show ?thesis using arr s by (simp add: is_ws_def)
  qed
next
  case (2 d s)
  then obtain v r0 b u where v: "parse_value d s = Some (v, r0)" and b: "skip_ws r0 = b # u"
    by (auto simp: parse_elems.simps [of d s] split: option.splits list.splits)
  have head: "cut (parse_value d'') s v r0 \<and> \<not> is_ws (hd s)" if "d \<le> d''" for d'' by (rule "2.IH"(1) [OF v that])
  obtain p where p: "p \<noteq> []" "s = p @ r0" using head [OF order_refl] by (auto simp: cut_def)
  have pv: "\<forall>r1. prefix r1 r0 \<longrightarrow> parse_value d'' (p @ r1) = Some (v, r1)" if "d \<le> d''" for d''
    using head [OF that] p(2) by (auto simp: cut_def)
  have raw: "take (length s - length r0) s = p" by (simp add: p)
  have "parse_value d'' p = Some (v, [])" if "d \<le> d''" for d'' using pv [OF that, rule_format, of "[]"] by simp
  then have reads: "reads d p v" using head [OF order_refl] p by (simp add: reads_def)
  obtain w where w: "r0 = w @ [b] @ u" "list_all is_ws w" "\<not> is_ws b"
    using skip_ws_split [of r0 "[b]" u] b by auto
  show ?case
  proof (cases "b = CHR 0x5D")
    case True
    then have res: "es = [(p, v)]" "r = u" using "2.prems"(1) v b raw by (auto simp: parse_elems.simps [of d s])
    have "cut (parse_elems d') s es r"
    proof (rule cutI [of "p @ w @ [b]"])
      fix r1 assume r1: "prefix r1 r"
      then have "prefix (w @ b # r1) r0" using w(1) res by simp
      then have "parse_value d' (p @ w @ b # r1) = Some (v, w @ b # r1)" using pv [OF "2.prems"(2)] by simp
      moreover have "skip_ws (w @ b # r1) = b # r1" using skip_ws_append [of w "[b]" r1] w by simp
      ultimately show "parse_elems d' ((p @ w @ [b]) @ r1) = Some (es, r1)"
        using True res by (subst parse_elems.simps) simp
    qed (use p w res in simp_all)
    then show ?thesis using head [OF order_refl] reads res by simp
  next
    case False
    with "2.prems"(1) v b obtain es' where es: "b = CHR '','' \<and> length u < length s" "parse_elems d (skip_ws u) = Some (es', r)"
        "es = (p, v) # es'"
      using raw by (auto simp: parse_elems.simps [of d s] split: if_splits)
    have IH: "cut (parse_elems d') (skip_ws u) es' r" "\<not> is_ws (hd (skip_ws u))" "\<forall>(raw, v)\<in>set es'. reads d raw v"
      using "2.IH"(2) [OF v refl b False es(1,2) "2.prems"(2)] by auto
    obtain q where q: "q \<noteq> []" "skip_ws u = q @ r" "\<forall>r1. prefix r1 r \<longrightarrow> parse_elems d' (q @ r1) = Some (es', r1)"
      using cutD [OF IH(1)] by blast
    obtain w' where w': "u = w' @ q @ r" "list_all is_ws w'" "\<not> is_ws (hd q)" using skip_ws_split [OF q(2,1)] by blast
    have "cut (parse_elems d') s es r"
    proof (rule cutI [of "p @ w @ [b] @ w' @ q"])
      fix r1 assume r1: "prefix r1 r"
      then have "prefix (w @ b # w' @ q @ r1) r0" using w(1) w'(1) by simp
      then have "parse_value d' (p @ w @ b # w' @ q @ r1) = Some (v, w @ b # w' @ q @ r1)"
        using pv [OF "2.prems"(2)] by simp
      moreover have "skip_ws (w @ b # w' @ q @ r1) = b # w' @ q @ r1"
        using skip_ws_append [of w "[b]" "w' @ q @ r1"] w by simp
      moreover have "skip_ws (w' @ q @ r1) = q @ r1" by (rule skip_ws_append [OF w'(2) q(1) w'(3)])
      ultimately show "parse_elems d' ((p @ w @ [b] @ w' @ q) @ r1) = Some (es, r1)"
        using False es q(3) r1 p(1) by (subst parse_elems.simps) simp
    qed (use p w w' in simp_all)
    then show ?thesis using head [OF order_refl] reads es(3) IH(3) by simp
  qed
next
  case (3 d s)
  then obtain t k t1 t2 where s: "s = CHR 0x22 # t" and k: "scan_string t = Some (k, t1)"
      and col: "skip_ws t1 = CHR '':'' # t2" "length t2 < length s"
    by (auto simp: parse_members.simps [of d s] split: option.splits list.splits if_splits)
  with "3.prems"(1) obtain v r0 b u where v: "parse_value d (skip_ws t2) = Some (v, r0)" and b: "skip_ws r0 = b # u"
    by (auto simp: parse_members.simps [of d "CHR 0x22 # t"] Let_def split: option.splits list.splits)
  have ncol: "\<not> (CHR '':'' \<noteq> CHR '':'' \<or> \<not> length t2 < length s)" using col(2) by simp
  have head: "cut (parse_value d'') (skip_ws t2) v r0 \<and> \<not> is_ws (hd (skip_ws t2))" if "d \<le> d''" for d''
    by (rule "3.IH"(1) [OF s _ k refl col(1) ncol v that]) simp
  obtain p where p: "p \<noteq> []" "skip_ws t2 = p @ r0" using head [OF order_refl] by (auto simp: cut_def)
  have pv: "\<forall>r1. prefix r1 r0 \<longrightarrow> parse_value d'' (p @ r1) = Some (v, r1)" if "d \<le> d''" for d''
    using head [OF that] p(2) by (auto simp: cut_def)
  have raw: "take (length (skip_ws t2) - length r0) (skip_ws t2) = p" by (simp add: p)
  have "parse_value d'' p = Some (v, [])" if "d \<le> d''" for d'' using pv [OF that, rule_format, of "[]"] by simp
  then have reads: "reads d p v" using head [OF order_refl] p by (simp add: reads_def)
  obtain pk where pk: "t = pk @ t1" "\<forall>r1. prefix r1 t1 \<longrightarrow> scan_string (pk @ r1) = Some (k, r1)"
    using cutD [OF scan_string_cut [OF k]] by blast
  obtain w1 where w1: "t1 = w1 @ [CHR '':''] @ t2" "list_all is_ws w1" using skip_ws_split [of t1 "[CHR '':'']" t2] col(1) by auto
  obtain w2 where w2: "t2 = w2 @ p @ r0" "list_all is_ws w2" "\<not> is_ws (hd p)" using skip_ws_split [OF p(2,1)] by blast
  obtain w where w: "r0 = w @ [b] @ u" "list_all is_ws w" "\<not> is_ws b" using skip_ws_split [of r0 "[b]" u] b by auto
  define front where "front = CHR 0x22 # pk @ w1 @ CHR '':'' # w2 @ p @ w @ [b]"
  have s': "s = front @ u" by (simp add: front_def s pk w1 w2 w)
  have step: "parse_members d' (front @ tail) =
      (if b = CHR 0x7D then Some ([(k, p, v)], tail)
       else if b = CHR '','' then map_option (\<lambda>(ms, r'). ((k, p, v) # ms, r')) (parse_members d' (skip_ws tail))
       else None)" if "prefix tail u" for tail
  proof -
    have k': "scan_string (pk @ w1 @ CHR '':'' # w2 @ p @ w @ b # tail) = Some (k, w1 @ CHR '':'' # w2 @ p @ w @ b # tail)"
      using pk(2) that w1 w2 w by simp
    have c': "skip_ws (w1 @ CHR '':'' # w2 @ p @ w @ b # tail) = CHR '':'' # w2 @ p @ w @ b # tail"
      using skip_ws_append [of w1 "[CHR '':'']" "w2 @ p @ w @ b # tail"] w1(2) by (simp add: is_ws_def)
    have p': "skip_ws (w2 @ p @ w @ b # tail) = p @ w @ b # tail"
      using skip_ws_append [OF w2(2) p(1) w2(3), of "w @ b # tail"] by simp
    have v': "parse_value d' (p @ w @ b # tail) = Some (v, w @ b # tail)" using pv [OF "3.prems"(2)] that w by simp
    have b': "skip_ws (w @ b # tail) = b # tail" using skip_ws_append [of w "[b]" tail] w by simp
    show ?thesis
      by (simp add: front_def parse_members.simps [of d' "CHR 0x22 # pk @ w1 @ CHR '':'' # w2 @ p @ w @ b # tail"]
          k' c' p' v' b')
  qed
  have hds: "\<not> is_ws (hd s)" by (simp add: s is_ws_def)
  show ?case
  proof (cases "b = CHR 0x7D")
    case True
    with "3.prems"(1) s k col v b have res: "ms = [(k, p, v)]" "r = u"
      using raw by (auto simp: parse_members.simps [of d "CHR 0x22 # t"] Let_def)
    have "cut (parse_members d') s ms r"
      by (rule cutI [of front]) (use step True res s' in \<open>simp_all add: front_def\<close>)
    then show ?thesis using hds reads res by simp
  next
    case False
    with "3.prems"(1) s k col v b obtain ms' where ms: "b = CHR '','' \<and> length u < length s" "parse_members d (skip_ws u) = Some (ms', r)"
        "ms = (k, p, v) # ms'"
      using raw by (auto simp: parse_members.simps [of d "CHR 0x22 # t"] Let_def split: if_splits)
    have IH: "cut (parse_members d') (skip_ws u) ms' r" "\<forall>(k, raw, v)\<in>set ms'. reads d raw v"
      using "3.IH"(2) [OF s _ k refl col(1) ncol v refl refl b False ms(1,2) "3.prems"(2)] by simp_all
    obtain q where q: "q \<noteq> []" "skip_ws u = q @ r" "\<forall>r1. prefix r1 r \<longrightarrow> parse_members d' (q @ r1) = Some (ms', r1)"
      using cutD [OF IH(1)] by blast
    obtain w' where w': "u = w' @ q @ r" "list_all is_ws w'" "\<not> is_ws (hd q)" using skip_ws_split [OF q(2,1)] by blast
    have "cut (parse_members d') s ms r"
    proof (rule cutI [of "front @ w' @ q"])
      fix r1 assume r1: "prefix r1 r"
      have "skip_ws (w' @ q @ r1) = q @ r1" by (rule skip_ws_append [OF w'(2) q(1) w'(3)])
      then show "parse_members d' ((front @ w' @ q) @ r1) = Some (ms, r1)"
        using step [of "w' @ q @ r1"] r1 w'(1) False ms q(3) by simp
    qed (use s' w' in \<open>simp_all add: front_def\<close>)
    then show ?thesis using hds reads ms(3) IH(2) by simp
  qed
qed

text \<open>The text of a member or an element is a text of its value.\<close>

lemma reads_json_value: "reads d raw v \<Longrightarrow> d \<le> max_nesting \<Longrightarrow> json_value raw = Some v"
  by (cases raw) (simp_all add: reads_def json_value_def)

lemma first_value_members:
  assumes "first_value s = Some (VObj ms)" and "(k, raw, v) \<in> set ms"
  shows "json_value raw = Some v"
proof -
  obtain r where "parse_value max_nesting (skip_ws s) = Some (VObj ms, r)" using assms(1) by (auto simp: first_value_def)
  then obtain t where "parse_members (max_nesting - 1) t = Some (ms, r) \<or> ms = []"
    by (auto simp: parse_value.simps split: list.splits if_splits)
  then have "reads (max_nesting - 1) raw v" using parse_cut(3) [of "max_nesting - 1" t ms r "max_nesting - 1"] assms(2) by auto
  then show ?thesis by (rule reads_json_value) simp
qed

end
