(* ===== verification/JsonPrint.thy ===== *)
theory JsonPrint
  imports JsonText
begin

text \<open>
  Writing JSON: what a reader makes of the strings and values that \<^verbatim>\<open>json.Marshal\<close> writes, and which texts
  compaction leaves as they are.
\<close>

subsection \<open>What \<^verbatim>\<open>json.Marshal\<close> writes for a string\<close>

text \<open>The string as a reader gets it: a byte that starts no rune becomes U+FFFD.\<close>

function to_valid :: "string \<Rightarrow> string" where
  "to_valid [] = []"
| "to_valid (c # s) = (case decode_rune (c # s) of (r, n) \<Rightarrow> encode_rune r @ to_valid (drop (n - 1) s))"
  by pat_completeness auto
termination by (relation "measure length") auto

declare to_valid.simps(2) [simp del]

lemma hex_value_digit: "hex_value (hex_digit (k mod 16)) = Some (k mod 16)"
proof -
  have "hex_value (hex_digit m) = Some m" if "m < 16" for m
    using that by (auto simp: hex_value_def hex_digit_def byte_in_def byte_def)
  then show ?thesis by simp
qed

lemma hex_digits_value:
  fixes r :: nat assumes "r < 0x10000"
  shows "((r div 4096 mod 16 * 16 + r div 256 mod 16) * 16 + r div 16 mod 16) * 16 + r mod 16 = r"
proof -
  have d: "r div 256 = r div 16 div 16" "r div 4096 = r div 256 div 16" by (simp_all add: div_mult2_eq [symmetric])
  have "r div 4096 mod 16 = r div 4096" using assms by simp
  moreover have "r div 4096 * 16 + r div 256 mod 16 = r div 256" unfolding d(2) by (rule div_mult_mod_eq)
  moreover have "r div 256 * 16 + r div 16 mod 16 = r div 16" unfolding d(1) by (rule div_mult_mod_eq)
  moreover have "r div 16 * 16 + r mod 16 = r" by (rule div_mult_mod_eq)
  ultimately show ?thesis by (simp only:)
qed

lemma hex4_unicode:
  assumes "r < 0x10000"
  shows "hex4 (hex_digit (r div 4096 mod 16) # hex_digit (r div 256 mod 16) # hex_digit (r div 16 mod 16) #
    hex_digit (r mod 16) # t) = Some r"
  unfolding hex4.simps hex_value_digit option.case prod.case hex_digits_value [OF assms] ..

lemma scan_unicode_escape:
  assumes "r < 0x10000" and "\<not> is_surrogate r"
  shows "scan_string (unicode_escape r @ t) = map_option (\<lambda>(x, q). (encode_rune r @ x, q)) (scan_string t)"
proof -
  have "escape (CHR ''u'' # hex_digit (r div 4096 mod 16) # hex_digit (r div 256 mod 16) # hex_digit (r div 16 mod 16) #
      hex_digit (r mod 16) # t) = Some (encode_rune r, 5)"
    using assms(2) by (simp add: hex4_unicode [OF assms(1)] del: hex4.simps)
  then show ?thesis unfolding unicode_escape_def append_Cons append_Nil
    by (subst scan_string.simps) (simp del: escape.simps)
qed

lemma byte_less: "byte c < 256"
  by (simp add: byte_def)

lemma char_of_byte: "char_of (byte c) = c"
  by (simp add: byte_def)

lemma byte_char: "byte (CHR 0x22) = 34" "byte (CHR 0x5C) = 92"
  by (simp_all add: byte_def)

lemma encode_ascii_rune: "byte c < 0x80 \<Longrightarrow> encode_rune (byte c) = [c]"
  by (simp add: encode_rune.simps char_of_byte)

lemma scan_encode_ascii:
  assumes "byte c < 0x80"
  shows "scan_string (encode_ascii html c @ t) = map_option (\<lambda>(x, q). (c # x, q)) (scan_string t)"
proof -
  let ?short = "c \<in> {CHR 0x22, CHR 0x5C, CHR 0x08, CHR 0x0C, CHR 0x0A, CHR 0x0D, CHR 0x09}"
  let ?html = "byte c < 0x20 \<or> html \<and> c \<in> {CHR ''<'', CHR ''>'', CHR ''&''}"
  show ?thesis
  proof (cases ?short)
    case True
    then show ?thesis
      by (elim insertE emptyE; simp add: encode_ascii_def; subst scan_string.simps; simp)
  next
    case False
    then have enc: "encode_ascii html c = (if ?html then unicode_escape (byte c) else [c])"
      by (simp add: encode_ascii_def)
    show ?thesis
    proof (cases ?html)
      case True
      have "\<not> is_surrogate (byte c)" "byte c < 0x10000" using assms by (simp_all add: is_surrogate_def)
      then show ?thesis
        using scan_unicode_escape [of "byte c" t] encode_ascii_rune [OF assms] unfolding enc if_P [OF True] by simp
    next
      case plain: False
      have "decode_rune (c # t) = (byte c, 1)" using assms by simp
      then have "scan_string (c # t) = map_option (\<lambda>(x, q). (encode_rune (byte c) @ x, q)) (scan_string t)"
        using False plain by (simp add: scan_string.simps del: decode_rune.simps)
      then show ?thesis unfolding enc if_not_P [OF plain] encode_ascii_rune [OF assms] by simp
    qed
  qed
qed

lemma to_valid_ascii: "list_all (\<lambda>c. byte c < 0x80) s \<Longrightarrow> to_valid s = s"
  by (induction s) (simp_all add: to_valid.simps encode_ascii_rune)

lemma scan_encode_chars: "scan_string (encode_chars html x @ CHR 0x22 # t) = Some (to_valid x, t)"
proof (induction html x rule: encode_chars.induct)
  case (2 html c s)
  show ?case
  proof (cases "byte c < 0x80")
    case True
    then have "encode_chars html (c # s) = encode_ascii html c @ encode_chars html s" by (simp add: encode_chars.simps)
    moreover have "to_valid (c # s) = c # to_valid s" using True by (simp add: to_valid.simps encode_ascii_rune)
    ultimately show ?thesis using scan_encode_ascii [OF True] "2.IH"(1) [OF True] by simp
  next
    case False
    obtain r n where d: "decode_rune (c # s) = (r, n)" by (cases "decode_rune (c # s)")
    have IH: "scan_string (encode_chars html (drop (n - 1) s) @ CHR 0x22 # t) = Some (to_valid (drop (n - 1) s), t)"
      using "2.IH"(2) [OF False d [symmetric]] .
    have valid: "to_valid (c # s) = encode_rune r @ to_valid (drop (n - 1) s)" by (simp add: to_valid.simps d del: decode_rune.simps)
    have enc: "encode_chars html (c # s) = (if r = rune_error \<and> n = 1 \<or> r = 0x2028 \<or> r = 0x2029 then unicode_escape r else take n (c # s))
        @ encode_chars html (drop (n - 1) s)" using False by (simp add: encode_chars.simps d del: decode_rune.simps)
    show ?thesis
    proof (cases "r = rune_error \<and> n = 1 \<or> r = 0x2028 \<or> r = 0x2029")
      case True
      then have "r < 0x10000" "\<not> is_surrogate r" by (auto simp: rune_error_def is_surrogate_def)
      then show ?thesis using scan_unicode_escape IH True by (simp add: enc valid)
    next
      case other: False
      then have bad: "\<not> (r = rune_error \<and> n = 1)" by simp
      let ?rest = "encode_chars html (drop (n - 1) s) @ CHR 0x22 # t"
      have n: "0 < n" "n \<le> Suc (length s)" and dec: "decode_rune (take n (c # s) @ ?rest) = (r, n)"
        using decode_rune_valid [OF d bad] by blast+
      obtain k where k: "n = Suc k" using n(1) by (cases n) auto
      have tk: "take n (c # s) @ ?rest = c # take k s @ ?rest" by (simp add: k)
      have "drop k (take k s @ ?rest) = ?rest" using n(2) k by simp
      moreover have "c \<noteq> CHR 0x22" "c \<noteq> CHR 0x5C" "\<not> byte c < 0x20" using False byte_char by auto
      ultimately have "scan_string (c # take k s @ ?rest) = Some (encode_rune r @ to_valid (drop (n - 1) s), t)"
        using dec IH unfolding tk by (simp add: scan_string.simps k del: decode_rune.simps)
      then show ?thesis unfolding enc valid if_not_P [OF other] by (simp add: k)
    qed
  qed
qed (simp add: scan_string.simps)

lemma parse_json_string: "parse_value d (json_text html x @ t) = Some (VStr (to_valid x), t)"
  by (simp add: json_text_def parse_value.simps [of d "CHR 0x22 # encode_chars html x @ CHR 0x22 # t"] scan_encode_chars)

lemma json_value_json_string: "json_value (json_text html x) = Some (VStr (to_valid x))"
  using parse_json_string [of max_nesting html x "[]"] by (simp add: json_value_def json_text_def is_ws_def)

subsection \<open>What was read from a string literal is valid UTF-8\<close>

lemma byte_char_of: "byte (char_of n) = n mod 256"
  by (simp add: byte_def)

lemma decode_encode_rune:
  "\<exists>w. decode_rune (encode_rune u @ t) = (w, length (encode_rune u)) \<and> encode_rune w = encode_rune u"
proof -
  consider (one) "u < 0x80" | (two) "0x80 \<le> u" "u < 0x800"
    | (bad) "0x800 \<le> u" "is_surrogate u \<or> 0x110000 \<le> u"
    | (three) "0x800 \<le> u" "\<not> is_surrogate u" "u < 0x10000"
    | (four) "0x10000 \<le> u" "u < 0x110000"
    by (cases "u < 0x800"; cases "is_surrogate u"; cases "u < 0x10000") (fastforce simp: is_surrogate_def)+
  then show ?thesis
  proof cases
    case one
    then show ?thesis by (simp add: encode_rune.simps byte_char_of)
  next
    case two
    define q m where "q = u div 64" and "m = u mod 64"
    have r: "2 \<le> q" "q < 32" "m < 64" using two unfolding q_def m_def by linarith+
    have val: "q * 64 + m = u" unfolding q_def m_def by (rule div_mult_mod_eq)
    have enc: "encode_rune u = [char_of (192 + q), char_of (128 + m)]" using two by (simp add: encode_rune.simps q_def m_def)
    have b: "byte (char_of (192 + q)) = 192 + q" "byte (char_of (128 + m)) = 128 + m" using r by (simp_all add: byte_char_of)
    show ?thesis using r val unfolding enc by (simp add: b byte_in_def enc)
  next
    case bad
    have "encode_rune 0xFFFD = [CHR 0xEF, CHR 0xBF, CHR 0xBD]"
      by (simp add: encode_rune.simps is_surrogate_def char_of_eq_iff)
    moreover have "encode_rune u = [CHR 0xEF, CHR 0xBF, CHR 0xBD]" using bad by (auto simp: encode_rune.simps is_surrogate_def)
    moreover have "decode_rune ([CHR 0xEF, CHR 0xBF, CHR 0xBD] @ t) = (0xFFFD, 3)"
      by (simp add: byte_def byte_in_def)
    ultimately show ?thesis by simp
  next
    case three
    define q m n where "q = u div 4096" and "m = u div 64 mod 64" and "n = u mod 64"
    have r: "q < 16" "m < 64" "n < 64" using three unfolding q_def m_def n_def by linarith+
    have "q * 64 + m = u div 64" unfolding q_def m_def div_mult2_eq [of u 64 64, simplified] by (rule div_mult_mod_eq)
    then have val: "q * 4096 + m * 64 + n = u" unfolding n_def using div_mult_mod_eq [of u 64] by linarith
    have lo: "q = 0 \<Longrightarrow> 32 \<le> m" and hi: "q = 13 \<Longrightarrow> m < 32"
      using three val r by (auto simp: is_surrogate_def)
    have enc: "encode_rune u = [char_of (224 + q), char_of (128 + m), char_of (128 + n)]"
      using three by (simp add: encode_rune.simps q_def m_def n_def)
    have b: "byte (char_of (224 + q)) = 224 + q" "byte (char_of (128 + m)) = 128 + m" "byte (char_of (128 + n)) = 128 + n"
      using r by (simp_all add: byte_char_of)
    show ?thesis using r lo hi val unfolding enc by (auto simp: b byte_in_def enc)
  next
    case four
    define q l m n where "q = u div 262144" and "l = u div 4096 mod 64" and "m = u div 64 mod 64" and "n = u mod 64"
    have r: "q < 5" "l < 64" "m < 64" "n < 64" using four unfolding q_def l_def m_def n_def by linarith+
    have "q * 64 + l = u div 4096" unfolding q_def l_def div_mult2_eq [of u 4096 64, simplified] by (rule div_mult_mod_eq)
    moreover have "u div 4096 * 64 + m = u div 64" unfolding m_def div_mult2_eq [of u 64 64, simplified] by (rule div_mult_mod_eq)
    ultimately have val: "q * 262144 + l * 4096 + m * 64 + n = u" unfolding n_def using div_mult_mod_eq [of u 64] by linarith
    have lo: "q = 0 \<Longrightarrow> 16 \<le> l" and hi: "q = 4 \<Longrightarrow> l < 16" using four val r by auto
    have "\<not> is_surrogate u" using four(1) by (simp add: is_surrogate_def)
    then have enc: "encode_rune u = [char_of (240 + q), char_of (128 + l), char_of (128 + m), char_of (128 + n)]"
      using four by (simp add: encode_rune.simps q_def l_def m_def n_def)
    have b: "byte (char_of (240 + q)) = 240 + q" "byte (char_of (128 + l)) = 128 + l" "byte (char_of (128 + m)) = 128 + m"
      "byte (char_of (128 + n)) = 128 + n" using r by (simp_all add: byte_char_of)
    show ?thesis using r lo hi val unfolding enc by (auto simp: b byte_in_def enc)
  qed
qed

lemma to_valid_encode_rune: "to_valid (encode_rune u @ t) = encode_rune u @ to_valid t"
proof -
  obtain w where w: "decode_rune (encode_rune u @ t) = (w, length (encode_rune u))" "encode_rune w = encode_rune u"
    using decode_encode_rune by blast
  obtain c p where p: "encode_rune u = c # p" using length_encode_rune(2) [of u] by (cases "encode_rune u") auto
  have "decode_rune (c # p @ t) = (w, Suc (length p))" using w(1) by (simp add: p del: decode_rune.simps)
  then show ?thesis unfolding p using w(2) p by (simp add: to_valid.simps del: decode_rune.simps)
qed

lemma escape_rune: "escape s = Some (out, k) \<Longrightarrow> \<exists>u. out = encode_rune u"
proof (cases s)
  case (Cons c t)
  assume e: "escape s = Some (out, k)"
  have ascii: "\<exists>u. [c] = encode_rune u" if "byte c < 0x80" for c using encode_ascii_rune [OF that] by metis
  show ?thesis
  proof (cases "c = CHR ''u''")
    case True
    then show ?thesis using e Cons by (auto split: option.splits if_splits bool.splits)
  next
    case False
    then have "\<exists>a. byte a < 0x80 \<and> out = [a]" using e Cons by (auto simp: byte_def split: if_splits)
    then show ?thesis using ascii by blast
  qed
qed simp

lemma scan_string_valid: "scan_string s = Some (x, r) \<Longrightarrow> to_valid x = x"
proof (induction s arbitrary: x rule: scan_string.induct)
  case (2 c s)
  consider (close) "c = CHR 0x22" | (esc) "c = CHR 0x5C" | (rune) "c \<noteq> CHR 0x22" "c \<noteq> CHR 0x5C" by blast
  then show ?case
  proof cases
    case close
    with "2.prems" show ?thesis by (simp add: scan_string.simps)
  next
    case esc
    with "2.prems" obtain out k y where e: "escape s = Some (out, k)" "scan_string (drop k s) = Some (y, r)" "x = out @ y"
      by (auto simp: scan_string.simps split: option.splits)
    have "to_valid y = y" using "2.IH"(1) [OF _ esc e(1) refl e(2)] esc by simp
    then show ?thesis using escape_rune [OF e(1)] e(3) by (auto simp: to_valid_encode_rune)
  next
    case rune
    with "2.prems" obtain u n y where e: "decode_rune (c # s) = (u, n)" "scan_string (drop (n - 1) s) = Some (y, r)"
        "x = encode_rune u @ y" and c: "\<not> byte c < 0x20"
      by (auto simp: scan_string.simps split: if_splits prod.splits)
    have "to_valid y = y" using "2.IH"(2) [OF rune c e(1) [symmetric] e(2)] .
    then show ?thesis using e(3) by (simp add: to_valid_encode_rune)
  qed
qed simp

subsection \<open>What is written needs no compaction\<close>

lemma compact_plain:
  "c \<notin> {CHR 0x22, CHR 0x5C, CHR ''<'', CHR ''>'', CHR ''&'', CHR 0xE2} \<Longrightarrow> compact True (c # s) = c # compact True s"
  by auto

lemma hex_digit_plain: "hex_digit (k mod 16) \<notin> {CHR 0x22, CHR 0x5C, CHR ''<'', CHR ''>'', CHR ''&'', CHR 0xE2}"
proof -
  have "\<forall>k\<in>set [0..<16]. hex_digit k \<notin> {CHR 0x22, CHR 0x5C, CHR ''<'', CHR ''>'', CHR ''&'', CHR 0xE2}" by code_simp
  then show ?thesis by simp
qed

lemma compact_unicode_escape: "compact True (unicode_escape r @ s) = unicode_escape r @ compact True s"
proof -
  have "compact True (CHR 0x5C # CHR ''u'' # t) = CHR 0x5C # CHR ''u'' # compact True t" for t by simp
  then show ?thesis
    unfolding unicode_escape_def append_Cons append_Nil by (simp only: compact_plain [OF hex_digit_plain])
qed

lemma compact_encode_ascii: "byte c < 0x80 \<Longrightarrow> compact True (encode_ascii True c @ s) = encode_ascii True c @ compact True s"
proof -
  assume a: "byte c < 0x80"
  let ?short = "c \<in> {CHR 0x22, CHR 0x5C, CHR 0x08, CHR 0x0C, CHR 0x0A, CHR 0x0D, CHR 0x09}"
  let ?html = "byte c < 0x20 \<or> c \<in> {CHR ''<'', CHR ''>'', CHR ''&''}"
  show ?thesis
  proof (cases ?short)
    case True
    then show ?thesis by (elim insertE emptyE; simp add: encode_ascii_def)
  next
    case False
    then have enc: "encode_ascii True c = (if ?html then unicode_escape (byte c) else [c])"
      by (simp add: encode_ascii_def)
    show ?thesis
    proof (cases ?html)
      case True
      show ?thesis unfolding enc if_P [OF True] by (rule compact_unicode_escape)
    next
      case plain: False
      have "c \<noteq> CHR 0xE2" using a by (auto simp: byte_def)
      then show ?thesis using False plain unfolding enc if_not_P [OF plain] by (simp add: compact_plain del: compact.simps(3))
    qed
  qed
qed

lemma decode_rune_E2:
  "decode_rune (CHR 0xE2 # s) =
    (case s of
       c1 # c2 # _ \<Rightarrow> if byte_in 0x80 0xBF c1 \<and> byte_in 0x80 0xBF c2
         then (8192 + (byte c1 - 0x80) * 64 + (byte c2 - 0x80), 3) else (rune_error, 1)
     | _ \<Rightarrow> (rune_error, 1))"
proof -
  have "byte (CHR 0xE2) = 226" by (simp add: byte_def)
  then show ?thesis by (simp split: list.split)
qed

lemma byte_in_mono: "byte_in a b c \<Longrightarrow> a' \<le> a \<Longrightarrow> b \<le> b' \<Longrightarrow> byte_in a' b' c"
  by (simp add: byte_in_def)

lemma decode_rune_conts:
  assumes "decode_rune (c # s) = (r, n)" and "\<not> (r = rune_error \<and> n = 1)"
  shows "list_all (byte_in 0x80 0xBF) (take (n - 1) s)"
proof -
  show ?thesis
    using assms
    by (cases s rule: remdups_adj.cases; (simp add: Let_def split: if_splits list.splits)?)
      (auto simp: Let_def dest: byte_in_mono [where a' = 128 and b' = 191] split: if_splits list.splits)
qed

text \<open>The bytes of a longer rune, line separators apart, are copied.\<close>

lemma compact_rune:
  assumes "decode_rune (c # s) = (r, n)" and "\<not> (r = rune_error \<and> n = 1)" and "r \<noteq> 0x2028" "r \<noteq> 0x2029" and "\<not> byte c < 0x80"
  shows "compact True (take n (c # s) @ t) = take n (c # s) @ compact True t"
proof -
  have cont: "compact True (a # q) = a # compact True q" if "byte_in 0x80 0xBF a" for a q
  proof -
    have "a \<notin> {CHR 0x22, CHR 0x5C, CHR ''<'', CHR ''>'', CHR ''&'', CHR 0xE2}" using that by (auto simp: byte_in_def byte_def)
    then show ?thesis by (rule compact_plain)
  qed
  have n: "0 < n" "n \<le> Suc (length s)" using decode_rune_valid [OF assms(1,2)] by blast+
  then obtain p where p: "take n (c # s) = c # p" "p = take (n - 1) s" by (cases n) auto
  have conts: "list_all (byte_in 0x80 0xBF) p"
    unfolding p(2) by (rule decode_rune_conts [OF assms(1,2)])
  have ps: "compact True (p @ t) = p @ compact True t" using conts by (induction p) (simp_all add: cont del: compact.simps)
  have "compact True (c # p @ t) = c # compact True (p @ t)"
  proof (cases "c = CHR 0xE2")
    case False
    have "c \<notin> {CHR 0x22, CHR 0x5C, CHR ''<'', CHR ''>'', CHR ''&''}" using assms(5) by (auto simp: byte_def)
    then show ?thesis using False by (intro compact_plain) simp
  next
    case True
    have "\<exists>c1 c2. p = [c1, c2] \<and> r = 8192 + (byte c1 - 128) * 64 + (byte c2 - 128)"
      using assms(1,2) p(2) unfolding True decode_rune_E2 by (auto split: if_splits list.splits)
    then obtain c1 c2 where c: "p = [c1, c2]" "r = 8192 + (byte c1 - 128) * 64 + (byte c2 - 128)" by blast
    have "\<not> prefix [CHR 0xE2, CHR 0x80, CHR 0xA8] (c # p @ t)" "\<not> prefix [CHR 0xE2, CHR 0x80, CHR 0xA9] (c # p @ t)"
      using c assms(3,4) by (auto simp: byte_def)
    then show ?thesis using True by simp
  qed
  then show ?thesis by (simp add: p(1) ps)
qed

lemma compact_encode_chars: "compact True (encode_chars True x @ CHR 0x22 # t) = encode_chars True x @ CHR 0x22 # compact False t"
proof (induction True x rule: encode_chars.induct)
  case (2 c s)
  show ?case
  proof (cases "byte c < 0x80")
    case True
    then have "encode_chars True (c # s) = encode_ascii True c @ encode_chars True s" by (simp add: encode_chars.simps)
    then show ?thesis using compact_encode_ascii [OF True] "2.hyps"(1) [OF True] by simp
  next
    case False
    obtain r n where d: "decode_rune (c # s) = (r, n)" by (cases "decode_rune (c # s)")
    have IH: "compact True (encode_chars True (drop (n - 1) s) @ CHR 0x22 # t) = encode_chars True (drop (n - 1) s) @ CHR 0x22 # compact False t"
      using "2.hyps"(2) [OF False d [symmetric]] .
    have enc: "encode_chars True (c # s) = (if r = rune_error \<and> n = 1 \<or> r = 0x2028 \<or> r = 0x2029 then unicode_escape r else take n (c # s))
        @ encode_chars True (drop (n - 1) s)" using False by (simp add: encode_chars.simps d del: decode_rune.simps)
    show ?thesis
    proof (cases "r = rune_error \<and> n = 1 \<or> r = 0x2028 \<or> r = 0x2029")
      case True
      then show ?thesis unfolding enc if_P [OF True] append_assoc by (simp only: compact_unicode_escape IH)
    next
      case other: False
      then have "\<not> (r = rune_error \<and> n = 1)" "r \<noteq> 0x2028" "r \<noteq> 0x2029" by auto
      from compact_rune [OF d this False] show ?thesis unfolding enc if_not_P [OF other] append_assoc by (simp only: IH)
    qed
  qed
qed simp

lemma compact_json_string: "compact False (json_string x) = json_string x"
  using compact_encode_chars [of x "[]"] by (simp add: json_text_def is_ws_def)

end
