(* ===== verification/JsonWrite.thy ===== *)
theory JsonWrite
  imports JsonPrint
begin

text \<open>
  The text \<^verbatim>\<open>encoding/json\<close> writes for a Go value of strings, integers, Booleans, slices and maps, and the
  round trip: a reader gets the value back.
\<close>

subsection \<open>Writing values\<close>

text \<open>A Go value made of strings, numbers, Booleans, slices and maps; the keys of a map come in order. \<open>JsNum l\<close> is a
  float, as the literal \<open>l\<close>; \<open>JsNull\<close> a nil slice or map.\<close>

datatype jtree = JsNull | JsStr string | JsInt int | JsNum string | JsBool bool | JsArr "jtree list" | JsObj "(string \<times> jtree) list"

fun write_json :: "bool \<Rightarrow> jtree \<Rightarrow> string" where
  "write_json html JsNull = ''null''"
| "write_json html (JsStr x) = json_text html x"
| "write_json html (JsInt n) = decimal_int n"
| "write_json html (JsNum l) = l"
| "write_json html (JsBool b) = json_bool b"
| "write_json html (JsArr ts) = CHR 0x5B # comma_separated (map (write_json html) ts) @ [CHR 0x5D]"
| "write_json html (JsObj ms) = CHR 0x7B # comma_separated (map (\<lambda>(k, t). json_text html k @ CHR '':'' # write_json html t) ms) @ [CHR 0x7D]"

text \<open>What a reader gets.\<close>

fun value_of :: "bool \<Rightarrow> jtree \<Rightarrow> jv" where
  "value_of html JsNull = VNull"
| "value_of html (JsStr x) = VStr (to_valid x)"
| "value_of html (JsInt n) = VNum (decimal_int n)"
| "value_of html (JsNum l) = VNum l"
| "value_of html (JsBool b) = VBool b"
| "value_of html (JsArr ts) = VArr (map (\<lambda>t. (write_json html t, value_of html t)) ts)"
| "value_of html (JsObj ms) = VObj (map (\<lambda>(k, t). (to_valid k, write_json html t, value_of html t)) ms)"

fun nesting :: "jtree \<Rightarrow> nat" where
  "nesting (JsArr ts) = Suc (Max (insert 0 (nesting ` set ts)))"
| "nesting (JsObj ms) = Suc (Max (insert 0 ((\<lambda>(k, t). nesting t) ` set ms)))"
| "nesting _ = 0"

text \<open>The floats are JSON numbers.\<close>

fun literals :: "jtree \<Rightarrow> bool" where
  "literals (JsNum l) \<longleftrightarrow> scan_number l = Some (l, [])"
| "literals (JsArr ts) \<longleftrightarrow> list_all literals ts"
| "literals (JsObj ms) \<longleftrightarrow> list_all (\<lambda>(k, t). literals t) ms"
| "literals _ \<longleftrightarrow> True"

text \<open>What may follow a value.\<close>

definition follows_value :: "string \<Rightarrow> bool" where
  "follows_value r \<longleftrightarrow> r = [] \<or> hd r \<in> {CHR '','', CHR 0x5D, CHR 0x7D, CHR 0x0A}"

lemma follows_value_simps [simp]:
  "follows_value []" "follows_value (CHR '','' # r)" "follows_value (CHR 0x5D # r)" "follows_value (CHR 0x7D # r)"
  "follows_value (CHR 0x0A # r)"
  by (simp_all add: follows_value_def)

lemma follows_ends: "follows_value t \<Longrightarrow> ends_number t"
  by (auto simp: follows_value_def ends_number_def is_digit_def byte_in_def byte_def)

lemma scan_digits_more:
  assumes "scan_digits s = Some (ds, r)" and "follows_value t"
  shows "scan_digits (s @ t) = Some (ds, r @ t) \<and> list_all is_digit ds"
proof -
  note d = scan_digits_Some [OF assms(1)]
  then have "ends_number (r @ t)" using follows_ends [OF assms(2)] by (cases r) (auto simp: ends_number_def)
  then show ?thesis using d scan_digits_append [of ds "r @ t"] by simp
qed

lemma follows_scan: "follows_value t \<Longrightarrow> scan_fraction t = Some ([], t) \<and> scan_exponent t = Some ([], t)"
  by (cases t) (auto simp: follows_value_def scan_fraction_def scan_exponent_def)

lemma scan_fraction_more:
  assumes "scan_fraction s = Some (f, r)" and "follows_value t"
  shows "scan_fraction (s @ t) = Some (f, r @ t) \<and> list_all (\<lambda>c. is_digit c \<or> c = CHR ''.'') f"
proof (cases s)
  case Nil
  then show ?thesis using assms(1) follows_scan [OF assms(2)] by (simp add: scan_fraction_def [of "[]"])
next
  case (Cons c u)
  show ?thesis
  proof (cases "c = CHR ''.''")
    case True
    then obtain ds where ds: "scan_digits u = Some (ds, r)" "f = c # ds"
      using assms(1) Cons by (auto simp: scan_fraction_def)
    then show ?thesis using scan_digits_more [OF ds(1) assms(2)] True Cons by (simp add: scan_fraction_def list_all_iff)
  qed (use assms(1) Cons in \<open>auto simp: scan_fraction_def\<close>)
qed

lemma scan_exponent_more:
  assumes "scan_exponent s = Some (x, r)" and "follows_value t"
  shows "scan_exponent (s @ t) = Some (x, r @ t) \<and>
    list_all (\<lambda>c. is_digit c \<or> c \<in> {CHR ''e'', CHR ''E'', CHR ''+'', CHR ''-''}) x"
proof (cases s)
  case Nil
  then show ?thesis using assms(1) follows_scan [OF assms(2)] by (simp add: scan_exponent_def [of "[]"])
next
  case (Cons c u)
  show ?thesis
  proof (cases "c = CHR ''e'' \<or> c = CHR ''E''")
    case True
    obtain g u' where u: "u = g # u'" using assms(1) Cons True by (cases u) (auto simp: scan_exponent_def)
    define sg where "sg = (if g = CHR ''+'' \<or> g = CHR ''-'' then [g] else [])"
    have e: "scan_exponent ((c # sg @ w)) = map_option (\<lambda>(ds, r). (c # sg @ ds, r)) (scan_digits w)"
      if "w \<noteq> []" "sg = [] \<longrightarrow> hd w = g" for w
      using that True by (cases w) (auto simp: scan_exponent_def sg_def)
    obtain w where w: "u = sg @ w" "sg = [] \<longrightarrow> w = u" using u by (cases "sg = []") (auto simp: sg_def split: if_splits)
    have "w \<noteq> []" using assms(1) Cons True u w by (auto simp: scan_exponent_def sg_def scan_digits_def split: if_splits)
    moreover from this have g: "sg = [] \<longrightarrow> hd w = g" "sg = [] \<longrightarrow> hd (w @ t) = g" using w u by auto
    ultimately obtain ds where ds: "scan_digits w = Some (ds, r)" "x = c # sg @ ds"
      using assms(1) e [of w] by (auto simp: Cons w(1))
    note more = scan_digits_more [OF ds(1) assms(2)]
    have "scan_exponent (s @ t) = Some (x, r @ t)"
      using e [of "w @ t"] \<open>w \<noteq> []\<close> g more by (simp add: Cons w(1) ds(2))
    moreover have "list_all (\<lambda>c. is_digit c \<or> c \<in> {CHR ''e'', CHR ''E'', CHR ''+'', CHR ''-''}) x"
      using more True by (auto simp: ds(2) sg_def list_all_iff)
    ultimately show ?thesis ..
  qed (use assms(1) Cons in \<open>auto simp: scan_exponent_def\<close>)
qed

lemma scan_number_more:
  assumes "scan_number s = Some (l, r)" and "follows_value t"
  shows "scan_number (s @ t) = Some (l, r @ t)" and "list_all (\<lambda>c. \<not> is_ws c \<and> c \<noteq> CHR 0x22) l"
    and "\<exists>c l'. l = c # l' \<and> (c = CHR ''-'' \<or> is_digit c)"
proof -
  define sign where "sign = (if s \<noteq> [] \<and> hd s = CHR ''-'' then (''-'', tl s) else ([], s))"
  obtain n s1 f s2 x where parts: "scan_integer (snd sign) = Some (n, s1)" "scan_fraction s1 = Some (f, s2)"
      "scan_exponent s2 = Some (x, r)" "l = fst sign @ n @ f @ x"
    using assms(1) unfolding scan_number_def sign_def [symmetric] by (auto split: option.splits prod.splits)
  have int: "scan_integer (snd sign @ t) = Some (n, s1 @ t) \<and> list_all is_digit n \<and> n \<noteq> []"
  proof (cases "\<exists>u. snd sign = CHR ''0'' # u")
    case False
    then have "scan_integer (snd sign @ q) = scan_digits (snd sign @ q)" if "snd sign \<noteq> []" for q
      using that by (cases "snd sign") (auto simp: scan_integer_def)
    moreover have "snd sign \<noteq> []" using parts(1) by (auto simp: scan_integer_def)
    ultimately have d: "scan_digits (snd sign) = Some (n, s1)" "scan_integer (snd sign @ t) = scan_digits (snd sign @ t)"
      using parts(1) by (metis append_Nil2)+
    then show ?thesis using scan_digits_more [OF d(1) assms(2)] scan_digits_literal [OF d(1)] by simp
  qed (use parts(1) in \<open>auto simp: scan_integer_def is_digit_def byte_in_def byte_def\<close>)
  note more = scan_fraction_more [OF parts(2) assms(2)] scan_exponent_more [OF parts(3) assms(2)]
  have "snd sign \<noteq> []" using parts(1) by (auto simp: scan_integer_def)
  then have "(if s @ t \<noteq> [] \<and> hd (s @ t) = CHR ''-'' then (''-'', tl (s @ t)) else ([], s @ t)) = (fst sign, snd sign @ t)"
    by (cases s) (auto simp: sign_def)
  then show "scan_number (s @ t) = Some (l, r @ t)" using int more by (simp add: scan_number_def parts(4))
  have "list_all (\<lambda>c. is_digit c \<or> c \<in> {CHR ''-'', CHR ''.'', CHR ''e'', CHR ''E'', CHR ''+''}) l"
    using int more by (auto simp: parts(4) sign_def list_all_iff)
  then show "list_all (\<lambda>c. \<not> is_ws c \<and> c \<noteq> CHR 0x22) l"
    by (rule list.pred_mono_strong) (auto simp: is_ws_def is_digit_def byte_in_def byte_def)
  show "\<exists>c l'. l = c # l' \<and> (c = CHR ''-'' \<or> is_digit c)"
    using int by (cases n) (auto simp: parts(4) sign_def)
qed

lemma scan_number_alone:
  assumes "scan_number s = Some (l, r)" shows "scan_number l = Some (l, [])"
proof -
  obtain p where "s = p @ r" "\<forall>r1. prefix r1 r \<longrightarrow> scan_number (p @ r1) = Some (l, r1)"
    using cutD [OF scan_number_cut(1) [OF assms]] by blast
  then show ?thesis using scan_number_cut(2) [OF assms] by (metis Nil_prefix append_Nil2 append_same_eq)
qed

lemma decimal_nat_digits: "list_all is_digit (decimal_nat n) \<and> decimal_nat n \<noteq> [] \<and> (0 < n \<longrightarrow> hd (decimal_nat n) \<noteq> CHR ''0'')"
proof (induction n rule: decimal_nat.induct)
  case (1 n)
  have digit: "is_digit (char_of (48 + k))" "0 < k \<Longrightarrow> char_of (48 + k) \<noteq> CHR ''0''" if "k < 10" for k :: nat
    using that by (auto simp: is_digit_def byte_in_def byte_def char_of_eq_iff take_bit_eq_mod)
  show ?case
  proof (cases "n < 10")
    case True
    then show ?thesis using digit [OF True] by (simp add: decimal_nat.simps [of n] del: decimal_nat.simps)
  next
    case False
    then show ?thesis using 1 digit [of "n mod 10"] by (subst (1 2 3) decimal_nat.simps) auto
  qed
qed

lemma scan_decimal:
  assumes "follows_value r" shows "scan_number (decimal_int n @ r) = Some (decimal_int n, r)"
proof -
  have e: "ends_number r" "r = [] \<or> hd r \<notin> {CHR ''.'', CHR ''e'', CHR ''E''}"
    using assms by (auto simp: follows_value_def ends_number_def is_digit_def byte_in_def byte_def)
  have rest: "scan_fraction r = Some ([], r)" "scan_exponent r = Some ([], r)"
    using e(2) by (cases r; simp add: scan_fraction_def scan_exponent_def)+
  have int: "scan_integer (decimal_nat k @ r) = Some (decimal_nat k, r)" for k
  proof (cases "k = 0")
    case True
    have "decimal_nat 0 = ''0''" by (simp add: decimal_nat.simps char_of_eq_iff)
    then show ?thesis by (simp add: True scan_integer_def)
  next
    case False
    then obtain c ds where ds: "decimal_nat k = c # ds" "c \<noteq> CHR ''0''" "list_all is_digit (c # ds)"
      using decimal_nat_digits [of k] by (cases "decimal_nat k") auto
    then show ?thesis using scan_digits_append [of "c # ds" r] e(1) by (simp add: scan_integer_def)
  qed
  have hd: "hd (decimal_nat k @ r) \<noteq> CHR ''-''" for k
    using decimal_nat_digits [of k] by (cases "decimal_nat k") (auto simp: is_digit_def byte_in_def byte_def)
  show ?thesis
  proof (cases "n < 0")
    case True
    then show ?thesis by (simp add: scan_number_def decimal_int_def int rest)
  next
    case False
    have "(if decimal_nat (nat n) @ r \<noteq> [] \<and> hd (decimal_nat (nat n) @ r) = CHR ''-''
        then (''-'', tl (decimal_nat (nat n) @ r)) else ([], decimal_nat (nat n) @ r)) = ([], decimal_nat (nat n) @ r)"
      using hd by simp
    then show ?thesis using False unfolding scan_number_def decimal_int_def
      by (simp only: if_False prod.case int rest option.case) simp
  qed
qed

lemma decimal_int_hd: "\<exists>c ds. decimal_int n = c # ds \<and> (c = CHR ''-'' \<or> is_digit c)"
  using decimal_nat_digits [of "nat n"] by (cases "decimal_nat (nat n)") (auto simp: decimal_int_def)

lemma scan_number_hd:
  "scan_number l = Some (l, []) \<Longrightarrow> l \<noteq> [] \<and> \<not> is_ws (hd l) \<and> hd l \<notin> {CHR 0x5D, CHR 0x7D, CHR 0x22, CHR 0x7B, CHR 0x5B, CHR ''n'', CHR ''t'', CHR ''f''}"
  using scan_number_more(3) [of l l "[]" "[]"] by (auto simp: is_ws_def is_digit_def byte_in_def byte_def)

lemma parse_scanned:
  assumes "scan_number l = Some (l, [])" and "follows_value r"
  shows "parse_value d (l @ r) = Some (VNum l, r)"
proof -
  obtain c ds where c: "l = c # ds" using scan_number_hd [OF assms(1)] by (cases l) auto
  have "parse_value d (l @ r) = map_option (\<lambda>(l, r). (VNum l, r)) (scan_number (l @ r))"
    using scan_number_hd [OF assms(1)] unfolding c append_Cons by (intro parse_number) auto
  then show ?thesis using scan_number_more(1) [OF assms] by simp
qed

lemma write_json_hd:
  "literals t \<Longrightarrow> write_json html t \<noteq> [] \<and> \<not> is_ws (hd (write_json html t)) \<and> hd (write_json html t) \<notin> {CHR 0x5D, CHR 0x7D}"
proof (cases t)
  case (JsNum l)
  moreover assume "literals t"
  ultimately show ?thesis using scan_number_hd [of l] by simp
next
  case (JsInt n)
  then show ?thesis
    using decimal_int_hd [of n] by (auto simp: is_ws_def is_digit_def byte_in_def byte_def)
qed (auto simp: json_text_def json_bool_def is_ws_def)

lemma skip_ws_write: "literals t \<Longrightarrow> skip_ws (write_json html t @ r) = write_json html t @ r"
  using skip_ws_append [of "[]" "write_json html t" r] write_json_hd [of t] by simp

lemma comma_separated_hd: "ts \<noteq> [] \<Longrightarrow> hd ts \<noteq> [] \<Longrightarrow> \<exists>q. comma_separated ts = hd ts @ q"
  by (cases ts rule: comma_separated.cases) auto

lemma parse_elems_write:
  assumes "\<And>t r. t \<in> set ts \<Longrightarrow> follows_value r \<Longrightarrow> parse_value d (write_json html t @ r) = Some (value_of html t, r)" and "ts \<noteq> []"
    and "list_all literals ts"
  shows "parse_elems d (comma_separated (map (write_json html) ts) @ CHR 0x5D # r) =
    Some (map (\<lambda>t. (write_json html t, value_of html t)) ts, r)"
  using assms
proof (induction ts rule: induct_list012)
  case (2 t)
  have "parse_value d (write_json html t @ CHR 0x5D # r) = Some (value_of html t, CHR 0x5D # r)" using 2 by simp
  then show ?case by (subst parse_elems.simps) (simp add: is_ws_def)
next
  case (3 t u ts)
  have lit: "literals t" "literals u" using "3.prems" by simp_all
  let ?rest = "comma_separated (map (write_json html) (u # ts)) @ CHR 0x5D # r"
  have v: "parse_value d (write_json html t @ CHR '','' # ?rest) = Some (value_of html t, CHR '','' # ?rest)" using 3 by simp
  obtain q where "comma_separated (map (write_json html) (u # ts)) = write_json html u @ q"
    using comma_separated_hd [of "map (write_json html) (u # ts)"] write_json_hd [OF lit(2)] by auto
  then have sk: "skip_ws ?rest = ?rest" using skip_ws_write [OF lit(2), of html "q @ CHR 0x5D # r"] by simp
  have "parse_elems d ?rest = Some (map (\<lambda>t. (write_json html t, value_of html t)) (u # ts), r)"
    using "3.IH"(2) "3.prems" by simp
  then have "parse_elems d (write_json html t @ CHR '','' # ?rest) = Some (map (\<lambda>t. (write_json html t, value_of html t)) (t # u # ts), r)"
    using v sk write_json_hd [OF lit(1)] by (subst parse_elems.simps) (simp add: is_ws_def)
  then show ?case by simp
qed simp

text \<open>\<open>stands d t v\<close>: wherever a value may stand, the text \<open>t\<close> is read to \<open>v\<close>.\<close>

definition stands :: "nat \<Rightarrow> string \<Rightarrow> jv \<Rightarrow> bool" where
  "stands d t v \<longleftrightarrow> t \<noteq> [] \<and> \<not> is_ws (hd t) \<and> (\<forall>r. follows_value r \<longrightarrow> parse_value d (t @ r) = Some (v, r))"

abbreviation members_text :: "bool \<Rightarrow> (string \<times> string \<times> jv) list \<Rightarrow> string" where
  "members_text html ms \<equiv> comma_separated (map (\<lambda>(k, t, v). json_text html k @ CHR '':'' # t) ms)"

lemma stands_skip: "stands d t v \<Longrightarrow> skip_ws (t @ r) = t @ r"
  by (cases t) (auto simp: stands_def)

lemma members_text_hd: "ms \<noteq> [] \<Longrightarrow> \<exists>q. members_text html ms = CHR 0x22 # q"
  using comma_separated_hd [of "map (\<lambda>(k, t, v). json_text html k @ CHR '':'' # t) ms"]
  by (cases ms) (auto simp: json_text_def split: prod.splits)

lemma parse_members_text:
  assumes "list_all (\<lambda>(k, t, v). stands d t v) ms" and "ms \<noteq> []"
  shows "parse_members d (members_text html ms @ CHR 0x7D # r) = Some (map (\<lambda>(k, t, v). (to_valid k, t, v)) ms, r)"
  using assms
proof (induction ms)
  case (Cons m ms)
  obtain k t v where m: "m = (k, t, v)" by (cases m)
  have t: "stands d t v" using Cons.prems(1) by (simp add: m)
  define rest where "rest = (if ms = [] then CHR 0x7D # r else CHR '','' # members_text html ms @ CHR 0x7D # r)"
  have v: "parse_value d (t @ rest) = Some (v, rest)" using t by (simp add: stands_def rest_def)
  have k: "scan_string (encode_chars html k @ CHR 0x22 # CHR '':'' # t @ rest) = Some (to_valid k, CHR '':'' # t @ rest)"
    by (rule scan_encode_chars)
  have all: "members_text html (m # ms) @ CHR 0x7D # r = CHR 0x22 # encode_chars html k @ CHR 0x22 # CHR '':'' # t @ rest"
    by (cases ms) (simp_all add: m rest_def json_text_def)
  show ?case
  proof (cases "ms = []")
    case True
    then show ?thesis unfolding all
      by (subst parse_members.simps) (use k v in \<open>simp add: stands_skip [OF t] is_ws_def rest_def m\<close>)
  next
    case False
    then have IH: "parse_members d (members_text html ms @ CHR 0x7D # r) = Some (map (\<lambda>(k, t, v). (to_valid k, t, v)) ms, r)"
      using Cons by simp
    have sk: "skip_ws (members_text html ms @ CHR 0x7D # r) = members_text html ms @ CHR 0x7D # r"
      using members_text_hd [OF False, of html] by (auto simp: is_ws_def)
    show ?thesis unfolding all
      by (subst parse_members.simps) (use k v IH sk False in \<open>simp add: stands_skip [OF t] is_ws_def rest_def m\<close>)
  qed
qed simp

text \<open>An object of such members.\<close>

lemma parse_object_text:
  assumes "list_all (\<lambda>(k, t, v). stands d t v) ms"
  shows "parse_value (Suc d) (CHR 0x7B # members_text html ms @ CHR 0x7D # r) =
    Some (VObj (map (\<lambda>(k, t, v). (to_valid k, t, v)) ms), r)"
proof (cases "ms = []")
  case True
  then show ?thesis by (simp add: parse_value.simps is_ws_def)
next
  case False
  obtain q where q: "members_text html ms = CHR 0x22 # q" using members_text_hd [OF False, of html] by blast
  then have "skip_ws (members_text html ms @ CHR 0x7D # r) = CHR 0x22 # q @ CHR 0x7D # r" by (simp add: is_ws_def)
  then show ?thesis using parse_members_text [OF assms False, of html r] q by (subst parse_value.simps) simp
qed

lemma parse_write:
  assumes "nesting t \<le> d" and "follows_value r" and "literals t"
  shows "parse_value d (write_json html t @ r) = Some (value_of html t, r)"
  using assms
proof (induction html t arbitrary: d r rule: write_json.induct)
  case (1 html)
  then show ?case using parse_literal_cut(1) [of "''null''" "''null'' @ r" d] by simp
next
  case (2 html x)
  then show ?case by (simp add: parse_json_string)
next
  case (3 html n)
  have "scan_number (decimal_int n) = Some (decimal_int n, [])" using scan_decimal [of "[]" n] by simp
  then show ?case using 3 by (simp add: parse_scanned)
next
  case (4 html l)
  then show ?case by (simp add: parse_scanned)
next
  case (5 html b)
  show ?case
    using parse_literal_cut(1) [of "json_bool b" "json_bool b @ r" d] by (cases b) (simp_all add: json_bool_def)
next
  case (6 html ts)
  show ?case
  proof (cases ts)
    case Nil
    then show ?thesis using "6.prems" by (simp add: parse_value.simps is_ws_def)
  next
    case (Cons t us)
    then obtain e where e: "d = Suc e" using "6.prems" by (cases d) auto
    have sub: "parse_value e (write_json html u @ q) = Some (value_of html u, q)" if "u \<in> set ts" "follows_value q" for u q
      by (rule "6.IH" [OF that(1) _ that(2)]) (use "6.prems"(1,3) that(1) e in \<open>auto simp: list_all_iff\<close>)
    have lit: "literals t" "list_all literals ts" using "6.prems"(3) Cons by auto
    let ?rest = "comma_separated (map (write_json html) ts) @ CHR 0x5D # r"
    have elems: "parse_elems e ?rest = Some (map (\<lambda>t. (write_json html t, value_of html t)) ts, r)"
      by (rule parse_elems_write) (use sub Cons lit in auto)
    obtain q where "comma_separated (map (write_json html) ts) = write_json html t @ q"
      using comma_separated_hd [of "map (write_json html) ts"] write_json_hd [OF lit(1)] by (auto simp: Cons)
    moreover obtain b u where "write_json html t = b # u" using write_json_hd [OF lit(1)] by (cases "write_json html t") auto
    ultimately have hd: "?rest = b # u @ q @ CHR 0x5D # r" "b \<noteq> CHR 0x5D" "\<not> is_ws b"
      using write_json_hd [OF lit(1), of html] by auto
    then have "skip_ws ?rest = b # u @ q @ CHR 0x5D # r" by simp
    then show ?thesis using elems hd by (subst parse_value.simps) (simp add: e)
  qed
next
  case (7 html ms)
  show ?case
  proof (cases d)
    case 0
    then show ?thesis using "7.prems"(1) by simp
  next
    case (Suc e)
    have "parse_value e (write_json html u @ q) = Some (value_of html u, q)" if "(k, u) \<in> set ms" "follows_value q" for k u q
      by (rule "7.IH" [OF that(1) refl _ that(2)]) (use "7.prems"(1,3) that(1) Suc in \<open>force simp: list_all_iff\<close>)+
    moreover have "literals u" if "(k, u) \<in> set ms" for k u using that "7.prems"(3) by (auto simp: list_all_iff)
    ultimately have "stands e (write_json html u) (value_of html u)" if "(k, u) \<in> set ms" for k u
      using that write_json_hd [of u] by (simp add: stands_def)
    then have "list_all (\<lambda>(k, t, v). stands e t v) (map (\<lambda>(k, t). (k, write_json html t, value_of html t)) ms)"
      by (auto simp: list_all_iff)
    from parse_object_text [OF this, of html r] show ?thesis
      by (simp add: Suc comp_def case_prod_unfold)
  qed
qed

lemma json_value_write:
  assumes "nesting t \<le> max_nesting" and "literals t"
  shows "json_value (write_json html t) = Some (value_of html t)" and "json_value (write_json html t @ [CHR 0x0A]) = Some (value_of html t)"
    and "first_value (write_json html t) = Some (value_of html t)"
  using parse_write [OF assms(1) _ assms(2), where html = html and r = "[]"] parse_write [OF assms(1) _ assms(2), where html = html and r = "[CHR 0x0A]"]
    skip_ws_write [OF assms(2), of html "[]"] skip_ws_write [OF assms(2), of html "[CHR 0x0A]"]
  by (simp_all add: json_value_def first_value_def is_ws_def)

end
