(* ===== verification/JsonCompact.thy ===== *)
theory JsonCompact
  imports JsonWrite
begin

text \<open>
  Compaction of a raw message: the text that \<^verbatim>\<open>json.Marshal\<close> writes for a \<^verbatim>\<open>json.RawMessage\<close> is read to the same
  value as the message itself.
\<close>

subsection \<open>String literals\<close>

abbreviation cont :: "char \<Rightarrow> bool" where
  "cont \<equiv> byte_in 0x80 0xBF"

text \<open>Decoding a rune looks at the first byte and the continuation bytes after it.\<close>

lemma decode_rune_front: "decode_rune (c # takeWhile cont s) = decode_rune (c # s)"
proof -
  have no: "\<not> byte_in a b d" if "\<not> cont d" "128 \<le> a" "b \<le> 191" for a b d
    using that byte_in_mono by blast
  show ?thesis
  proof (cases s)
    case (Cons c1 s1)
    show ?thesis
    proof (cases "cont c1")
      case one: True
      show ?thesis
      proof (cases s1)
        case (Cons c2 s2)
        show ?thesis
        proof (cases "cont c2")
          case True
          then show ?thesis using one \<open>s = _\<close> Cons no by (cases s2) (auto simp: Let_def)
        next
          case False
          then show ?thesis using one \<open>s = _\<close> Cons no [OF False] by (cases s2) (auto simp: Let_def)
        qed
      qed (use one Cons in simp)
    next
      case False
      then show ?thesis using Cons no [OF False] by (auto simp: Let_def split: list.split)
    qed
  qed simp
qed

lemma compact_cont: "cont c \<Longrightarrow> compact True (c # s) = c # compact True s"
  by (rule compact_plain) (auto simp: byte_in_def byte_def)

lemma compact_not_cont: "\<not> cont c \<Longrightarrow> \<exists>b t. compact True (c # s) = b # t \<and> \<not> cont b"
proof (cases "c \<in> {CHR 0x22, CHR 0x5C, CHR ''<'', CHR ''>'', CHR ''&'', CHR 0xE2}")
  case True
  then show ?thesis by (elim insertE emptyE; simp add: unicode_escape_def byte_in_def byte_def)
next
  case False
  then show "\<not> cont c \<Longrightarrow> ?thesis" using compact_plain [OF False] by simp
qed

lemma takeWhile_compact: "takeWhile cont (compact True s) = takeWhile cont s"
proof (induction s)
  case (Cons c s)
  show ?case
  proof (cases "cont c")
    case True
    then show ?thesis unfolding compact_cont [OF True] using Cons.IH by simp
  next
    case False
    obtain b t where "compact True (c # s) = b # t" "\<not> cont b" using compact_not_cont [OF False] by blast
    then show ?thesis using False by (simp del: compact.simps)
  qed
qed simp

lemma takeWhile_quote: "CHR 0x22 \<in> set l \<Longrightarrow> takeWhile cont (l @ q) = takeWhile cont l"
  by (rule takeWhile_append1 [of "CHR 0x22"]) (simp_all add: byte_in_def byte_char)

lemma decode_rune_separator:
  assumes "decode_rune (c # s) = (u, n)" and "u = 0x2028 \<or> u = 0x2029"
  shows "\<exists>t. c # s = [CHR 0xE2, CHR 0x80, char_of (u - 0x1F80)] @ t \<and> n = 3"
proof -
  have b: "0x80 \<le> byte d \<and> byte d \<le> 0xBF" if "cont d" for d using that by (simp add: byte_in_def)
  have un: "u \<noteq> rune_error" "\<not> u < 0x800" "\<not> 0xFFFF < u" using assms(2) by (auto simp: rune_error_def)
  have n3: "\<exists>c1 c2 t. s = c1 # c2 # t \<and> cont c1 \<and> cont c2 \<and> n = 3 \<and> 0xE0 \<le> byte c \<and>
      u = (byte c - 0xE0) * 4096 + (byte c1 - 0x80) * 64 + (byte c2 - 0x80)"
  proof -
    have two: "byte c < 0xE0 \<Longrightarrow> byte d \<le> 191 \<Longrightarrow> (byte c - 0xC0) * 64 + (byte d - 0x80) < 0x800" for d by linarith
    show ?thesis
      using assms(1) un two
      by (cases s rule: remdups_adj.cases; auto simp: Let_def byte_in_def split: if_splits list.splits; linarith)
  qed
  then obtain c1 c2 t where s: "s = c1 # c2 # t" "cont c1" "cont c2" "n = 3" "0xE0 \<le> byte c"
      and u: "u = (byte c - 0xE0) * 4096 + (byte c1 - 0x80) * 64 + (byte c2 - 0x80)" by blast
  have c: "byte c = 0xE2" using u assms(2) b [OF s(2)] b [OF s(3)] s(5) by linarith
  then have "(byte c1 - 0x80) * 64 < 64" using u assms(2) by auto
  then have c1: "byte c1 = 0x80" using b [OF s(2)] by linarith
  have "byte c2 = u - 0x1F80" using u c c1 b [OF s(3)] by simp
  with c c1 have "c = char_of (0xE2 :: nat)" "c1 = char_of (0x80 :: nat)" "c2 = char_of (u - 0x1F80)" using char_of_byte by metis+
  then show ?thesis using s by (simp add: char_of_eq_iff)
qed

text \<open>Escapes are copied, and mean the same whatever replaces the rest as long as it starts with the same low surrogate.\<close>

lemma hex_plain: "hex_value c = Some v \<Longrightarrow> c \<notin> {CHR 0x22, CHR 0x5C, CHR ''<'', CHR ''>'', CHR ''&'', CHR 0xE2}"
  by (auto simp: hex_value_def byte_in_def byte_def split: if_splits)

lemma hex4_copied: "hex4 s = Some h \<Longrightarrow> compact True (take 4 s @ t) = take 4 s @ compact True t"
  by (cases s rule: hex4.cases) (auto simp: compact_plain [OF hex_plain] simp del: compact.simps split: option.splits)

lemma hex4_take: "hex4 s = Some h \<Longrightarrow> hex4 (take 4 s @ t) = Some h \<and> length (take 4 s) = 4"
  by (cases s rule: hex4.cases) simp_all

lemma escape_cases:
  assumes "escape (e # s) = Some (out, k)"
  obtains (simple) "e \<noteq> CHR ''u''" "k = 1"
    | (unicode) h where "e = CHR ''u''" "k = 5" "hex4 s = Some h"
    | (pair) h h' where "e = CHR ''u''" "k = 11" "hex4 s = Some h" "is_surrogate h" "h < 0xDC00"
        "low_surrogate (drop 4 s) = Some h'"
  using assms by (auto split: if_splits option.splits bool.splits)

lemma low_surrogate_cases:
  assumes "low_surrogate s = Some h"
  obtains t where "s = CHR 0x5C # CHR ''u'' # t" and "hex4 t = Some h" and "0xDC00 \<le> h" and "h < 0xE000"
  using assms by (auto simp: low_surrogate_def split: list.splits if_splits option.splits)

lemma low_surrogate_take:
  assumes "low_surrogate s = Some h" shows "low_surrogate (take 6 s @ t) = Some h \<and> length (take 6 s) = 6"
proof (rule low_surrogate_cases [OF assms])
  fix s' assume s': "s = CHR 0x5C # CHR ''u'' # s'" "hex4 s' = Some h" "0xDC00 \<le> h" "h < 0xE000"
  then show ?thesis using hex4_take [OF s'(2), of t] by (simp add: low_surrogate_def)
qed

lemma escape_replace:
  assumes "escape s = Some (out, k)" and "low_surrogate t = low_surrogate (drop k s)"
  shows "escape (take k s @ t) = Some (out, k)"
proof (cases s)
  case (Cons e s')
  show ?thesis
  proof (cases rule: escape_cases [OF assms(1) [unfolded Cons]])
    case 1
    then show ?thesis using assms(1) escape_simple [OF 1(1), of s' t] by (simp only: Cons) simp
  next
    case (2 h)
    note h = hex4_take [OF 2(3), of t]
    then have "drop 4 (take 4 s' @ t) = t" by simp
    then show ?thesis using assms Cons 2 h by (simp split: if_splits bool.splits)
  next
    case (3 h h')
    note h = hex4_take [OF 3(3)] low_surrogate_take [OF 3(6), of t]
    have "take 10 s' @ t = take 4 s' @ take 6 (drop 4 s') @ t" by (simp add: take_add [of 4 6, simplified])
    moreover have "drop 4 (take 4 s' @ q) = q" for q using h(1) by simp
    ultimately show ?thesis using assms(1) Cons 3 h by simp
  qed
qed (use assms in simp)

lemma escape_copied:
  assumes "escape s = Some (out, k)"
  shows "compact True (CHR 0x5C # take k s @ t) = CHR 0x5C # take k s @ compact True t"
proof (cases s)
  case (Cons e s')
  show ?thesis
  proof (cases rule: escape_cases [OF assms [unfolded Cons]])
    case 1
    then show ?thesis using Cons by simp
  next
    case (2 h)
    then show ?thesis using Cons hex4_copied [OF 2(3), of t] by simp
  next
    case (3 h h')
    then obtain u where u: "drop 4 s' = CHR 0x5C # CHR ''u'' # u" "hex4 u = Some h'"
      by (auto elim: low_surrogate_cases)
    have "take 10 s' = take 4 s' @ CHR 0x5C # CHR ''u'' # take 4 u"
      using take_add [of 4 6 s'] u(1) by simp
    then show ?thesis using Cons 3 hex4_copied [OF 3(3)] hex4_copied [OF u(2), of t] by simp
  qed
qed (use assms in simp)

lemma low_surrogate_escape:
  assumes "escape s = Some (out, k)"
  shows "low_surrogate (CHR 0x5C # take k s @ t) = low_surrogate (CHR 0x5C # s)"
proof (cases s)
  case (Cons e s')
  have "hex4 (take 4 s' @ q) = hex4 s'" if "hex4 s' = Some h" for q h using hex4_take [OF that] that by simp
  moreover have "take 10 s' @ t = take 4 s' @ take 6 (drop 4 s') @ t" by (simp add: take_add [of 4 6, simplified])
  ultimately show ?thesis
    using Cons by (cases rule: escape_cases [OF assms [unfolded Cons]]) (simp_all add: low_surrogate_def)
qed (use assms in simp)

lemma low_surrogate_other: "c \<noteq> CHR 0x5C \<Longrightarrow> low_surrogate (c # s) = None"
  by (cases s) (simp_all add: low_surrogate_def)

lemma low_surrogate_unicode_escape: "r < 0xDC00 \<Longrightarrow> low_surrogate (unicode_escape r @ t) = None"
  using hex4_unicode [of r t] by (simp add: low_surrogate_def unicode_escape_def del: hex4.simps)

text \<open>
  A literal after its opening quote: the text \<open>l\<close> of it becomes \<open>m\<close>, which is read to the same string.
\<close>

definition squeezed_string :: "string \<Rightarrow> string \<Rightarrow> string \<Rightarrow> string \<Rightarrow> string \<Rightarrow> bool" where
  "squeezed_string s x r l m \<longleftrightarrow> s = l @ r \<and> CHR 0x22 \<in> set l \<and> CHR 0x22 \<in> set m \<and>
     (\<forall>q. compact True (l @ q) = m @ compact False q \<and> scan_string (m @ q) = Some (x, q) \<and>
       low_surrogate (m @ q) = low_surrogate s)"

text \<open>One more character, escape or rune \<open>a\<close> in front, written as \<open>b\<close>.\<close>

lemma squeezed_string_step:
  assumes "squeezed_string s x r l m" and "\<And>q. compact True (a @ l @ q) = b @ compact True (l @ q)"
    and "\<And>q. scan_string (b @ m @ q) = map_option (\<lambda>(x, r). (y @ x, r)) (scan_string (m @ q))"
    and "\<And>q. low_surrogate (b @ m @ q) = low_surrogate (a @ s)"
  shows "squeezed_string (a @ s) (y @ x) r (a @ l) (b @ m)"
  using assms by (auto simp: squeezed_string_def)

lemma scan_string_squeezed: "scan_string s = Some (x, r) \<Longrightarrow> \<exists>l m. squeezed_string s x r l m"
proof (induction s arbitrary: x rule: scan_string.induct)
  case (2 c s)
  consider (close) "c = CHR 0x22" | (esc) "c = CHR 0x5C" | (rune) "c \<noteq> CHR 0x22" "c \<noteq> CHR 0x5C" by blast
  then show ?case
  proof cases
    case close
    with "2.prems" have "squeezed_string (c # s) x r [c] [c]"
      by (simp add: squeezed_string_def scan_string.simps low_surrogate_other)
    then show ?thesis by blast
  next
    case esc
    with "2.prems" obtain out k y where e: "escape s = Some (out, k)" "scan_string (drop k s) = Some (y, r)" "x = out @ y"
      by (auto simp: scan_string.simps split: option.splits)
    obtain l m where lm: "squeezed_string (drop k s) y r l m" using "2.IH"(1) [OF _ esc e(1) refl e(2)] esc by auto
    have k: "k \<le> length s" using e(1) by (rule escape_width_le)
    have scan: "scan_string ((CHR 0x5C # take k s) @ m @ q) = map_option (\<lambda>(x, r). (out @ x, r)) (scan_string (m @ q))" for q
      using escape_replace [OF e(1), of "m @ q"] lm k
      by (simp add: squeezed_string_def scan_string.simps(2) [of "CHR 0x5C"])
    have "squeezed_string ((CHR 0x5C # take k s) @ drop k s) (out @ y) r ((CHR 0x5C # take k s) @ l) ((CHR 0x5C # take k s) @ m)"
      by (rule squeezed_string_step [OF lm _ scan]) (use escape_copied [OF e(1)] low_surrogate_escape [OF e(1)] in simp_all)
    then show ?thesis using esc e(3) by auto
  next
    case rune
    with "2.prems" obtain u n y where e: "decode_rune (c # s) = (u, n)" "scan_string (drop (n - 1) s) = Some (y, r)"
        "x = encode_rune u @ y" and c: "\<not> byte c < 0x20"
      by (auto simp: scan_string.simps split: if_splits prod.splits)
    obtain l m where lm: "squeezed_string (drop (n - 1) s) y r l m" using "2.IH"(2) [OF rune c e(1) [symmetric] e(2)] by blast
    show ?thesis
    proof (cases "u = rune_error \<and> n = 1")
      case True
      then have s: "drop (n - 1) s = s" by simp
      have high: "\<not> byte c < 0x80" using e(1) True by (auto simp: rune_error_def)
      have sub: "c \<notin> {CHR 0x22, CHR 0x5C, CHR ''<'', CHR ''>'', CHR ''&''}" using high by (auto simp: byte_def)
      have lr: "s = l @ r" "CHR 0x22 \<in> set l" "CHR 0x22 \<in> set m" and m: "compact True (l @ q) = m @ compact False q" for q
        using lm [unfolded s] by (simp_all add: squeezed_string_def)
      have "takeWhile cont m = takeWhile cont l"
        using takeWhile_compact [of "l @ []"] m [of "[]"] by simp
      then have dl: "decode_rune (c # l @ q) = (u, n)" and dm: "decode_rune (c # m @ q) = (u, n)" for q
        using e(1) lr decode_rune_front [of c "l @ q"] decode_rune_front [of c "l @ r"] decode_rune_front [of c "m @ q"]
        by (simp_all add: takeWhile_quote del: decode_rune.simps)
      have copy: "compact True ([c] @ l @ q) = [c] @ compact True (l @ q)" for q
      proof (cases "c = CHR 0xE2")
        case False
        then show ?thesis using sub by (simp add: compact_plain del: compact.simps)
      next
        case E2: True
        have "\<not> prefix [CHR 0xE2, CHR 0x80, CHR 0xA8] (c # l @ q)" "\<not> prefix [CHR 0xE2, CHR 0x80, CHR 0xA9] (c # l @ q)"
          using dl [of q] True unfolding E2 decode_rune_E2
          by (auto simp: byte_in_def byte_def rune_error_def prefix_def)
        then show ?thesis using E2 by simp
      qed
      have scan: "scan_string ([c] @ m @ q) = map_option (\<lambda>(x, r). (encode_rune u @ x, r)) (scan_string (m @ q))" for q
        using rune c dm [of q] True by (simp add: scan_string.simps(2) [of c] del: decode_rune.simps)
      have "squeezed_string ([c] @ s) (encode_rune u @ y) r ([c] @ l) ([c] @ m)"
        by (rule squeezed_string_step [OF lm [unfolded s] copy scan]) (use rune in \<open>simp add: low_surrogate_other\<close>)
      then show ?thesis using e(3) by auto
    next
      case False
      note v = decode_rune_valid [OF e(1) False]
      define a where "a = take n (c # s)"
      obtain p where p: "a = c # p" "length p = n - 1" using v(1,2) by (cases n) (simp_all add: a_def)
      have cs: "c # s = a @ drop (n - 1) s" using v(1) by (cases n) (simp_all add: a_def)
      have step: "\<exists>l m. squeezed_string (c # s) x r l m"
        if "\<And>q. compact True (a @ q) = b @ compact True q"
          and "\<And>q. scan_string (b @ q) = map_option (\<lambda>(x, r). (encode_rune u @ x, r)) (scan_string q)"
          and "\<And>q. low_surrogate (b @ q) = None" for b
        unfolding cs e(3)
        by (intro exI, rule squeezed_string_step [OF lm, of a b]) (use that rune in \<open>simp_all add: p low_surrogate_other\<close>)
      consider (html) "c \<in> {CHR ''<'', CHR ''>'', CHR ''&''}" | (sep) "u = 0x2028 \<or> u = 0x2029"
        | (plain) "c \<notin> {CHR ''<'', CHR ''>'', CHR ''&''}" "u \<noteq> 0x2028" "u \<noteq> 0x2029" by blast
      then show ?thesis
      proof cases
        case html
        then have b: "byte c < 0x80" by (auto simp: byte_def)
        then have un: "u = byte c" "n = 1" using e(1) by simp_all
        show ?thesis
          by (rule step [of "unicode_escape u"])
            (use html b in \<open>auto simp: a_def un scan_unicode_escape is_surrogate_def low_surrogate_unicode_escape\<close>)
      next
        case sep
        obtain t where t: "c # s = [CHR 0xE2, CHR 0x80, char_of (u - 0x1F80)] @ t" "n = 3"
          using decode_rune_separator [OF e(1) sep] by blast
        have a: "a = [CHR 0xE2, CHR 0x80, char_of (u - 0x1F80)]" using t unfolding a_def by simp
        have "char_of (168 :: nat) = CHR 0xA8" "char_of (169 :: nat) = CHR 0xA9" by (simp_all add: char_of_eq_iff)
        then have "a = [CHR 0xE2, CHR 0x80, if u = 0x2028 then CHR 0xA8 else CHR 0xA9]" using sep a by auto
        then have copy: "compact True (a @ q) = unicode_escape u @ compact True q" for q using sep by auto
        have "u < 0xD800" using sep by auto
        then show ?thesis
          by (intro step [OF copy]) (simp_all add: scan_unicode_escape is_surrogate_def low_surrogate_unicode_escape)
      next
        case plain
        have copy: "compact True (a @ q) = a @ compact True q" for q
        proof (cases "byte c < 0x80")
          case True
          then have "a = [c]" "c \<noteq> CHR 0xE2" using e(1) by (auto simp: a_def byte_def)
          then show ?thesis using plain rune by (simp add: compact_plain del: compact.simps)
        next
          case high: False
          show ?thesis unfolding a_def by (rule compact_rune [OF e(1) False plain(2,3) high])
        qed
        have scan: "scan_string (a @ q) = map_option (\<lambda>(x, r). (encode_rune u @ x, r)) (scan_string q)" for q
        proof -
          have d: "decode_rune (c # p @ q) = (u, n)" using v(3) [of q] unfolding a_def [symmetric] p(1) by simp
          show ?thesis using rune c p(2) d by (simp add: p(1) scan_string.simps(2) [of c "p @ q"] del: decode_rune.simps)
        qed
        show ?thesis by (rule step [OF copy scan]) (use rune in \<open>simp add: p(1) low_surrogate_other\<close>)
      qed
    qed
  qed
qed simp

subsection \<open>Numbers and white space\<close>

lemma compact_skip: "list_all is_ws w \<Longrightarrow> compact False (w @ q) = compact False q"
  by (induction w) simp_all

lemma compact_copied:
  "list_all (\<lambda>c. \<not> is_ws c \<and> c \<noteq> CHR 0x22) l \<Longrightarrow> compact False (l @ q) = l @ compact False q"
  by (induction l) auto

subsection \<open>Values\<close>

text \<open>A value with the texts in it compacted.\<close>

fun recompact :: "jv \<Rightarrow> jv" where
  "recompact (VArr es) = VArr (map (\<lambda>(raw, v). (compact False raw, recompact v)) es)"
| "recompact (VObj ms) = VObj (map (\<lambda>(k, raw, v). (k, compact False raw, recompact v)) ms)"
| "recompact v = v"

text \<open>\<open>f\<close> reads the front \<open>p\<close> of \<open>s\<close>; \<open>p\<close> becomes \<open>m\<close>, which is read to \<open>y\<close>.\<close>

definition squeezed :: "(string \<Rightarrow> ('a \<times> string) option) \<Rightarrow> string \<Rightarrow> 'a \<Rightarrow> string \<Rightarrow> string \<Rightarrow> string \<Rightarrow> bool" where
  "squeezed f s y r p m \<longleftrightarrow> s = p @ r \<and> p \<noteq> [] \<and> m \<noteq> [] \<and> \<not> is_ws (hd p) \<and> hd m = hd p \<and>
     (\<forall>q. compact False (p @ q) = m @ compact False q) \<and> (\<forall>t. follows_value t \<longrightarrow> f (m @ t) = Some (y, t))"

lemma squeezedI:
  assumes "s = (c # p) @ r" and "\<not> is_ws c" and "\<And>q. compact False (c # p @ q) = c # m @ compact False q"
    and "\<And>t. follows_value t \<Longrightarrow> f (c # m @ t) = Some (y, t)"
  shows "\<exists>p m. squeezed f s y r p m"
  by (rule exI [of _ "c # p"], rule exI [of _ "c # m"]) (use assms in \<open>simp add: squeezed_def\<close>)

lemma squeezed_skip: "squeezed f s y r p m \<Longrightarrow> skip_ws (m @ t) = m @ t"
  by (cases m) (auto simp: squeezed_def)

lemma squeezed_text: "squeezed f s y r p m \<Longrightarrow> take (length s - length r) s = p \<and> compact False p = m"
  by (simp add: squeezed_def) (metis append_Nil2 compact.simps(1))

lemma squeezed_split:
  assumes "squeezed f (skip_ws u) y r p m"
  obtains w where "u = w @ p @ r" and "list_all is_ws w"
  using assms skip_ws_split [of u p r] by (auto simp: squeezed_def)

lemma parse_literal_squeezed:
  assumes "lit \<in> {''null'', ''true'', ''false''}" and "prefix lit s" and "parse_value d s = Some (v, r)"
  shows "\<exists>p m. squeezed (parse_value d) s (recompact v) r p m"
proof -
  note v = parse_literal_cut(1) [OF assms(1), of s d] parse_literal_cut(1) [OF assms(1), of "lit @ _" d]
  have "compact False (lit @ q) = lit @ compact False q" for q
    by (rule compact_copied) (use assms(1) in \<open>auto simp: is_ws_def\<close>)
  then have "squeezed (parse_value d) s (recompact v) r lit lit"
    using assms v by (auto simp: squeezed_def is_ws_def prefix_def)
  then show ?thesis by blast
qed

lemma parse_number_squeezed:
  assumes "scan_number s = Some (l, r)" shows "\<exists>p m. squeezed (parse_value d) s (VNum l) r p m"
proof -
  note more = scan_number_more [OF scan_number_alone [OF assms]]
  have "follows_value []" by simp
  from more(2,3) [OF this] obtain c l' where l: "l = c # l'" "c = CHR ''-'' \<or> is_digit c" and copy: "list_all (\<lambda>c. \<not> is_ws c \<and> c \<noteq> CHR 0x22) l"
    by blast
  have no: "c \<noteq> CHR 0x22" "c \<noteq> CHR 0x7B" "c \<noteq> CHR 0x5B" "c \<noteq> CHR ''n''" "c \<noteq> CHR ''t''" "c \<noteq> CHR ''f''"
    using l(2) by (auto simp: is_digit_def byte_in_def byte_def)
  have "parse_value d (c # l' @ t) = Some (VNum l, t)" if "follows_value t" for t
    using parse_number [OF no(1-3), of "l' @ t" d] no(4-6) more(1) [OF that] by (simp add: l(1))
  then show ?thesis
    using scan_number_cut(2) [OF assms] copy compact_copied [OF copy]
    by (intro squeezedI [of s c l' r l']) (auto simp: l(1))
qed

lemma parse_squeezed:
  "parse_value d s = Some (v, r) \<Longrightarrow> \<exists>p m. squeezed (parse_value d) s (recompact v) r p m"
  "parse_elems d s = Some (es, r) \<Longrightarrow>
     \<exists>p m. squeezed (parse_elems d) s (map (\<lambda>(raw, v). (compact False raw, recompact v)) es) r p m"
  "parse_members d s = Some (ms, r) \<Longrightarrow>
     \<exists>p m. squeezed (parse_members d) s (map (\<lambda>(k, raw, v). (k, compact False raw, recompact v)) ms) r p m"
proof (induction d s and d s and d s arbitrary: v r and es r and ms r
    rule: parse_value_parse_elems_parse_members.induct)
  case (1 d s)
  obtain c t where s: "s = c # t" using "1.prems"(1) by (cases s) (simp_all add: parse_value.simps)
  consider (str) "c = CHR 0x22" | (obj) "c = CHR 0x7B" | (arr) "c = CHR 0x5B"
    | (lit) lit where "lit \<in> {''null'', ''true'', ''false''}" "prefix lit s"
    | (num) "c \<noteq> CHR 0x22" "c \<noteq> CHR 0x7B" "c \<noteq> CHR 0x5B" "\<not> prefix ''null'' s" "\<not> prefix ''true'' s" "\<not> prefix ''false'' s"
    by blast
  then show ?case
  proof cases
    case str
    then obtain x where x: "scan_string t = Some (x, r)" "v = VStr x" using "1.prems"(1) s
      by (auto simp: parse_value.simps)
    obtain l m where "squeezed_string t x r l m" using scan_string_squeezed [OF x(1)] by blast
    then show ?thesis
      by (intro squeezedI [of s c l r m]) (simp_all add: s str x(2) squeezed_string_def is_ws_def parse_value.simps)
  next
    case lit
    then show ?thesis using "1.prems" by (rule parse_literal_squeezed)
  next
    case num
    have "parse_value d s = map_option (\<lambda>(l, r). (VNum l, r)) (scan_number s)"
      using num unfolding s by (rule parse_number)
    then obtain l where l: "scan_number s = Some (l, r)" "v = VNum l"
      using "1.prems"(1) by (cases "scan_number s") auto
    then show ?thesis using parse_number_squeezed by simp
  next
    case obj
    then obtain e where d: "d = Suc e" using "1.prems"(1) s by (cases d) (auto simp: parse_value.simps)
    then have d0: "d \<noteq> 0" by simp
    obtain b u where b: "skip_ws t = b # u" using "1.prems"(1) s obj d
      by (auto simp: parse_value.simps split: list.splits)
    show ?thesis
    proof (cases "b = CHR 0x7D")
      case True
      obtain w where w: "t = w @ b # u" "list_all is_ws w" using skip_ws_split [of t "[b]" u] b by auto
      have "v = VObj []" "r = u" using "1.prems"(1) s obj d b True by (simp_all add: parse_value.simps)
      then show ?thesis
        by (intro squeezedI [of s c "w @ [b]" r "[b]"])
          (use w s obj d True in \<open>simp_all add: is_ws_def compact_skip parse_value.simps\<close>)
    next
      case False
      then obtain ms where ms: "parse_members (d - 1) (skip_ws t) = Some (ms, r)" "v = VObj ms"
        using "1.prems"(1) s obj d b by (auto simp: parse_value.simps)
      have no: "c \<noteq> CHR 0x22" using obj by simp
      obtain p m where q: "squeezed (parse_members (d - 1)) (skip_ws t)
          (map (\<lambda>(k, raw, v). (k, compact False raw, recompact v)) ms) r p m"
        using "1.IH"(1) [OF s no obj d0 b False ms(1)] by blast
      obtain w where w: "t = w @ p @ r" "list_all is_ws w" using q by (rule squeezed_split)
      obtain p' m' where m: "p = b # p'" "m = b # m'" using q b by (cases m; cases p) (auto simp: squeezed_def)
      have c': "compact False (c # (w @ p) @ q) = c # m @ compact False q" for q
        using q w(2) by (simp add: obj is_ws_def compact_skip squeezed_def)
      have "parse_value d (c # m @ q) = Some (recompact v, q)" if "follows_value q" for q
        using that q squeezed_skip [OF q, of q] False ms(2)
        by (simp add: obj d parse_value.simps squeezed_def m)
      with c' show ?thesis
        by (intro squeezedI [of s c "w @ p" r m]) (use w s obj in \<open>simp_all add: is_ws_def\<close>)
    qed
  next
    case arr
    then have no: "c \<noteq> CHR 0x22" "c \<noteq> CHR 0x7B" by simp_all
    from arr obtain e where d: "d = Suc e" using "1.prems"(1) s by (cases d) (auto simp: parse_value.simps)
    then have d0: "d \<noteq> 0" by simp
    obtain b u where b: "skip_ws t = b # u" using "1.prems"(1) s arr d
      by (auto simp: parse_value.simps split: list.splits)
    show ?thesis
    proof (cases "b = CHR 0x5D")
      case True
      obtain w where w: "t = w @ b # u" "list_all is_ws w" using skip_ws_split [of t "[b]" u] b by auto
      have "v = VArr []" "r = u" using "1.prems"(1) s arr d b True by (simp_all add: parse_value.simps)
      then show ?thesis
        by (intro squeezedI [of s c "w @ [b]" r "[b]"])
          (use w s arr d True in \<open>simp_all add: is_ws_def compact_skip parse_value.simps\<close>)
    next
      case False
      then obtain es where es: "parse_elems (d - 1) (skip_ws t) = Some (es, r)" "v = VArr es"
        using "1.prems"(1) s arr d b by (auto simp: parse_value.simps)
      obtain p m where q: "squeezed (parse_elems (d - 1)) (skip_ws t)
          (map (\<lambda>(raw, v). (compact False raw, recompact v)) es) r p m"
        using "1.IH"(2) [OF s no arr d0 b False es(1)] by blast
      obtain w where w: "t = w @ p @ r" "list_all is_ws w" using q by (rule squeezed_split)
      obtain p' m' where m: "p = b # p'" "m = b # m'" using q b by (cases m; cases p) (auto simp: squeezed_def)
      have c': "compact False (c # (w @ p) @ q) = c # m @ compact False q" for q
        using q w(2) by (simp add: arr is_ws_def compact_skip squeezed_def)
      have "parse_value d (c # m @ q) = Some (recompact v, q)" if "follows_value q" for q
        using that q squeezed_skip [OF q, of q] False es(2)
        by (simp add: arr d parse_value.simps squeezed_def m)
      with c' show ?thesis
        by (intro squeezedI [of s c "w @ p" r m]) (use w s arr in \<open>simp_all add: is_ws_def\<close>)
    qed
  qed
next
  case (2 d s)
  then obtain v r0 b u where v: "parse_value d s = Some (v, r0)" and b: "skip_ws r0 = b # u"
    by (auto simp: parse_elems.simps [of d s] split: option.splits list.splits)
  obtain p m where head: "squeezed (parse_value d) s (recompact v) r0 p m" using "2.IH"(1) [OF v] by blast
  note raw = squeezed_text [OF head]
  obtain w where w: "r0 = w @ b # u" "list_all is_ws w" "\<not> is_ws b" using skip_ws_split [of r0 "[b]" u] b by auto
  have elem: "parse_value d (m @ b # t) = Some (recompact v, b # t)" if "b = CHR 0x5D \<or> b = CHR '',''" for t
    using that head by (auto simp: squeezed_def)
  show ?case
  proof (cases "b = CHR 0x5D")
    case True
    then have res: "es = [(p, v)]" "r = u" using "2.prems"(1) v b raw by (auto simp: parse_elems.simps [of d s])
    have "parse_elems d (m @ b # t) = Some ([(m, recompact v)], t)" for t
      using elem True w(3) by (subst parse_elems.simps) simp
    then have "squeezed (parse_elems d) s [(m, recompact v)] r (p @ w @ [b]) (m @ [b])"
      using head w res(2) by (simp add: squeezed_def compact_skip True)
    then show ?thesis using res(1) raw by auto
  next
    case False
    with "2.prems"(1) v b obtain es' where es: "b = CHR '','' \<and> length u < length s" "parse_elems d (skip_ws u) = Some (es', r)"
        "es = (p, v) # es'"
      using raw by (auto simp: parse_elems.simps [of d s] split: if_splits)
    define out where "out = map (\<lambda>(raw, v). (compact False raw, recompact v)) es'"
    obtain p2 m2 where tail: "squeezed (parse_elems d) (skip_ws u) out r p2 m2"
      using "2.IH"(2) [OF v refl b False es(1,2)] unfolding out_def by blast
    obtain w2 where w2: "u = w2 @ p2 @ r" "list_all is_ws w2" using tail by (rule squeezed_split)
    have "parse_elems d (m @ b # m2 @ t) = Some ((m, recompact v) # out, t)" if "follows_value t" for t
    proof -
      have "parse_elems d (m2 @ t) = Some (out, t)" using tail that by (simp add: squeezed_def)
      then show ?thesis using elem es(1) w(3) squeezed_skip [OF tail] by (subst parse_elems.simps) simp
    qed
    then have "squeezed (parse_elems d) s ((m, recompact v) # out) r (p @ w @ b # w2 @ p2) (m @ b # m2)"
      using head tail w w2 es(1) by (simp add: squeezed_def compact_skip)
    then show ?thesis using es(3) raw by (auto simp: out_def)
  qed
next
  case (3 d s)
  then obtain t k t1 t2 where s: "s = CHR 0x22 # t" and k: "scan_string t = Some (k, t1)"
      and col: "skip_ws t1 = CHR '':'' # t2" "length t2 < length s"
    by (auto simp: parse_members.simps [of d s] split: option.splits list.splits if_splits)
  with "3.prems"(1) obtain v r0 b u where v: "parse_value d (skip_ws t2) = Some (v, r0)" and b: "skip_ws r0 = b # u"
    by (auto simp: parse_members.simps [of d "CHR 0x22 # t"] Let_def split: option.splits list.splits)
  have ncol: "\<not> (CHR '':'' \<noteq> CHR '':'' \<or> \<not> length t2 < length s)" using col(2) by simp
  obtain p m where head: "squeezed (parse_value d) (skip_ws t2) (recompact v) r0 p m"
    using "3.IH"(1) [OF s _ k refl col(1) ncol v] by auto
  note raw = squeezed_text [OF head]
  obtain l lm where name: "squeezed_string t k t1 l lm" using scan_string_squeezed [OF k] by blast
  obtain w1 where w1: "t1 = w1 @ CHR '':'' # t2" "list_all is_ws w1" using skip_ws_split [of t1 "[CHR '':'']" t2] col(1) by auto
  obtain w2 where w2: "t2 = w2 @ p @ r0" "list_all is_ws w2" using head by (rule squeezed_split)
  obtain w where w: "r0 = w @ b # u" "list_all is_ws w" "\<not> is_ws b" using skip_ws_split [of r0 "[b]" u] b by auto
  define front where "front = l @ w1 @ CHR '':'' # w2 @ p @ w @ [b]"
  define front' where "front' = lm @ CHR '':'' # m @ [b]"
  have s': "s = (CHR 0x22 # front) @ u" using name by (simp add: front_def s w1 w2 w squeezed_string_def)
  have text': "compact False (CHR 0x22 # front @ q) = CHR 0x22 # front' @ compact False q" if "b = CHR 0x7D \<or> b = CHR '',''" for q
  proof -
    have "compact True (l @ q) = lm @ compact False q" "compact False (p @ q) = m @ compact False q" for q
      using name head by (simp_all add: squeezed_string_def squeezed_def)
    moreover have "compact False (b # q) = b # compact False q" using that by (auto simp: is_ws_def)
    ultimately show ?thesis
      using compact_skip [OF w1(2)] compact_skip [OF w2(2)] compact_skip [OF w(2)]
      by (simp add: front_def front'_def is_ws_def del: list.pred_inject)
  qed
  have step: "parse_members d (CHR 0x22 # front' @ tail) =
      (if b = CHR 0x7D then Some ([(k, m, recompact v)], tail)
       else map_option (\<lambda>(ms, r'). ((k, m, recompact v) # ms, r')) (parse_members d (skip_ws tail)))"
    if "b = CHR 0x7D \<or> b = CHR '',''" for tail
  proof -
    have k': "scan_string (lm @ CHR '':'' # m @ b # tail) = Some (k, CHR '':'' # m @ b # tail)"
      using name by (simp add: squeezed_string_def)
    have v': "parse_value d (m @ b # tail) = Some (recompact v, b # tail)" using that head by (auto simp: squeezed_def)
    show ?thesis
      using that w(3) by (subst parse_members.simps) (auto simp: front'_def k' v' squeezed_skip [OF head] is_ws_def)
  qed
  show ?case
  proof (cases "b = CHR 0x7D")
    case True
    with "3.prems"(1) s k col v b have res: "ms = [(k, p, v)]" "r = u"
      using raw by (auto simp: parse_members.simps [of d "CHR 0x22 # t"] Let_def)
    show ?thesis
      by (rule squeezedI [of s "CHR 0x22" front r front']) (use True step text' s' raw res in \<open>simp_all add: is_ws_def\<close>)
  next
    case False
    with "3.prems"(1) s k col v b obtain ms' where ms: "b = CHR '','' \<and> length u < length s" "parse_members d (skip_ws u) = Some (ms', r)"
        "ms = (k, p, v) # ms'"
      using raw by (auto simp: parse_members.simps [of d "CHR 0x22 # t"] Let_def split: if_splits)
    define out where "out = map (\<lambda>(k, raw, v). (k, compact False raw, recompact v)) ms'"
    obtain p2 m2 where tail: "squeezed (parse_members d) (skip_ws u) out r p2 m2"
      using "3.IH"(2) [OF s _ k refl col(1) ncol v refl refl b False ms(1,2)] unfolding out_def by auto
    obtain w3 where w3: "u = w3 @ p2 @ r" "list_all is_ws w3" using tail by (rule squeezed_split)
    have t': "parse_members d (CHR 0x22 # front' @ m2 @ q) = Some ((k, m, recompact v) # out, q)" if "follows_value q" for q
    proof -
      have "parse_members d (m2 @ q) = Some (out, q)" using tail that by (simp add: squeezed_def)
      then show ?thesis using step [of "m2 @ q"] ms(1) False squeezed_skip [OF tail] by simp
    qed
    have c': "compact False (CHR 0x22 # front @ w3 @ p2 @ q) = CHR 0x22 # front' @ m2 @ compact False q" for q
      using text' [of "w3 @ p2 @ q"] ms(1) w3(2) tail by (simp add: compact_skip squeezed_def)
    have "map (\<lambda>(k, raw, v). (k, compact False raw, recompact v)) ms = (k, m, recompact v) # out"
      using raw by (simp add: ms(3) out_def)
    then show ?thesis
      by (intro squeezedI [of s "CHR 0x22" "front @ w3 @ p2" r "front' @ m2"])
        (use s' w3(1) c' t' in \<open>simp_all add: is_ws_def del: compact.simps\<close>)
  qed
qed

text \<open>A compacted text stands for the same value.\<close>

lemma stands_compact:
  assumes "reads d raw v" shows "stands d (compact False raw) (recompact v)"
proof -
  have v: "parse_value d raw = Some (v, [])" using assms by (simp add: reads_def)
  obtain p m where "squeezed (parse_value d) raw (recompact v) [] p m" using parse_squeezed(1) [OF v] by blast
  moreover from squeezed_text [OF this] have "p = raw" "m = compact False raw" by simp_all
  ultimately have q: "squeezed (parse_value d) raw (recompact v) [] raw (compact False raw)" by simp
  then show ?thesis by (simp add: squeezed_def stands_def)
qed

text \<open>A value without the texts in it.\<close>

fun plain :: "jv \<Rightarrow> jv" where
  "plain (VArr es) = VArr (map (\<lambda>(_, v). ([], plain v)) es)"
| "plain (VObj ms) = VObj (map (\<lambda>(k, _, v). (k, [], plain v)) ms)"
| "plain v = v"

lemma plain_recompact: "plain (recompact v) = plain v"
  by (induction v rule: recompact.induct) (auto simp: case_prod_unfold prod_eq_iff)

lemma stands_json_value:
  assumes "stands d t v" and "d \<le> max_nesting" shows "json_value t = Some v"
proof -
  have "follows_value r \<Longrightarrow> parse_value d (t @ r) = Some (v, r)" for r using assms(1) by (simp add: stands_def)
  from this [of "[]"] have "parse_value d t = Some (v, [])" by simp
  from parse_cut(1) [OF this assms(2)] have "parse_value max_nesting t = Some (v, [])" by (auto simp: cut_def)
  then show ?thesis using stands_skip [OF assms(1), of "[]"] by (simp add: json_value_def)
qed

lemma first_value_reads:
  assumes "first_value s = Some (VObj ms)" and "(k, raw, v) \<in> set ms"
  shows "reads (max_nesting - 1) raw v"
proof -
  obtain r where "parse_value max_nesting (skip_ws s) = Some (VObj ms, r)" using assms(1) by (auto simp: first_value_def)
  then obtain t where "parse_members (max_nesting - 1) t = Some (ms, r) \<or> ms = []"
    by (auto simp: parse_value.simps split: list.splits if_splits)
  then show ?thesis using parse_cut(3) [of "max_nesting - 1" t ms r "max_nesting - 1"] assms(2) by auto
qed

text \<open>The names of the members are valid UTF-8.\<close>

lemma parse_members_valid:
  "parse_value d s = Some (v, r) \<Longrightarrow> True"
  "parse_elems d s = Some (es, r) \<Longrightarrow> True"
  "parse_members d s = Some (ms, r) \<Longrightarrow> list_all (\<lambda>(k, _). to_valid k = k) ms"
proof (induction d s and d s and d s arbitrary: v r and es r and ms r
    rule: parse_value_parse_elems_parse_members.induct)
  case (3 d s)
  then obtain t k t1 t2 where s: "s = CHR 0x22 # t" and k: "scan_string t = Some (k, t1)"
      and col: "skip_ws t1 = CHR '':'' # t2" "length t2 < length s"
    by (auto simp: parse_members.simps [of d s] split: option.splits list.splits if_splits)
  with "3.prems"(1) obtain v r0 b u where v: "parse_value d (skip_ws t2) = Some (v, r0)" and b: "skip_ws r0 = b # u"
    by (auto simp: parse_members.simps [of d "CHR 0x22 # t"] Let_def split: option.splits list.splits)
  have ncol: "\<not> (CHR '':'' \<noteq> CHR '':'' \<or> \<not> length t2 < length s)" using col(2) by simp
  have name: "to_valid k = k" by (rule scan_string_valid [OF k])
  show ?case
  proof (cases "b = CHR 0x7D")
    case True
    with "3.prems"(1) s k col v b name show ?thesis
      by (auto simp: parse_members.simps [of d "CHR 0x22 # t"] Let_def)
  next
    case False
    with "3.prems"(1) s k col v b obtain ms' p where ms: "b = CHR '','' \<and> length u < length s" "parse_members d (skip_ws u) = Some (ms', r)"
        "ms = (k, p, v) # ms'"
      by (auto simp: parse_members.simps [of d "CHR 0x22 # t"] Let_def split: if_splits)
    have "list_all (\<lambda>(k, _). to_valid k = k) ms'"
      by (rule "3.IH"(2) [OF s _ k refl col(1) ncol v refl refl b False ms(1,2)]) simp
    then show ?thesis using name by (simp add: ms(3))
  qed
qed simp_all

lemma first_value_valid:
  assumes "first_value s = Some (VObj ms)" and "(k, x) \<in> set ms" shows "to_valid k = k"
proof -
  obtain r where "parse_value max_nesting (skip_ws s) = Some (VObj ms, r)" using assms(1) by (auto simp: first_value_def)
  then obtain t where "parse_members (max_nesting - 1) t = Some (ms, r) \<or> ms = []"
    by (auto simp: parse_value.simps split: list.splits if_splits)
  then show ?thesis using parse_members_valid(3) [of "max_nesting - 1" t ms r] assms(2) by (auto simp: list_all_iff)
qed

end
