(* ===== verification/Timestamps.thy ===== *)
theory Timestamps
  imports Json Domain
begin

text \<open>
  RFC 3339, the text of a \<^verbatim>\<open>time.Time\<close> in JSON: how \<^verbatim>\<open>UnmarshalJSON\<close> reads it, how \<^verbatim>\<open>MarshalJSON\<close> writes it, and the
  round trip. A time is the number of nanoseconds since the start of year 1.
\<close>

subsection \<open>Reading\<close>

definition digits_in :: "string \<Rightarrow> int \<Rightarrow> int \<Rightarrow> int option" where
  "digits_in ds lo hi =
    (if list_all is_digit ds \<and> lo \<le> digits_value ds \<and> digits_value ds \<le> hi then Some (digits_value ds) else None)"

definition leap_year :: "int \<Rightarrow> bool" where
  "leap_year y \<longleftrightarrow> 4 dvd y \<and> (\<not> 100 dvd y \<or> 400 dvd y)"

definition month_days :: "int \<Rightarrow> int list" where
  "month_days y = [31, if leap_year y then 29 else 28, 31, 30, 31, 30, 31, 31, 30, 31, 30, 31]"

definition days_before_year :: "int \<Rightarrow> int" where
  "days_before_year y = 365 * (y - 1) + (y - 1) div 4 - (y - 1) div 100 + (y - 1) div 400"

text \<open>A fraction of a second, of which nine digits count, and the rest of the text.\<close>

definition scan_nanoseconds :: "string \<Rightarrow> int \<times> string" where
  "scan_nanoseconds s =
    (case s of
       c # d # t \<Rightarrow>
         if c = CHR ''.'' \<and> is_digit d
         then (let ds = takeWhile is_digit (d # t)
               in (digits_value (take 9 ds) * 10 ^ (9 - min 9 (length ds)), dropWhile is_digit (d # t)))
         else (0, s)
     | _ \<Rightarrow> (0, s))"

definition scan_offset :: "string \<Rightarrow> int option" where
  "scan_offset s =
    (if s = ''Z'' then Some 0
     else if length s = 6 \<and> s ! 0 \<in> {CHR ''+'', CHR ''-''} \<and> s ! 3 = CHR '':''
     then (case (digits_in (take 2 (drop 1 s)) 0 23, digits_in (drop 4 s) 0 59) of
             (Some h, Some m) \<Rightarrow> Some ((if s ! 0 = CHR ''-'' then -1 else 1) * (h * 60 + m) * 60)
           | _ \<Rightarrow> None)
     else None)"

definition parse_time :: "string \<Rightarrow> time option" where
  "parse_time s =
    (if length s < 19 \<or> \<not> (s ! 4 = CHR ''-'' \<and> s ! 7 = CHR ''-'' \<and> s ! 10 = CHR ''T'' \<and> s ! 13 = CHR '':'' \<and> s ! 16 = CHR '':'')
     then None
     else case (digits_in (take 4 s) 0 9999, digits_in (take 2 (drop 5 s)) 1 12) of
       (Some year, Some month) \<Rightarrow>
         (case (digits_in (take 2 (drop 8 s)) 1 (month_days year ! nat (month - 1)), digits_in (take 2 (drop 11 s)) 0 23,
                digits_in (take 2 (drop 14 s)) 0 59, digits_in (take 2 (drop 17 s)) 0 59) of
            (Some day, Some hour, Some minute, Some second) \<Rightarrow>
              (case scan_nanoseconds (drop 19 s) of (nanos, rest) \<Rightarrow>
               case scan_offset rest of
                 None \<Rightarrow> None
               | Some offset \<Rightarrow>
                   (let days = days_before_year year + sum_list (take (nat (month - 1)) (month_days year)) + (day - 1)
                    in Some ((((days * 24 + hour) * 60 + minute) * 60 + second - offset) * 1000000000 + nanos)))
          | _ \<Rightarrow> None)
     | _ \<Rightarrow> None)"

definition into_time :: "time \<Rightarrow> string \<Rightarrow> jv \<Rightarrow> time option" where
  "into_time cur raw v = (case v of VNull \<Rightarrow> Some cur | VStr _ \<Rightarrow> parse_time (butlast (tl raw)) | _ \<Rightarrow> None)"

subsection \<open>Writing\<close>

text \<open>The year of a day and the day in it: whole cycles of 400, 100, 4 and 1 years.\<close>

definition civil_year :: "int \<Rightarrow> int \<times> int" where
  "civil_year days =
    (let r = days mod 146097;
         n100 = min 3 (r div 36524);
         r1 = r - 36524 * n100;
         r2 = r1 mod 1461;
         n1 = min 3 (r2 div 365)
     in (400 * (days div 146097) + 100 * n100 + 4 * (r1 div 1461) + n1 + 1, r2 - 365 * n1))"

fun civil_month :: "int list \<Rightarrow> int \<Rightarrow> int \<times> int" where
  "civil_month [] d = (1, d)"
| "civil_month (n # ns) d =
    (if d < n \<or> ns = [] then (1, d) else case civil_month ns (d - n) of (m, e) \<Rightarrow> (m + 1, e))"

fun pad :: "nat \<Rightarrow> int \<Rightarrow> string" where
  "pad 0 n = []"
| "pad (Suc k) n = pad k (n div 10) @ [char_of (48 + nat (n mod 10))]"

definition format_nanoseconds :: "int \<Rightarrow> string" where
  "format_nanoseconds n = (if n = 0 then [] else CHR ''.'' # rev (dropWhile (\<lambda>c. c = CHR ''0'') (rev (pad 9 n))))"

text \<open>The zone, in minutes east of UTC.\<close>

definition format_offset :: "int \<Rightarrow> string" where
  "format_offset off =
    (if off = 0 then ''Z''
     else (if off < 0 then CHR ''-'' else CHR ''+'') # pad 2 (\<bar>off\<bar> div 60) @ CHR '':'' # pad 2 (\<bar>off\<bar> mod 60))"

definition format_time :: "int \<Rightarrow> time \<Rightarrow> string" where
  "format_time off t =
    (let shown = t + off * 60 * 1000000000;
         secs = shown div 1000000000;
         (year, yday) = civil_year (secs div 86400);
         (month, mday) = civil_month (month_days year) yday;
         sod = secs mod 86400
     in pad 4 year @ CHR ''-'' # pad 2 month @ CHR ''-'' # pad 2 (mday + 1) @ CHR ''T'' # pad 2 (sod div 3600) @ CHR '':'' #
        pad 2 (sod div 60 mod 60) @ CHR '':'' # pad 2 (sod mod 60) @ format_nanoseconds (shown mod 1000000000) @ format_offset off)"

text \<open>\<^verbatim>\<open>MarshalJSON\<close> refuses years outside 0 to 9999 and offsets of a day or more.\<close>

definition writable_time :: "int \<Rightarrow> time \<Rightarrow> bool" where
  "writable_time off t \<longleftrightarrow> \<bar>off\<bar> < 1440 \<and> - (366 * 86400 * 1000000000) \<le> t + off * 60 * 1000000000 \<and>
     t + off * 60 * 1000000000 < 3652059 * 86400 * 1000000000"

subsection \<open>Round trip\<close>

lemma byte_digit: "k < 10 \<Longrightarrow> byte (char_of (48 + k)) = 48 + k" for k :: nat
  by (simp add: byte_def)

lemma length_pad [simp]: "length (pad k n) = k"
  by (induction k n rule: pad.induct) auto

lemma pad_digits: "list_all is_digit (pad k n)"
proof (induction k n rule: pad.induct)
  case (2 k n)
  have "nat (n mod 10) < 10" by simp
  then have "is_digit (char_of (48 + nat (n mod 10)))" by (simp add: is_digit_def byte_in_def byte_digit)
  then show ?case using 2 by simp
qed simp

lemma digits_value_snoc: "digits_value (ds @ [c]) = 10 * digits_value ds + (int (byte c) - 48)"
  by (simp add: digits_value_def)

lemma digits_value_pad: "0 \<le> n \<Longrightarrow> n < 10 ^ k \<Longrightarrow> digits_value (pad k n) = n"
proof (induction k n rule: pad.induct)
  case (2 k n)
  have "digits_value (pad k (n div 10)) = n div 10" using "2.IH" "2.prems" by simp
  moreover have "byte (char_of (48 + nat (n mod 10))) = 48 + nat (n mod 10)" by (rule byte_digit) simp
  ultimately show ?case by (simp add: digits_value_snoc)
qed (simp add: digits_value_def)

lemma digits_in_pad: "0 \<le> n \<Longrightarrow> n < 10 ^ k \<Longrightarrow> lo \<le> n \<Longrightarrow> n \<le> hi \<Longrightarrow> digits_in (pad k n) lo hi = Some n"
  by (simp add: digits_in_def pad_digits digits_value_pad)

lemma digits_value_zeros: "digits_value (ds @ replicate k (CHR ''0'')) = digits_value ds * 10 ^ k"
proof (induction k)
  case (Suc k)
  have "byte (CHR ''0'') = 48" by (simp add: byte_def)
  then have "digits_value ((ds @ replicate k (CHR ''0'')) @ [CHR ''0'']) = 10 * digits_value (ds @ replicate k (CHR ''0''))"
    by (simp only: digits_value_snoc)
  then show ?case using Suc by (simp add: replicate_append_same [symmetric])
qed simp

lemma scan_format_nanoseconds:
  assumes "0 \<le> n" and "n < 10 ^ 9" and "z \<noteq> []" and "\<not> is_digit (hd z)" and "hd z \<noteq> CHR ''.''"
  shows "scan_nanoseconds (format_nanoseconds n @ z) = (n, z)"
proof (cases "n = 0")
  case True
  then show ?thesis using assms(3-5) by (auto simp: format_nanoseconds_def scan_nanoseconds_def split: list.split)
next
  case False
  define ds where "ds = rev (dropWhile (\<lambda>c. c = CHR ''0'') (rev (pad 9 n)))"
  define zs where "zs = rev (takeWhile (\<lambda>c. c = CHR ''0'') (rev (pad 9 n)))"
  have p: "pad 9 n = ds @ zs" unfolding ds_def zs_def by (metis rev_append rev_rev_ident takeWhile_dropWhile_id)
  have "set zs \<subseteq> {CHR ''0''}" unfolding zs_def using set_takeWhileD by fastforce
  then have zs: "zs = replicate (length zs) (CHR ''0'')" by (metis (no_types) replicate_length_same singletonD subsetD)
  have len: "length ds + length zs = 9" using arg_cong [OF p, of length] by simp
  have "digits_value (pad 9 n) = n" by (rule digits_value_pad) (use assms in simp_all)
  then have v: "digits_value ds * 10 ^ length zs = n" using p zs digits_value_zeros [of ds "length zs"] by metis
  have d: "list_all is_digit ds" using pad_digits [of 9 n] by (simp add: p)
  have "ds \<noteq> []" using v False by (auto simp: digits_value_def)
  then obtain c cs where c: "ds = c # cs" by (cases ds) auto
  have "takeWhile is_digit (ds @ z) = ds" "dropWhile is_digit (ds @ z) = z"
    using d assms(3,4) by (auto simp: takeWhile_append dropWhile_append list_all_iff takeWhile_eq_Nil_iff dropWhile_eq_Nil_conv neq_Nil_conv)
  moreover have "is_digit c" using d c by simp
  moreover have "9 - min 9 (length ds) = length zs" using len by simp
  ultimately show ?thesis
    using v len False by (simp add: format_nanoseconds_def ds_def [symmetric] scan_nanoseconds_def c)
qed

lemma scan_format_offset: "\<bar>off\<bar> < 1440 \<Longrightarrow> scan_offset (format_offset off) = Some (off * 60)"
proof (cases "off = 0")
  case False
  assume o: "\<bar>off\<bar> < 1440"
  define h where "h = \<bar>off\<bar> div 60"
  define m where "m = \<bar>off\<bar> mod 60"
  obtain a b where ab: "pad 2 h = [a, b]" using length_pad [of 2] by (metis length_Suc_conv length_0_conv numeral_2_eq_2)
  obtain c d where cd: "pad 2 m = [c, d]" using length_pad [of 2] by (metis length_Suc_conv length_0_conv numeral_2_eq_2)
  have "digits_in [a, b] 0 23 = Some h" "digits_in [c, d] 0 59 = Some m"
    unfolding ab [symmetric] cd [symmetric] by (rule digits_in_pad; use o in \<open>simp add: h_def m_def\<close>)+
  moreover have "\<bar>off\<bar> = h * 60 + m" by (simp add: h_def m_def)
  then have "(if off < 0 then - 1 else 1) * (h * 60 + m) = off" by (auto simp: abs_if split: if_splits)
  moreover have "(if off < 0 then CHR ''-'' else CHR ''+'') = CHR ''-'' \<longleftrightarrow> off < 0" by simp
  ultimately show ?thesis using False
    unfolding format_offset_def h_def [symmetric] m_def [symmetric] ab cd
    by (auto simp: scan_offset_def split: if_splits)
qed (simp add: format_offset_def scan_offset_def)

lemma div_bounds: "0 < k \<Longrightarrow> k * (y div k) \<le> y \<and> y - k < k * (y div k)" for y :: int
  using pos_mod_bound [of k y] pos_mod_sign [of k y] mult_div_mod_eq [of k y] by linarith

lemma div_pred: "0 < k \<Longrightarrow> y div k = (y - 1) div k + (if k dvd y then 1 else 0)" for y :: int
proof -
  assume k: "0 < k"
  define q where "q = (y - 1) div k"
  define r where "r = (y - 1) mod k"
  have r: "0 \<le> r" "r < k" "y = k * q + (r + 1)" using k by (simp_all add: q_def r_def)
  show ?thesis
  proof (cases "r + 1 = k")
    case True
    then have "y = k * (q + 1)" using r by (simp add: algebra_simps)
    then show ?thesis unfolding q_def [symmetric] using k by simp
  next
    case False
    then have "y div k = q" "y mod k = r + 1"
      using r by (simp_all add: int_div_pos_eq [of y k q "r + 1"] int_mod_pos_eq [of y k q "r + 1"])
    then show ?thesis unfolding q_def [symmetric] using r by (simp add: dvd_eq_mod_eq_0)
  qed
qed

lemma dvd_top: "0 < x \<Longrightarrow> x \<le> k \<Longrightarrow> k dvd k * q + x \<longleftrightarrow> x = k" for x :: int
  using zdvd_imp_le [of k x] by (auto simp: dvd_add_right_iff)

lemma civil_year_day:
  assumes "civil_year days = (y, d)"
  shows "days_before_year y + d = days" and "0 \<le> d" and "d < (if leap_year y then 366 else 365)"
proof -
  define c where "c = days div 146097"
  define r where "r = days mod 146097"
  define a where "a = min 3 (r div 36524)"
  define r1 where "r1 = r - 36524 * a"
  define b where "b = r1 div 1461"
  define r2 where "r2 = r1 mod 1461"
  define e where "e = min 3 (r2 div 365)"
  have civil_year: "civil_year days = (400 * c + 100 * a + 4 * b + e + 1, r2 - 365 * e)"
    unfolding civil_year_def Let_def c_def e_def r2_def b_def r1_def a_def r_def by (rule refl)
  have y: "y = 400 * c + 100 * a + 4 * b + e + 1" and d: "d = r2 - 365 * e"
    using assms unfolding civil_year by (simp_all only: prod.inject)
  have r: "0 \<le> r" "r < 146097" "days = 146097 * c + r" by (simp_all add: r_def c_def)
  have a: "0 \<le> a" "a \<le> 3" "36524 * a \<le> r" "a < 3 \<Longrightarrow> r < 36524 * a + 36524" using r by (auto simp: a_def min_def)
  have r1: "0 \<le> r1" "r1 \<le> 36524" "a < 3 \<Longrightarrow> r1 < 36524" using r a by (cases "a = 3"; force simp: r1_def)+
  have b: "0 \<le> b" "b \<le> 24" "r1 = 1461 * b + r2" "0 \<le> r2" "r2 < 1461" using r1 by (auto simp: b_def r2_def)
  have e: "0 \<le> e" "e \<le> 3" "365 * e \<le> r2" "e < 3 \<Longrightarrow> r2 < 365 * e + 365" using b by (auto simp: e_def min_def)
  have q: "(y - 1) div 4 = 100 * c + 25 * a + b" "(y - 1) div 100 = 4 * c + a" "(y - 1) div 400 = c"
    using a(1,2) b(1,2) e(1,2)
    by (simp_all add: y int_div_pos_eq [of _ 4 "100 * c + 25 * a + b" e] int_div_pos_eq [of _ 100 "4 * c + a" "4 * b + e"]
        int_div_pos_eq [of _ 400 c "100 * a + 4 * b + e"])
  show "days_before_year y + d = days"
    unfolding days_before_year_def q using r(3) b(3) by (simp add: y d r1_def)
  show "0 \<le> d" using e(3) by (simp add: d)
  have "leap_year y \<longleftrightarrow> e = 3 \<and> (b < 24 \<or> a = 3)"
    using dvd_top [of "e + 1" 4 "100 * c + 25 * a + b"] dvd_top [of "4 * b + e + 1" 100 "4 * c + a"]
      dvd_top [of "100 * a + 4 * b + e + 1" 400 c] a(1,2) b(1,2) e(1,2)
    by (auto simp: leap_year_def y algebra_simps)
  then show "d < (if leap_year y then 366 else 365)"
    using r1 b e a by (auto simp: d)
qed

lemma civil_month_day:
  assumes "civil_month ns d = (m, e)" and "0 \<le> d" and "d < sum_list ns"
  shows "1 \<le> m \<and> m \<le> int (length ns) \<and> sum_list (take (nat (m - 1)) ns) + e = d \<and> 0 \<le> e \<and> e < ns ! nat (m - 1)"
  using assms
proof (induction ns d arbitrary: m e rule: civil_month.induct)
  case (2 n ns d)
  show ?case
  proof (cases "d < n \<or> ns = []")
    case True
    then show ?thesis using "2.prems" by auto
  next
    case False
    obtain m' e' where r: "civil_month ns (d - n) = (m', e')" by (cases "civil_month ns (d - n)")
    have IH: "1 \<le> m' \<and> m' \<le> int (length ns) \<and> sum_list (take (nat (m' - 1)) ns) + e' = d - n \<and> 0 \<le> e' \<and> e' < ns ! nat (m' - 1)"
      using "2.IH" [OF False r] "2.prems" False by auto
    have "m = m' + 1" "e = e'" using "2.prems"(1) False r by auto
    moreover have "nat (m' + 1 - 1) = Suc (nat (m' - 1))" using IH by arith
    ultimately show ?thesis using IH by simp
  qed
qed simp

lemma month_days_year: "sum_list (month_days y) = (if leap_year y then 366 else 365)" "length (month_days y) = 12"
  "k < 12 \<Longrightarrow> month_days y ! k \<le> 31"
  by (simp_all add: month_days_def) (auto simp: nth_Cons split: nat.splits)

lemma pad_2: "\<exists>a b. pad 2 n = [a, b]"
  using length_pad [of 2 n] by (metis length_Suc_conv length_0_conv numeral_2_eq_2)

lemma pad_4: "\<exists>a b c d. pad 4 n = [a, b, c, d]"
  using length_pad [of 4 n] by (auto simp: length_Suc_conv eval_nat_numeral)

lemma year_bounds:
  assumes "days_before_year y + d = days" and "0 \<le> d" and "d < (if leap_year y then 366 else 365)"
    and "-366 \<le> days" and "days < 3652059"
  shows "0 \<le> y" and "y \<le> 9999"
proof -
  have "400 dvd y \<Longrightarrow> 100 dvd y" "100 dvd y \<Longrightarrow> 4 dvd y" by (rule dvd_trans; simp)+
  then have mono: "days_before_year y + (if leap_year y then 366 else 365) = days_before_year (y + 1)"
    unfolding days_before_year_def leap_year_def
    using div_pred [of 4 y] div_pred [of 100 y] div_pred [of 400 y] by (simp split: if_splits)
  show "0 \<le> y"
  proof (rule ccontr)
    assume "\<not> 0 \<le> y"
    then consider "y = -1" | "y \<le> -2" by linarith
    then have "days_before_year (y + 1) \<le> -366"
    proof cases
      case 2
      then show ?thesis
        using div_bounds [of 4 y] div_bounds [of 100 y] div_bounds [of 400 y] by (simp add: days_before_year_def)
    qed (simp add: days_before_year_def)
    then show False using assms mono by simp
  qed
  show "y \<le> 9999"
  proof (rule ccontr)
    assume "\<not> y \<le> 9999"
    then consider "y = 10000" | "10001 \<le> y" by linarith
    then have "3652059 \<le> days_before_year y"
    proof cases
      case 2
      then show ?thesis
        using div_bounds [of 4 "y - 1"] div_bounds [of 100 "y - 1"] div_bounds [of 400 "y - 1"] by (simp add: days_before_year_def)
    qed (simp add: days_before_year_def)
    then show False using assms by simp
  qed
qed

lemma clock_sum: "a * 60 + b = c \<Longrightarrow> c * 60 + d = e \<Longrightarrow> f * 86400 + e = g \<Longrightarrow> ((f * 24 + a) * 60 + b) * 60 + d = g"
  for a :: int by (auto simp: algebra_simps)

theorem parse_format_time:
  assumes "writable_time off t"
  shows "parse_time (format_time off t) = Some t"
proof -
  define shown where "shown = t + off * 60 * 1000000000"
  define secs where "secs = shown div 1000000000"
  define sod where "sod = secs mod 86400"
  define nanos where "nanos = shown mod 1000000000"
  obtain year yday where y: "civil_year (secs div 86400) = (year, yday)" by fastforce
  obtain month mday where m: "civil_month (month_days year) yday = (month, mday)" by fastforce
  note yd = civil_year_day [OF y]
  have md: "1 \<le> month \<and> month \<le> 12 \<and> sum_list (take (nat (month - 1)) (month_days year)) + mday = yday \<and> 0 \<le> mday \<and>
      mday < month_days year ! nat (month - 1)"
    using civil_month_day [OF m yd(2)] yd(3) by (simp add: month_days_year split: if_splits)
  then have m31: "month_days year ! nat (month - 1) \<le> 31" by (intro month_days_year(3)) auto
  have off: "\<bar>off\<bar> < 1440" "-366 \<le> secs div 86400" "secs div 86400 < 3652059"
    using assms unfolding writable_time_def secs_def shown_def [symmetric] by auto
  have yr: "0 \<le> year" "year \<le> 9999" using year_bounds [OF yd off(2,3)] by auto
  have sod: "0 \<le> sod" "sod < 86400" by (simp_all add: sod_def)
  have nanos: "0 \<le> nanos" "nanos < 1000000000" by (simp_all add: nanos_def)
  obtain y1 y2 y3 y4 where Y: "pad 4 year = [y1, y2, y3, y4]" using pad_4 by blast
  obtain m1 m2 where M: "pad 2 month = [m1, m2]" using pad_2 by blast
  obtain d1 d2 where D: "pad 2 (mday + 1) = [d1, d2]" using pad_2 by blast
  obtain h1 h2 where H: "pad 2 (sod div 3600) = [h1, h2]" using pad_2 by blast
  obtain i1 i2 where I: "pad 2 (sod div 60 mod 60) = [i1, i2]" using pad_2 by blast
  obtain s1 s2 where S: "pad 2 (sod mod 60) = [s1, s2]" using pad_2 by blast
  define tail where "tail = format_nanoseconds nanos @ format_offset off"
  have written: "format_time off t = [y1, y2, y3, y4, CHR ''-'', m1, m2, CHR ''-'', d1, d2, CHR ''T'', h1, h2, CHR '':'', i1, i2, CHR '':'', s1, s2] @ tail"
    unfolding format_time_def Let_def shown_def [symmetric] secs_def [symmetric] sod_def [symmetric] nanos_def [symmetric] y m prod.case
    by (simp add: Y M D H I S tail_def)
  have fields: "digits_in [y1, y2, y3, y4] 0 9999 = Some year" "digits_in [m1, m2] 1 12 = Some month"
    "digits_in [d1, d2] 1 (month_days year ! nat (month - 1)) = Some (mday + 1)" "digits_in [h1, h2] 0 23 = Some (sod div 3600)"
    "digits_in [i1, i2] 0 59 = Some (sod div 60 mod 60)" "digits_in [s1, s2] 0 59 = Some (sod mod 60)"
    unfolding Y [symmetric] M [symmetric] D [symmetric] H [symmetric] I [symmetric] S [symmetric]
    by (rule digits_in_pad; use yr md m31 sod in simp)+
  have "format_offset off \<noteq> []" "\<not> is_digit (hd (format_offset off))" "hd (format_offset off) \<noteq> CHR ''.''"
    by (auto simp: format_offset_def is_digit_def byte_in_def byte_def)
  then have tail: "scan_nanoseconds tail = (nanos, format_offset off)"
    unfolding tail_def by (intro scan_format_nanoseconds) (use nanos in simp_all)
  have days: "days_before_year year + sum_list (take (nat (month - 1)) (month_days year)) + mday = secs div 86400"
    using md yd(1) by simp
  have "sod div 3600 * 60 + sod div 60 mod 60 = sod div 60" using div_mult_mod_eq [of "sod div 60" 60]
    by (simp add: zdiv_zmult2_eq [of 60 sod 60, simplified])
  moreover have "sod div 60 * 60 + sod mod 60 = sod" "secs div 86400 * 86400 + sod = secs" by (simp_all add: sod_def)
  ultimately have "(((secs div 86400) * 24 + sod div 3600) * 60 + sod div 60 mod 60) * 60 + sod mod 60 = secs" by (rule clock_sum)
  moreover have "secs * 1000000000 + nanos = shown" by (simp add: secs_def nanos_def)
  ultimately have total: "((((secs div 86400) * 24 + sod div 3600) * 60 + sod div 60 mod 60) * 60 + sod mod 60 - off * 60) * 1000000000 + nanos = t"
    by (simp only: left_diff_distrib) (simp add: shown_def)
  show ?thesis
    unfolding parse_time_def written
    using total by (simp add: fields tail scan_format_offset [OF off(1)] Let_def days)
qed

end
