(* ===== verification/Payloads.thy ===== *)
theory Payloads
  imports Config Request JsonWrite Timestamps
begin

text \<open>
  What \<^verbatim>\<open>encoding/json\<close> decodes into the structs of \<^verbatim>\<open>domain/types.go\<close> and \<^verbatim>\<open>config/config.go\<close>: outcomes and
  policies of a request, and the configuration file. An error anywhere makes the whole decoding fail.
\<close>

subsection \<open>Structs, slices and maps\<close>

text \<open>The fields of a struct: how the member of a name is decoded into it. Names match without regard to case.\<close>

type_synonym 'r field_table = "(string \<times> (string \<Rightarrow> jv \<Rightarrow> 'r \<Rightarrow> 'r option)) list"

fun struct_members :: "'r field_table \<Rightarrow> (string \<times> string \<times> jv) list \<Rightarrow> 'r \<Rightarrow> 'r option" where
  "struct_members fs [] x = Some x"
| "struct_members fs ((k, raw, v) # ms) x =
    (case find (\<lambda>(name, _). EqualFold k name) fs of
       None \<Rightarrow> struct_members fs ms x
     | Some (_, f) \<Rightarrow> (case f raw v x of None \<Rightarrow> None | Some x' \<Rightarrow> struct_members fs ms x'))"

definition into_struct :: "'r field_table \<Rightarrow> 'r \<Rightarrow> jv \<Rightarrow> 'r option" where
  "into_struct fs x v = (case v of VNull \<Rightarrow> Some x | VObj ms \<Rightarrow> struct_members fs ms x | _ \<Rightarrow> None)"

text \<open>A slice is decoded over the elements it has.\<close>

fun into_elements :: "('a \<Rightarrow> jv \<Rightarrow> 'a option) \<Rightarrow> 'a \<Rightarrow> 'a list \<Rightarrow> (string \<times> jv) list \<Rightarrow> 'a list option" where
  "into_elements into zero cur [] = Some []"
| "into_elements into zero cur ((_, v) # es) =
    (case into (case cur of [] \<Rightarrow> zero | c # _ \<Rightarrow> c) v of
       None \<Rightarrow> None
     | Some x \<Rightarrow> map_option (\<lambda>xs. x # xs) (into_elements into zero (tl cur) es))"

definition into_slice :: "('a \<Rightarrow> jv \<Rightarrow> 'a option) \<Rightarrow> 'a \<Rightarrow> 'a list \<Rightarrow> jv \<Rightarrow> 'a list option" where
  "into_slice into zero cur v =
    (case v of VNull \<Rightarrow> Some [] | VArr es \<Rightarrow> into_elements into zero cur es | _ \<Rightarrow> None)"

text \<open>A map keeps the entries it has; every value is decoded into a zero value.\<close>

fun into_entries :: "(jv \<Rightarrow> 'a option) \<Rightarrow> (string \<times> string \<times> jv) list \<Rightarrow> 'a gomap \<Rightarrow> 'a gomap option" where
  "into_entries into [] m = Some m"
| "into_entries into ((k, _, v) # ms) m =
    (case into v of None \<Rightarrow> None | Some x \<Rightarrow> into_entries into ms (AList.update k x m))"

definition into_map :: "(jv \<Rightarrow> 'a option) \<Rightarrow> 'a gomap \<Rightarrow> jv \<Rightarrow> 'a gomap option" where
  "into_map into m v = (case v of VNull \<Rightarrow> Some [] | VObj ms \<Rightarrow> into_entries into ms m | _ \<Rightarrow> None)"

text \<open>The value of a raw message, with exact numbers, and of an \<^verbatim>\<open>any\<close>, with numbers rounded to binary64.\<close>

fun json_of :: "jv \<Rightarrow> json" where
  "json_of VNull = JNull"
| "json_of (VBool b) = JBool b"
| "json_of (VNum l) = JNum (literal_value l)"
| "json_of (VStr s) = JStr s"
| "json_of (VArr es) = JArr (map (\<lambda>(_, v). json_of v) es)"
| "json_of (VObj ms) = JObj (map (\<lambda>(k, _, v). (k, json_of v)) ms)"

fun all_some :: "'a option list \<Rightarrow> 'a list option" where
  "all_some [] = Some []"
| "all_some (None # _) = None"
| "all_some (Some x # xs) = map_option (\<lambda>ys. x # ys) (all_some xs)"

fun any_of :: "jv \<Rightarrow> json option" where
  "any_of (VNum l) = (case into_float64 (Fin 0) (VNum l) of Some (Fin q) \<Rightarrow> Some (JNum q) | _ \<Rightarrow> None)"
| "any_of (VArr es) = map_option JArr (all_some (map (\<lambda>(_, v). any_of v) es))"
| "any_of (VObj ms) =
     map_option (\<lambda>vs. JObj (fold (\<lambda>(k, v) m. AList.update k v m) (zip (map fst ms) vs) []))
       (all_some (map (\<lambda>(_, _, v). any_of v) ms))"
| "any_of VNull = Some JNull"
| "any_of (VBool b) = Some (JBool b)"
| "any_of (VStr s) = Some (JStr s)"

subsection \<open>Outcomes\<close>

definition zero_outcome :: outcome where
  "zero_outcome = \<lparr>o_ID = [], o_TenantID = [], o_DecisionID = [], o_TraceID = [], o_Type = [], o_Value = None,
     o_OccurredAt = 0, o_Metadata = [], o_CreatedAt = 0\<rparr>"

definition outcome_fields :: "outcome field_table" where
  "outcome_fields = [
     (''id'', \<lambda>_ v x. map_option (\<lambda>y. x\<lparr>o_ID := y\<rparr>) (into_string (o_ID x) v)),
     (''tenant_id'', \<lambda>_ v x. map_option (\<lambda>y. x\<lparr>o_TenantID := y\<rparr>) (into_string (o_TenantID x) v)),
     (''decision_id'', \<lambda>_ v x. map_option (\<lambda>y. x\<lparr>o_DecisionID := y\<rparr>) (into_string (o_DecisionID x) v)),
     (''trace_id'', \<lambda>_ v x. map_option (\<lambda>y. x\<lparr>o_TraceID := y\<rparr>) (into_string (o_TraceID x) v)),
     (''type'', \<lambda>_ v x. map_option (\<lambda>y. x\<lparr>o_Type := y\<rparr>) (into_string (o_Type x) v)),
     (''value'', \<lambda>_ v x. map_option (\<lambda>y. x\<lparr>o_Value := y\<rparr>) (Some (Some (json_of v)))),
     (''occurred_at'', \<lambda>raw v x. map_option (\<lambda>y. x\<lparr>o_OccurredAt := y\<rparr>) (into_time (o_OccurredAt x) raw v)),
     (''metadata'', \<lambda>_ v x. map_option (\<lambda>y. x\<lparr>o_Metadata := y\<rparr>) (into_map any_of (o_Metadata x) v)),
     (''created_at'', \<lambda>raw v x. map_option (\<lambda>y. x\<lparr>o_CreatedAt := y\<rparr>) (into_time (o_CreatedAt x) raw v))]"

definition decode_outcome :: "string \<Rightarrow> outcome option" where
  "decode_outcome s = Option.bind (first_value s) (into_struct outcome_fields zero_outcome)"

text \<open>A message with an outcome, and what it decodes to.\<close>

definition outcome_message :: "string \<Rightarrow> string \<Rightarrow> jtree \<Rightarrow> string" where
  "outcome_message i t v = write_json True (JsObj [(''decision_id'', JsStr i), (''type'', JsStr t), (''value'', v)])"

lemma outcome_names:
  "\<not> EqualFold ''decision_id'' ''id'' \<and> \<not> EqualFold ''decision_id'' ''tenant_id'' \<and>
  \<not> EqualFold ''type'' ''id'' \<and> \<not> EqualFold ''type'' ''tenant_id'' \<and> \<not> EqualFold ''type'' ''decision_id'' \<and>
  \<not> EqualFold ''type'' ''trace_id'' \<and> \<not> EqualFold ''value'' ''id'' \<and> \<not> EqualFold ''value'' ''tenant_id'' \<and>
  \<not> EqualFold ''value'' ''decision_id'' \<and> \<not> EqualFold ''value'' ''trace_id'' \<and> \<not> EqualFold ''value'' ''type'' \<and>
  to_valid ''decision_id'' = ''decision_id'' \<and> to_valid ''type'' = ''type'' \<and> to_valid ''value'' = ''value''"
  by code_simp

lemma decode_outcome_message:
  assumes "nesting v < max_nesting" and "literals v"
  shows "decode_outcome (outcome_message i t v) =
    Some (zero_outcome\<lparr>o_DecisionID := to_valid i, o_Type := to_valid t, o_Value := Some (json_of (value_of True v))\<rparr>)"
proof -
  let ?t = "JsObj [(''decision_id'', JsStr i), (''type'', JsStr t), (''value'', v)]"
  have "nesting ?t \<le> max_nesting" using assms by (simp add: max_nesting_def)
  moreover have "literals ?t" using assms by simp
  ultimately have "first_value (write_json True ?t) = Some (value_of True ?t)" by (rule json_value_write(3))
  then show ?thesis
    unfolding outcome_message_def decode_outcome_def
    by (simp add: into_struct_def outcome_names EqualFold_refl outcome_fields_def into_string_def zero_outcome_def)
qed

subsection \<open>Policies\<close>

definition zero_score :: model_score where
  "zero_score = \<lparr>sc_SuccessRate = Fin 0, sc_Uncertainty = Fin 0, sc_Samples = 0, sc_Weights = [], sc_Bias = Fin 0\<rparr>"

definition score_fields :: "model_score field_table" where
  "score_fields = [
     (''success_rate'', \<lambda>_ v x. map_option (\<lambda>y. x\<lparr>sc_SuccessRate := y\<rparr>) (into_float64 (sc_SuccessRate x) v)),
     (''uncertainty'', \<lambda>_ v x. map_option (\<lambda>y. x\<lparr>sc_Uncertainty := y\<rparr>) (into_float64 (sc_Uncertainty x) v)),
     (''samples'', \<lambda>_ v x. map_option (\<lambda>y. x\<lparr>sc_Samples := y\<rparr>) (into_int (sc_Samples x) v)),
     (''weights'', \<lambda>_ v x. map_option (\<lambda>y. x\<lparr>sc_Weights := y\<rparr>) (into_map (into_float64 (Fin 0)) (sc_Weights x) v)),
     (''bias'', \<lambda>_ v x. map_option (\<lambda>y. x\<lparr>sc_Bias := y\<rparr>) (into_float64 (sc_Bias x) v))]"

definition snapshot_fields :: "snapshot field_table" where
  "snapshot_fields = [
     (''version'', \<lambda>_ v x. map_option (\<lambda>y. x\<lparr>sn_Version := y\<rparr>) (into_string (sn_Version x) v)),
     (''catalog_version'', \<lambda>_ v x. map_option (\<lambda>y. x\<lparr>sn_CatalogVersion := y\<rparr>) (into_string (sn_CatalogVersion x) v)),
     (''trained_at'', \<lambda>raw v x. map_option (\<lambda>y. x\<lparr>sn_TrainedAt := y\<rparr>) (into_time (sn_TrainedAt x) raw v)),
     (''global'', \<lambda>_ v x. map_option (\<lambda>y. x\<lparr>sn_Global := y\<rparr>) (into_map (into_struct score_fields zero_score) (sn_Global x) v)),
     (''by_workflow'', \<lambda>_ v x. map_option (\<lambda>y. x\<lparr>sn_ByWorkflow := y\<rparr>) (into_map (into_map (into_struct score_fields zero_score) []) (sn_ByWorkflow x) v))]"

definition constraints_fields :: "policy_constraints field_table" where
  "constraints_fields = [
     (''allowed_regions'', \<lambda>_ v x. map_option (\<lambda>y. x\<lparr>pc_AllowedRegions := y\<rparr>) (into_slice into_string [] (pc_AllowedRegions x) v)),
     (''required_privacy'', \<lambda>_ v x. map_option (\<lambda>y. x\<lparr>pc_RequiredPrivacy := y\<rparr>) (into_string (pc_RequiredPrivacy x) v)),
     (''max_estimated_cost_usd'', \<lambda>_ v x. map_option (\<lambda>y. x\<lparr>pc_MaxEstimatedCostUSD := y\<rparr>) (into_float64 (pc_MaxEstimatedCostUSD x) v)),
     (''max_p95_latency_ms'', \<lambda>_ v x. map_option (\<lambda>y. x\<lparr>pc_MaxP95LatencyMS := y\<rparr>) (into_int (pc_MaxP95LatencyMS x) v))]"

definition policy_fields :: "policy field_table" where
  "policy_fields = [
     (''id'', \<lambda>_ v x. map_option (\<lambda>y. x\<lparr>p_ID := y\<rparr>) (into_string (p_ID x) v)),
     (''tenant_id'', \<lambda>_ v x. map_option (\<lambda>y. x\<lparr>p_TenantID := y\<rparr>) (into_string (p_TenantID x) v)),
     (''version'', \<lambda>_ v x. map_option (\<lambda>y. x\<lparr>p_Version := y\<rparr>) (into_string (p_Version x) v)),
     (''mode'', \<lambda>_ v x. map_option (\<lambda>y. x\<lparr>p_Mode := y\<rparr>) (into_string (p_Mode x) v)),
     (''incumbent_model'', \<lambda>_ v x. map_option (\<lambda>y. x\<lparr>p_IncumbentModel := y\<rparr>) (into_string (p_IncumbentModel x) v)),
     (''candidate_models'', \<lambda>_ v x. map_option (\<lambda>y. x\<lparr>p_CandidateModels := y\<rparr>) (into_slice into_string [] (p_CandidateModels x) v)),
     (''fallback_models'', \<lambda>_ v x. map_option (\<lambda>y. x\<lparr>p_FallbackModels := y\<rparr>) (into_slice into_string [] (p_FallbackModels x) v)),
     (''quality_tolerance'', \<lambda>_ v x. map_option (\<lambda>y. x\<lparr>p_QualityTolerance := y\<rparr>) (into_float64 (p_QualityTolerance x) v)),
     (''confidence_z'', \<lambda>_ v x. map_option (\<lambda>y. x\<lparr>p_ConfidenceZ := y\<rparr>) (into_float64 (p_ConfidenceZ x) v)),
     (''minimum_samples'', \<lambda>_ v x. map_option (\<lambda>y. x\<lparr>p_MinimumSamples := y\<rparr>) (into_int (p_MinimumSamples x) v)),
     (''control_percent'', \<lambda>_ v x. map_option (\<lambda>y. x\<lparr>p_ControlPercent := y\<rparr>) (into_float64 (p_ControlPercent x) v)),
     (''canary_percent'', \<lambda>_ v x. map_option (\<lambda>y. x\<lparr>p_CanaryPercent := y\<rparr>) (into_float64 (p_CanaryPercent x) v)),
     (''exploration_percent'', \<lambda>_ v x. map_option (\<lambda>y. x\<lparr>p_ExplorationPercent := y\<rparr>) (into_float64 (p_ExplorationPercent x) v)),
     (''shadow_budget_usd_per_day'', \<lambda>_ v x. map_option (\<lambda>y. x\<lparr>p_ShadowBudgetUSDPerDay := y\<rparr>) (into_float64 (p_ShadowBudgetUSDPerDay x) v)),
     (''primary_outcome'', \<lambda>_ v x. map_option (\<lambda>y. x\<lparr>p_PrimaryOutcome := y\<rparr>) (into_string (p_PrimaryOutcome x) v)),
     (''constraints'', \<lambda>_ v x. map_option (\<lambda>y. x\<lparr>p_Constraints := y\<rparr>) (into_struct constraints_fields (p_Constraints x) v)),
     (''snapshot'', \<lambda>_ v x. map_option (\<lambda>y. x\<lparr>p_Snapshot := y\<rparr>) (into_struct snapshot_fields (p_Snapshot x) v)),
     (''drifted'', \<lambda>_ v x. map_option (\<lambda>y. x\<lparr>p_Drifted := y\<rparr>) (into_bool (p_Drifted x) v)),
     (''created_at'', \<lambda>raw v x. map_option (\<lambda>y. x\<lparr>p_CreatedAt := y\<rparr>) (into_time (p_CreatedAt x) raw v))]"

definition zero_policy :: policy where
  "zero_policy = \<lparr>p_ID = [], p_TenantID = [], p_Version = [], p_Mode = [], p_IncumbentModel = [], p_CandidateModels = [],
     p_FallbackModels = [], p_QualityTolerance = Fin 0, p_ConfidenceZ = Fin 0, p_MinimumSamples = 0,
     p_ControlPercent = Fin 0, p_CanaryPercent = Fin 0, p_ExplorationPercent = Fin 0, p_ShadowBudgetUSDPerDay = Fin 0,
     p_PrimaryOutcome = [],
     p_Constraints = \<lparr>pc_AllowedRegions = [], pc_RequiredPrivacy = [], pc_MaxEstimatedCostUSD = Fin 0, pc_MaxP95LatencyMS = 0\<rparr>,
     p_Snapshot = \<lparr>sn_Version = [], sn_CatalogVersion = [], sn_TrainedAt = 0, sn_Global = [], sn_ByWorkflow = []\<rparr>,
     p_Drifted = False, p_CreatedAt = 0\<rparr>"

definition decode_policy :: "string \<Rightarrow> policy option" where
  "decode_policy s = Option.bind (first_value s) (into_struct policy_fields zero_policy)"

subsection \<open>The configuration file\<close>

definition model_fields :: "model field_table" where
  "model_fields = [
     (''id'', \<lambda>_ v x. map_option (\<lambda>y. x\<lparr>m_ID := y\<rparr>) (into_string (m_ID x) v)),
     (''provider'', \<lambda>_ v x. map_option (\<lambda>y. x\<lparr>m_Provider := y\<rparr>) (into_string (m_Provider x) v)),
     (''upstream_model'', \<lambda>_ v x. map_option (\<lambda>y. x\<lparr>m_UpstreamModel := y\<rparr>) (into_string (m_UpstreamModel x) v)),
     (''region'', \<lambda>_ v x. map_option (\<lambda>y. x\<lparr>m_Region := y\<rparr>) (into_string (m_Region x) v)),
     (''privacy'', \<lambda>_ v x. map_option (\<lambda>y. x\<lparr>m_Privacy := y\<rparr>) (into_string (m_Privacy x) v)),
     (''context_window'', \<lambda>_ v x. map_option (\<lambda>y. x\<lparr>m_ContextWindow := y\<rparr>) (into_int (m_ContextWindow x) v)),
     (''supports_tools'', \<lambda>_ v x. map_option (\<lambda>y. x\<lparr>m_SupportsTools := y\<rparr>) (into_bool (m_SupportsTools x) v)),
     (''supports_structured'', \<lambda>_ v x. map_option (\<lambda>y. x\<lparr>m_SupportsStructured := y\<rparr>) (into_bool (m_SupportsStructured x) v)),
     (''supports_vision'', \<lambda>_ v x. map_option (\<lambda>y. x\<lparr>m_SupportsVision := y\<rparr>) (into_bool (m_SupportsVision x) v)),
     (''input_cost_per_million_tokens'', \<lambda>_ v x. map_option (\<lambda>y. x\<lparr>m_InputCostPerMTokens := y\<rparr>) (into_float64 (m_InputCostPerMTokens x) v)),
     (''output_cost_per_million_tokens'', \<lambda>_ v x. map_option (\<lambda>y. x\<lparr>m_OutputCostPerMTokens := y\<rparr>) (into_float64 (m_OutputCostPerMTokens x) v)),
     (''p95_latency_ms'', \<lambda>_ v x. map_option (\<lambda>y. x\<lparr>m_P95LatencyMS := y\<rparr>) (into_int (m_P95LatencyMS x) v)),
     (''quality_prior'', \<lambda>_ v x. map_option (\<lambda>y. x\<lparr>m_QualityPrior := y\<rparr>) (into_float64 (m_QualityPrior x) v)),
     (''enabled'', \<lambda>_ v x. map_option (\<lambda>y. x\<lparr>m_Enabled := y\<rparr>) (into_bool (m_Enabled x) v)),
     (''version'', \<lambda>_ v x. map_option (\<lambda>y. x\<lparr>m_Version := y\<rparr>) (into_string (m_Version x) v))]"

definition provider_fields :: "provider_config field_table" where
  "provider_fields = [
     (''id'', \<lambda>_ v x. map_option (\<lambda>y. x\<lparr>pv_ID := y\<rparr>) (into_string (pv_ID x) v)),
     (''base_url'', \<lambda>_ v x. map_option (\<lambda>y. x\<lparr>pv_BaseURL := y\<rparr>) (into_string (pv_BaseURL x) v)),
     (''base_url_env'', \<lambda>_ v x. map_option (\<lambda>y. x\<lparr>pv_BaseURLEnv := y\<rparr>) (into_string (pv_BaseURLEnv x) v)),
     (''api_key_env'', \<lambda>_ v x. map_option (\<lambda>y. x\<lparr>pv_APIKeyEnv := y\<rparr>) (into_string (pv_APIKeyEnv x) v)),
     (''headers'', \<lambda>_ v x. map_option (\<lambda>y. x\<lparr>pv_Headers := y\<rparr>) (into_map (into_string []) (pv_Headers x) v)),
     (''timeout_ms'', \<lambda>_ v x. map_option (\<lambda>y. x\<lparr>pv_TimeoutMS := y\<rparr>) (into_int (pv_TimeoutMS x) v)),
     (''max_retries'', \<lambda>_ v x. map_option (\<lambda>y. x\<lparr>pv_MaxRetries := y\<rparr>) (into_int (pv_MaxRetries x) v)),
     (''circuit_failures'', \<lambda>_ v x. map_option (\<lambda>y. x\<lparr>pv_CircuitFailures := y\<rparr>) (into_int (pv_CircuitFailures x) v)),
     (''circuit_open_ms'', \<lambda>_ v x. map_option (\<lambda>y. x\<lparr>pv_CircuitOpenMS := y\<rparr>) (into_int (pv_CircuitOpenMS x) v))]"

definition empty_model :: model where
  "empty_model = \<lparr>m_ID = [], m_Provider = [], m_UpstreamModel = [], m_Region = [], m_Privacy = [], m_ContextWindow = 0,
     m_SupportsTools = False, m_SupportsStructured = False, m_SupportsVision = False, m_InputCostPerMTokens = Fin 0,
     m_OutputCostPerMTokens = Fin 0, m_P95LatencyMS = 0, m_QualityPrior = Fin 0, m_Enabled = False, m_Version = []\<rparr>"

definition zero_provider :: provider_config where
  "zero_provider = \<lparr>pv_ID = [], pv_BaseURL = [], pv_BaseURLEnv = [], pv_APIKeyEnv = [], pv_APIKey = [], pv_Headers = [],
     pv_TimeoutMS = 0, pv_MaxRetries = 0, pv_CircuitFailures = 0, pv_CircuitOpenMS = 0\<rparr>"

definition zero_tenant :: tenant where
  "zero_tenant = \<lparr>tn_ID = [], tn_RouterAPIKeyEnv = [], tn_RouterAPIKey = [], tn_DefaultPolicyID = [], tn_Providers = []\<rparr>"

definition tenant_fields :: "tenant field_table" where
  "tenant_fields = [
     (''id'', \<lambda>_ v x. map_option (\<lambda>y. x\<lparr>tn_ID := y\<rparr>) (into_string (tn_ID x) v)),
     (''router_api_key_env'', \<lambda>_ v x. map_option (\<lambda>y. x\<lparr>tn_RouterAPIKeyEnv := y\<rparr>) (into_string (tn_RouterAPIKeyEnv x) v)),
     (''router_api_key'', \<lambda>_ v x. map_option (\<lambda>y. x\<lparr>tn_RouterAPIKey := y\<rparr>) (into_string (tn_RouterAPIKey x) v)),
     (''default_policy_id'', \<lambda>_ v x. map_option (\<lambda>y. x\<lparr>tn_DefaultPolicyID := y\<rparr>) (into_string (tn_DefaultPolicyID x) v)),
     (''providers'', \<lambda>_ v x. map_option (\<lambda>y. x\<lparr>tn_Providers := y\<rparr>) (into_map (into_struct provider_fields zero_provider) (tn_Providers x) v))]"

definition config_fields :: "config field_table" where
  "config_fields = [
     (''listen_address'', \<lambda>_ v x. map_option (\<lambda>y. x\<lparr>cf_ListenAddress := y\<rparr>) (into_string (cf_ListenAddress x) v)),
     (''data_directory'', \<lambda>_ v x. map_option (\<lambda>y. x\<lparr>cf_DataDirectory := y\<rparr>) (into_string (cf_DataDirectory x) v)),
     (''admin_key_env'', \<lambda>_ v x. map_option (\<lambda>y. x\<lparr>cf_AdminKeyEnv := y\<rparr>) (into_string (cf_AdminKeyEnv x) v)),
     (''admin_key'', \<lambda>_ v x. map_option (\<lambda>y. x\<lparr>cf_AdminKey := y\<rparr>) (into_string (cf_AdminKey x) v)),
     (''catalog'', \<lambda>_ v x. map_option (\<lambda>y. x\<lparr>cf_Catalog := y\<rparr>) (into_map (into_struct model_fields empty_model) (cf_Catalog x) v)),
     (''policies'', \<lambda>_ v x. map_option (\<lambda>y. x\<lparr>cf_Policies := y\<rparr>) (into_slice (into_struct policy_fields) zero_policy (cf_Policies x) v)),
     (''tenants'', \<lambda>_ v x. map_option (\<lambda>y. x\<lparr>cf_Tenants := y\<rparr>) (into_slice (into_struct tenant_fields) zero_tenant (cf_Tenants x) v))]"

definition decode_config :: "string \<Rightarrow> config option" where
  "decode_config s =
     Option.bind (json_value s) (into_struct config_fields
       \<lparr>cf_ListenAddress = [], cf_DataDirectory = [], cf_AdminKeyEnv = [], cf_AdminKey = [], cf_Catalog = [],
        cf_Policies = [], cf_Tenants = []\<rparr>)"

end
