(* ===== verification/Server.thy ===== *)
theory Server
  imports Engine Provider Postgres
begin

text \<open>
  The HTTP server (\<^verbatim>\<open>internal/api/server.go\<close>). A handler is a function of the server's state, the
  request and what the runtime supplies to this call: clock readings, the transport of each
  upstream call and whether each save succeeds. The state is the registry, the
  circuits, the shadow spend and the store behind the \<^verbatim>\<open>Repository\<close> interface.
\<close>

subsection \<open>State\<close>

text \<open>\<^verbatim>\<open>store.Repository\<close>: the operations the handlers call. The flags tell whether the I/O of a
  save succeeds.\<close>

record 's repository =
  rp_SaveDecision :: "bool \<Rightarrow> route_decision \<Rightarrow> 's \<Rightarrow> bool \<times> 's"
  rp_SaveOutcome :: "bool \<Rightarrow> outcome \<Rightarrow> 's \<Rightarrow> bool \<times> 's"
  rp_SavePolicy :: "bool \<Rightarrow> policy \<Rightarrow> 's \<Rightarrow> bool \<times> 's"
  rp_GetDecision :: "'s \<Rightarrow> string \<Rightarrow> string \<Rightarrow> route_decision option"
  rp_Summary :: "time \<Rightarrow> 's \<Rightarrow> string \<Rightarrow> string \<Rightarrow> string \<Rightarrow> time \<Rightarrow> audit_summary"

definition file_repository ::
  "(route_decision list \<Rightarrow> route_decision list) \<Rightarrow> ((string \<times> float64) list \<Rightarrow> (string \<times> float64) list) \<Rightarrow>
   file_store repository" where
  "file_repository visit_decisions visit =
     \<lparr>rp_SaveDecision = SaveDecision, rp_SaveOutcome = SaveOutcome, rp_SavePolicy = SavePolicy,
      rp_GetDecision = GetDecision, rp_Summary = Summary visit_decisions visit\<rparr>"

definition postgres_repository ::
  "(decision_row gomap \<Rightarrow> decision_row gomap) \<Rightarrow> (outcome_row gomap \<Rightarrow> outcome_row gomap) \<Rightarrow>
   ((string \<times> float64) list \<Rightarrow> (string \<times> float64) list) \<Rightarrow> postgres_store repository" where
  "postgres_repository fetch fetch' visit =
     \<lparr>rp_SaveDecision = PG_SaveDecision, rp_SaveOutcome = PG_SaveOutcome, rp_SavePolicy = PG_SavePolicy,
      rp_GetDecision = PG_GetDecision True, rp_Summary = PG_Summary True True fetch fetch' visit\<rparr>"

record 's server =
  sv_Registry :: registry
  sv_Circuits :: circuits
  sv_ShadowSpend :: "float64 gomap"
  sv_Store :: 's

definition NewServer :: "registry \<Rightarrow> circuits \<Rightarrow> 's \<Rightarrow> 's server" where
  "NewServer r cs s = \<lparr>sv_Registry = r, sv_Circuits = cs, sv_ShadowSpend = [], sv_Store = s\<rparr>"

subsection \<open>Responses\<close>

text \<open>\<open>ErrorBody\<close> holds a code and a message; the other two error bodies stand for the message of a
  rejected request (\<^verbatim>\<open>invalid_request\<close>) and policy (\<^verbatim>\<open>invalid_policy\<close>).\<close>

datatype response_body =
    ErrorBody string string
  | ParseErrorBody parse_error
  | PutErrorBody put_error
  | Bytes string
  | Interrupted
  | HealthBody time
  | DecisionBody route_decision
  | SummaryBody audit_summary
  | PoliciesBody "policy list"
  | PolicyBody policy
  | AcceptedBody string
  | NoBody

record response =
  re_Status :: int64
  re_Header :: header
  re_Body :: response_body

definition writeJSON :: "header \<Rightarrow> int64 \<Rightarrow> response_body \<Rightarrow> response" where
  "writeJSON h status body =
     \<lparr>re_Status = status, re_Header = Header_Set h ''Content-Type'' ''application/json'', re_Body = body\<rparr>"

definition writeError :: "header \<Rightarrow> int64 \<Rightarrow> string \<Rightarrow> string \<Rightarrow> response" where
  "writeError h status code msg = writeJSON h status (ErrorBody code msg)"

definition setDecisionHeaders :: "header \<Rightarrow> route_decision \<Rightarrow> header" where
  "setDecisionHeaders h d =
    (let h1 = Header_Set h ''X-Outcome-Decision-ID'' (d_ID d);
         model = (if d_FinalModel d = [] then d_SelectedModel d else d_FinalModel d);
         h2 = Header_Set h1 ''X-Outcome-Model'' model;
         h3 = Header_Set h2 ''X-Outcome-Policy-Version'' (d_PolicyVersion d)
     in if d_FallbackReason d \<noteq> [] then Header_Set h3 ''X-Outcome-Fallback-Reason'' (d_FallbackReason d) else h3)"

definition copyResponseHeaders :: "header \<Rightarrow> header \<Rightarrow> header" where
  "copyResponseHeaders destination source =
     foldl (\<lambda>h key. let value = Header_Get source key in if value \<noteq> [] then Header_Set h key value else h)
       destination [''Content-Type'', ''Cache-Control'', ''OpenAI-Organization'', ''OpenAI-Processing-Ms'', ''X-Request-ID'']"

subsection \<open>Token usage\<close>

record usage =
  us_PromptTokens :: int64
  us_CompletionTokens :: int64
  us_InputTokens :: int64
  us_OutputTokens :: int64

fun usage_fields :: "(string \<times> string \<times> jv) list \<Rightarrow> usage \<Rightarrow> usage option" where
  "usage_fields [] u = Some u"
| "usage_fields ((k, _, v) # ms) u =
    (case (if EqualFold k ''prompt_tokens''
           then map_option (\<lambda>n. u\<lparr>us_PromptTokens := n\<rparr>) (into_int (us_PromptTokens u) v)
           else if EqualFold k ''completion_tokens''
           then map_option (\<lambda>n. u\<lparr>us_CompletionTokens := n\<rparr>) (into_int (us_CompletionTokens u) v)
           else if EqualFold k ''input_tokens''
           then map_option (\<lambda>n. u\<lparr>us_InputTokens := n\<rparr>) (into_int (us_InputTokens u) v)
           else if EqualFold k ''output_tokens''
           then map_option (\<lambda>n. u\<lparr>us_OutputTokens := n\<rparr>) (into_int (us_OutputTokens u) v)
           else Some u) of
       None \<Rightarrow> None
     | Some u' \<Rightarrow> usage_fields ms u')"

fun response_fields :: "(string \<times> string \<times> jv) list \<Rightarrow> usage \<Rightarrow> usage option" where
  "response_fields [] u = Some u"
| "response_fields ((k, _, v) # ms) u =
    (if EqualFold k ''usage''
     then (case v of
             VNull \<Rightarrow> response_fields ms u
           | VObj fs \<Rightarrow> (case usage_fields fs u of None \<Rightarrow> None | Some u' \<Rightarrow> response_fields ms u')
           | _ \<Rightarrow> None)
     else response_fields ms u)"

definition into_usage :: "jv \<Rightarrow> usage option" where
  "into_usage v =
    (let u = \<lparr>us_PromptTokens = 0, us_CompletionTokens = 0, us_InputTokens = 0, us_OutputTokens = 0\<rparr>
     in case v of VNull \<Rightarrow> Some u | VObj ms \<Rightarrow> response_fields ms u | _ \<Rightarrow> None)"

definition parseUsage :: "string \<Rightarrow> int64 \<times> int64" where
  "parseUsage body =
    (case Option.bind (json_value body) into_usage of
       None \<Rightarrow> (0, 0)
     | Some u \<Rightarrow>
         (if us_PromptTokens u = 0 then us_InputTokens u else us_PromptTokens u,
          if us_CompletionTokens u = 0 then us_OutputTokens u else us_CompletionTokens u))"

subsection \<open>Upstream errors\<close>

text \<open>\<^verbatim>\<open>lastError\<close> of the attempt loop.\<close>

datatype attempt_error = NotConfigured string | MarshalFailed | DoFailed do_error

fun attempt_upstream :: "attempt_error option \<Rightarrow> upstream_error option" where
  "attempt_upstream (Some (DoFailed e)) = as_upstream e"
| "attempt_upstream _ = None"

definition upstreamStatus :: "attempt_error option \<Rightarrow> int64" where
  "upstreamStatus err = (case attempt_upstream err of Some u \<Rightarrow> ue_StatusCode u | None \<Rightarrow> 0)"

definition safeError :: "attempt_error option \<Rightarrow> string" where
  "safeError err =
    (case err of
       None \<Rightarrow> []
     | Some _ \<Rightarrow> (case attempt_upstream err of Some u \<Rightarrow> UpstreamError_Error u | None \<Rightarrow> ''upstream request failed''))"

definition writeUpstreamFailure :: "header \<Rightarrow> attempt_error option \<Rightarrow> route_decision \<Rightarrow> response" where
  "writeUpstreamFailure h err d =
    (case attempt_upstream err of
       Some u \<Rightarrow>
         if ue_Body u \<noteq> []
         then \<lparr>re_Status = 502,
               re_Header = setDecisionHeaders (Header_Set h ''Content-Type'' ''application/json'') d,
               re_Body = Bytes (ue_Body u)\<rparr>
         else writeError (setDecisionHeaders h d) 502 ''upstream_unavailable'' ''all eligible models failed''
     | None \<Rightarrow> writeError (setDecisionHeaders h d) 502 ''upstream_unavailable'' ''all eligible models failed'')"

definition newRecordID :: "string \<Rightarrow> int \<Rightarrow> string" where
  "newRecordID prfx nano = prfx @ ''_'' @ decimal_int nano"

subsection \<open>The shadow budget\<close>

text \<open>\<open>day\<close> is the date of this call in UTC. An absent key reads as 0.\<close>

definition shadow_key :: "string \<Rightarrow> policy \<Rightarrow> string \<Rightarrow> string" where
  "shadow_key tenantID policy day = tenantID @ ''|'' @ p_ID policy @ ''|'' @ day"

definition reserveShadowBudget ::
  "string \<Rightarrow> string \<Rightarrow> policy \<Rightarrow> float64 \<Rightarrow> float64 gomap \<Rightarrow> bool \<times> float64 gomap" where
  "reserveShadowBudget day tenantID policy estimatedCost spend =
    (let key = shadow_key tenantID policy day;
         total = fadd (lookup_zero (Fin 0) spend key) estimatedCost
     in if flt (p_ShadowBudgetUSDPerDay policy) total then (False, spend)
        else (True, AList.update key total spend))"

subsection \<open>Attempts\<close>

fun attempt_order_from :: "string list \<Rightarrow> string list \<Rightarrow> string list" where
  "attempt_order_from seen [] = []"
| "attempt_order_from seen (modelID # ids) =
     (if modelID \<noteq> [] \<and> modelID \<notin> set seen then modelID # attempt_order_from (modelID # seen) ids
      else attempt_order_from seen ids)"

definition buildAttemptOrder :: "string \<Rightarrow> string list \<Rightarrow> string \<Rightarrow> string list" where
  "buildAttemptOrder selected fallbacks incumbent = attempt_order_from [] (([selected] @ fallbacks) @ [incumbent])"

text \<open>The environment of upstream calls: the \<open>n\<close>-th call reads the clock before and after the
  network and talks to the \<open>n\<close>-th transport.\<close>

record upstream_env =
  un_url_ok :: "string \<Rightarrow> bool"
  un_clock :: "nat \<Rightarrow> time \<times> time"
  un_send :: "nat \<Rightarrow> transport"

record attempt_result =
  at_Attempted :: "string list"
  at_Response :: "(model \<times> upstream_response) option"
  at_LastError :: "attempt_error option"
  at_Circuits :: circuits

text \<open>The loop over the attempt order; \<open>n\<close> counts the upstream calls made so far.\<close>

fun attempts ::
  "upstream_env \<Rightarrow> model gomap \<Rightarrow> tenant \<Rightarrow> request \<Rightarrow> header \<Rightarrow> prediction gomap \<Rightarrow>
   nat \<Rightarrow> string list \<Rightarrow> attempt_result \<Rightarrow> attempt_result" where
  "attempts env catalog tenant parsed headers predictions n [] a = a"
| "attempts env catalog tenant parsed headers predictions n (modelID # ids) a =
    (if (case map_of predictions modelID of None \<Rightarrow> False | Some pr \<Rightarrow> \<not> pr_Eligible pr)
     then attempts env catalog tenant parsed headers predictions n ids a
     else case map_of catalog modelID of
       None \<Rightarrow> attempts env catalog tenant parsed headers predictions n ids a
     | Some m \<Rightarrow>
         (case map_of (tn_Providers tenant) (m_Provider m) of
            None \<Rightarrow> attempts env catalog tenant parsed headers predictions n ids
              (a\<lparr>at_LastError := Some (NotConfigured (m_Provider m))\<rparr>)
          | Some pv \<Rightarrow>
              (case BodyForModel parsed (m_UpstreamModel m) None of
                 None \<Rightarrow> a\<lparr>at_LastError := Some MarshalFailed\<rparr>
               | Some body \<Rightarrow>
                   (let a1 = a\<lparr>at_Attempted := at_Attempted a @ [modelID]\<rparr>;
                        (now, later) = un_clock env n
                    in case Do now later (un_url_ok env) (un_send env n) (at_Circuits a) pv m body headers of
                         (Inr response, cs) \<Rightarrow> a1\<lparr>at_Response := Some (m, response), at_LastError := None, at_Circuits := cs\<rparr>
                       | (Inl err, cs) \<Rightarrow>
                           (let a2 = a1\<lparr>at_LastError := Some (DoFailed err), at_Circuits := cs\<rparr>
                            in if \<not> Retryable err then a2
                               else attempts env catalog tenant parsed headers predictions (Suc n) ids a2)))))"

subsection \<open>Shadow evaluations\<close>

definition zero_model :: model where
  "zero_model = \<lparr>m_ID = [], m_Provider = [], m_UpstreamModel = [], m_Region = [], m_Privacy = [],
     m_ContextWindow = 0, m_SupportsTools = False, m_SupportsStructured = False, m_SupportsVision = False,
     m_InputCostPerMTokens = Fin 0, m_OutputCostPerMTokens = Fin 0, m_P95LatencyMS = 0, m_QualityPrior = Fin 0,
     m_Enabled = False, m_Version = []\<rparr>"

text \<open>What a started goroutine holds.\<close>

record shadow_task =
  sh_Model :: model
  sh_Provider :: provider_config
  sh_Prediction :: prediction
  sh_Parent :: route_decision
  sh_Request :: request
  sh_Headers :: header

text \<open>The loop of \<open>launchShadows\<close>; \<open>day k\<close> is the date when the \<open>k\<close>-th model is considered.\<close>

fun shadow_loop ::
  "(nat \<Rightarrow> string) \<Rightarrow> model gomap \<Rightarrow> tenant \<Rightarrow> policy \<Rightarrow> request \<Rightarrow> route_decision \<Rightarrow> header \<Rightarrow> nat \<Rightarrow> string list \<Rightarrow>
   float64 gomap \<Rightarrow> shadow_task list \<times> float64 gomap" where
  "shadow_loop day catalog tenant policy request parent headers k [] spend = ([], spend)"
| "shadow_loop day catalog tenant policy request parent headers k (modelID # ids) spend =
    (if modelID = d_FinalModel parent
     then shadow_loop day catalog tenant policy request parent headers (Suc k) ids spend
     else let pr = lookup_zero zero_prediction (d_Predictions parent) modelID
          in case reserveShadowBudget (day k) (tn_ID tenant) policy (pr_EstimatedCostUSD pr) spend of
            (False, spend1) \<Rightarrow> shadow_loop day catalog tenant policy request parent headers (Suc k) ids spend1
          | (True, spend1) \<Rightarrow>
              (let m = lookup_zero zero_model catalog modelID
               in case map_of (tn_Providers tenant) (m_Provider m) of
                    None \<Rightarrow> shadow_loop day catalog tenant policy request parent headers (Suc k) ids spend1
                  | Some pv \<Rightarrow>
                      (let (tasks, spend2) = shadow_loop day catalog tenant policy request parent headers (Suc k) ids spend1
                       in (\<lparr>sh_Model = m, sh_Provider = pv, sh_Prediction = pr, sh_Parent = parent,
                            sh_Request = request, sh_Headers = headers\<rparr> # tasks, spend2))))"

definition launchShadows ::
  "(nat \<Rightarrow> string) \<Rightarrow> model gomap \<Rightarrow> tenant \<Rightarrow> policy \<Rightarrow> request \<Rightarrow> route_decision \<Rightarrow> header \<Rightarrow> float64 gomap \<Rightarrow>
   shadow_task list \<times> float64 gomap" where
  "launchShadows day catalog tenant policy request parent headers spend =
    (if d_ShadowModels parent = [] \<or> d_RiskClass parent = RiskRegulated \<or> d_RiskClass parent = RiskHigh
     then ([], spend)
     else shadow_loop day catalog tenant policy request parent headers 0 (d_ShadowModels parent) spend)"

text \<open>What the runtime supplies to a shadow goroutine.\<close>

record shadow_run =
  sr_nano :: int
  sr_created :: time
  sr_completed :: time
  sr_latency_ms :: int64
  sr_upstream :: upstream_env
  sr_io :: bool

definition initial_shadow :: "shadow_run \<Rightarrow> shadow_task \<Rightarrow> route_decision" where
  "initial_shadow r t =
     (sh_Parent t)\<lparr>d_ID := newRecordID ''dec'' (sr_nano r), d_ParentDecisionID := d_ID (sh_Parent t),
       d_SelectedModel := m_ID (sh_Model t), d_FinalModel := [], d_Bucket := ''shadow'', d_ShadowModels := [],
       d_AttemptedModels := [m_ID (sh_Model t)], d_EstimatedCostUSD := pr_EstimatedCostUSD (sh_Prediction t),
       d_ActualCostUSD := Fin 0, d_CreatedAt := sr_created r, d_CompletedAt := None, d_Error := []\<rparr>"

text \<open>A body that cannot be read to its end counts as one without usage.\<close>

definition finish_shadow ::
  "shadow_task \<Rightarrow> do_error + upstream_response \<Rightarrow> route_decision \<Rightarrow> route_decision" where
  "finish_shadow t answer shadow =
    (case answer of
       Inl err \<Rightarrow> shadow\<lparr>d_Error := safeError (Some (DoFailed err)), d_UpstreamStatus := upstreamStatus (Some (DoFailed err))\<rparr>
     | Inr response \<Rightarrow>
         (let (inputTokens, outputTokens) =
                (case rs_Body response of None \<Rightarrow> (0, 0) | Some b \<Rightarrow> parseUsage (take (64 * 2 ^ 20) b))
          in shadow\<lparr>d_InputTokens := inputTokens, d_OutputTokens := outputTokens,
               d_UpstreamStatus := rs_StatusCode response, d_FinalModel := m_ID (sh_Model t),
               d_ActualCostUSD := (if 0 < inputTokens \<or> 0 < outputTokens
                 then ActualCost (sh_Model t) inputTokens outputTokens
                 else pr_EstimatedCostUSD (sh_Prediction t))\<rparr>))"

definition run_shadow :: "'s repository \<Rightarrow> shadow_run \<Rightarrow> shadow_task \<Rightarrow> 's server \<Rightarrow> 's server" where
  "run_shadow rp r t sv =
    (let shadow = initial_shadow r t;
         save = (\<lambda>d. snd (rp_SaveDecision rp (sr_io r) d (sv_Store sv)))
     in case BodyForModel (sh_Request t) (m_UpstreamModel (sh_Model t)) (Some False) of
          None \<Rightarrow> sv\<lparr>sv_Store := save (shadow\<lparr>d_Error := ''unable to encode shadow request'',
                                          d_CompletedAt := Some (sr_completed r)\<rparr>)\<rparr>
        | Some body \<Rightarrow>
            (let (now, later) = un_clock (sr_upstream r) 0;
                 (answer, cs) = Do now later (un_url_ok (sr_upstream r)) (un_send (sr_upstream r) 0)
                   (sv_Circuits sv) (sh_Provider t) (sh_Model t) body (sh_Headers t);
                 d = (finish_shadow t answer (shadow\<lparr>d_ProviderLatencyMS := sr_latency_ms r\<rparr>))
                       \<lparr>d_CompletedAt := Some (sr_completed r)\<rparr>
             in sv\<lparr>sv_Circuits := cs, sv_Store := save d\<rparr>))"

subsection \<open>Chat completions\<close>

text \<open>What the runtime supplies to a chat completion: \<open>ch_now\<close> is the clock of the health checks,
  the flags tell whether the two saves and the copy of a stream succeed.\<close>

record chat_run =
  ch_now :: time
  ch_runtime :: runtime
  ch_initial_io :: bool
  ch_final_io :: bool
  ch_copy_ok :: bool
  ch_upstream :: upstream_env
  ch_header_latency_ms :: int64
  ch_latency_ms :: int64
  ch_completed :: time
  ch_day :: "nat \<Rightarrow> string"

text \<open>The engine asks the client whether the provider of every enabled model is available; an
  expired circuit is reset by the question.\<close>

definition chat_engine :: "config \<Rightarrow> time \<Rightarrow> circuits \<Rightarrow> engine" where
  "chat_engine cfg now cs =
     \<lparr>e_Catalog = cf_Catalog cfg, e_Health = Some (\<lambda>p. fst (Available now cs p)), e_Now = None\<rparr>"

definition health_checked :: "config \<Rightarrow> time \<Rightarrow> policy \<Rightarrow> circuits \<Rightarrow> circuits" where
  "health_checked cfg now policy cs =
     foldl (\<lambda>cs modelID. case map_of (cf_Catalog cfg) modelID of
         None \<Rightarrow> cs
       | Some m \<Rightarrow> if m_Enabled m then snd (Available now cs (m_Provider m)) else cs) cs (route_models policy)"

fun contains :: "string \<Rightarrow> string \<Rightarrow> bool" where
  "contains [] sub \<longleftrightarrow> sub = []"
| "contains (c # s) sub \<longleftrightarrow> prefix sub (c # s) \<or> contains s sub"

text \<open>From the exhausted attempt loop to the error response.\<close>

definition failed_decision :: "chat_run \<Rightarrow> attempt_error option \<Rightarrow> route_decision \<Rightarrow> route_decision" where
  "failed_decision r err d =
    (let d1 = d\<lparr>d_Error := safeError err, d_ProviderLatencyMS := ch_latency_ms r, d_CompletedAt := Some (ch_completed r)\<rparr>
     in if upstreamStatus err \<noteq> 0 then d1\<lparr>d_UpstreamStatus := upstreamStatus err\<rparr> else d1)"

definition served_decision :: "chat_run \<Rightarrow> model \<Rightarrow> upstream_response \<Rightarrow> route_decision \<Rightarrow> route_decision" where
  "served_decision r m response d =
    (let d1 = d\<lparr>d_FinalModel := m_ID m, d_ProviderLatencyMS := ch_header_latency_ms r,
               d_UpstreamStatus := rs_StatusCode response\<rparr>
     in if m_ID m \<noteq> d_SelectedModel d1 then d1\<lparr>d_FallbackReason := ''selected_model_failed''\<rparr> else d1)"

definition is_stream :: "request \<Rightarrow> upstream_response \<Rightarrow> bool" where
  "is_stream parsed response \<longleftrightarrow>
     rq_Stream parsed \<or> contains (Header_Get (rs_Header response) ''Content-Type'') ''text/event-stream''"

definition streamed_decision :: "chat_run \<Rightarrow> upstream_response \<Rightarrow> route_decision \<Rightarrow> route_decision" where
  "streamed_decision r response d =
    (let d1 = (if rs_Body response = None \<or> \<not> ch_copy_ok r then d\<lparr>d_Error := ''stream interrupted''\<rparr> else d)
     in d1\<lparr>d_ActualCostUSD := d_EstimatedCostUSD d1, d_ProviderLatencyMS := ch_latency_ms r,
           d_CompletedAt := Some (ch_completed r)\<rparr>)"

definition metered_decision :: "chat_run \<Rightarrow> model gomap \<Rightarrow> model \<Rightarrow> string \<Rightarrow> route_decision \<Rightarrow> route_decision" where
  "metered_decision r catalog m responseBody d =
    (let (inputTokens, outputTokens) = parseUsage responseBody;
         d1 = d\<lparr>d_InputTokens := inputTokens, d_OutputTokens := outputTokens\<rparr>;
         d2 = (if 0 < inputTokens \<or> 0 < outputTokens
               then (let d' = d1\<lparr>d_ActualCostUSD := ActualCost m inputTokens outputTokens\<rparr>
                     in case map_of catalog (d_IncumbentModel d') of
                          None \<Rightarrow> d'
                        | Some incumbent \<Rightarrow> d'\<lparr>d_IncumbentEstimatedCostUSD := ActualCost incumbent inputTokens outputTokens\<rparr>)
               else d1\<lparr>d_ActualCostUSD := d_EstimatedCostUSD d1\<rparr>)
     in d2\<lparr>d_ProviderLatencyMS := ch_latency_ms r, d_CompletedAt := Some (ch_completed r)\<rparr>)"

text \<open>The decision as saved last, and the response, once an upstream has answered.\<close>

definition deliver ::
  "chat_run \<Rightarrow> model gomap \<Rightarrow> request \<Rightarrow> model \<Rightarrow> upstream_response \<Rightarrow> route_decision \<Rightarrow> route_decision \<times> response" where
  "deliver r catalog parsed m up d =
    (let h = copyResponseHeaders (setDecisionHeaders [] d) (rs_Header up)
     in if is_stream parsed up
        then (streamed_decision r up d,
              \<lparr>re_Status = rs_StatusCode up, re_Header = h,
               re_Body = (case rs_Body up of Some b \<Rightarrow> if ch_copy_ok r then Bytes b else Interrupted
                                           | None \<Rightarrow> Interrupted)\<rparr>)
        else case rs_Body up of
          None \<Rightarrow>
            (let d' = d\<lparr>d_Error := ''unable to read upstream response'', d_CompletedAt := Some (ch_completed r)\<rparr>
             in (d', writeError h 502 ''upstream_read_error'' (d_Error d')))
        | Some b \<Rightarrow>
            (let responseBody = take (64 * 2 ^ 20) b
             in (metered_decision r catalog m responseBody d,
                 \<lparr>re_Status = rs_StatusCode up, re_Header = h, re_Body = Bytes responseBody\<rparr>)))"

text \<open>Lines 102 to 200: the attempts, the shadows they start and the response, with the decision to be
  saved at the end; only the save itself is left to \<open>serve\<close>.\<close>

record chat_job =
  cj_Tenant :: tenant
  cj_Policy :: policy
  cj_Request :: request
  cj_Headers :: header
  cj_Decision :: route_decision

record forwarded =
  fw_Decision :: route_decision
  fw_Response :: response
  fw_Shadows :: "shadow_task list"
  fw_Circuits :: circuits
  fw_Spend :: "float64 gomap"

definition chat_attempts :: "config \<Rightarrow> upstream_env \<Rightarrow> chat_job \<Rightarrow> circuits \<Rightarrow> attempt_result" where
  "chat_attempts cfg env job cs =
    (let d = cj_Decision job; policy = cj_Policy job
     in attempts env (cf_Catalog cfg) (cj_Tenant job) (cj_Request job) (cj_Headers job) (d_Predictions d) 0
          (buildAttemptOrder (d_SelectedModel d) (p_FallbackModels policy) (p_IncumbentModel policy))
          \<lparr>at_Attempted = d_AttemptedModels d, at_Response = None, at_LastError = None, at_Circuits = cs\<rparr>)"

definition forward :: "config \<Rightarrow> chat_run \<Rightarrow> chat_job \<Rightarrow> circuits \<Rightarrow> float64 gomap \<Rightarrow> forwarded" where
  "forward cfg r job cs spend =
    (let a = chat_attempts cfg (ch_upstream r) job cs;
         d1 = (cj_Decision job)\<lparr>d_AttemptedModels := at_Attempted a\<rparr>
     in case at_Response a of
          None \<Rightarrow>
            (let d2 = failed_decision r (at_LastError a) d1
             in \<lparr>fw_Decision = d2, fw_Response = writeUpstreamFailure [] (at_LastError a) d2, fw_Shadows = [],
                 fw_Circuits = at_Circuits a, fw_Spend = spend\<rparr>)
        | Some (m, up) \<Rightarrow>
            (let d2 = served_decision r m up d1;
                 (tasks, spend') = launchShadows (ch_day r) (cf_Catalog cfg) (cj_Tenant job) (cj_Policy job)
                    (cj_Request job) d2 (cj_Headers job) spend;
                 (d3, resp) = deliver r (cf_Catalog cfg) (cj_Request job) m up d2
             in \<lparr>fw_Decision = d3, fw_Response = resp, fw_Shadows = tasks,
                 fw_Circuits = at_Circuits a, fw_Spend = spend'\<rparr>))"

definition serve ::
  "'s repository \<Rightarrow> config \<Rightarrow> chat_run \<Rightarrow> chat_job \<Rightarrow> 's server \<Rightarrow> response \<times> shadow_task list \<times> 's server" where
  "serve rp cfg r job sv =
    (let f = forward cfg r job (sv_Circuits sv) (sv_ShadowSpend sv)
     in (fw_Response f, fw_Shadows f,
         sv\<lparr>sv_Circuits := fw_Circuits f, sv_ShadowSpend := fw_Spend f,
            sv_Store := snd (rp_SaveDecision rp (ch_final_io r) (fw_Decision f) (sv_Store sv))\<rparr>))"

text \<open>\<^verbatim>\<open>recover\<close> turns a panic of the engine into an internal error.\<close>

definition internal_error :: response where
  "internal_error = writeError [] 500 ''internal_error'' ''internal server error''"

definition invalid_key :: response where
  "invalid_key = writeError [] 401 ''invalid_api_key'' ''invalid router API key''"

text \<open>Lines 71 to 100: up to the first save of the decision. \<open>body\<close> is \<open>None\<close> where reading it fails.\<close>

definition admit ::
  "'s repository \<Rightarrow> config \<Rightarrow> chat_run \<Rightarrow> header \<Rightarrow> string option \<Rightarrow> 's server \<Rightarrow> (response + chat_job) \<times> 's server" where
  "admit rp cfg r headers body sv =
    (case Authenticate cfg (Header_Get headers ''Authorization'') of
       None \<Rightarrow> (Inl invalid_key, sv)
     | Some tenant \<Rightarrow>
         (case map_option (take (32 * 2 ^ 20 + 1)) body of
            None \<Rightarrow> (Inl (writeError [] 400 ''invalid_request'' ''unable to read request''), sv)
          | Some bytes \<Rightarrow>
              (case ParseRequest bytes of
                 Inl err \<Rightarrow> (Inl (writeJSON [] 400 (ParseErrorBody err)), sv)
               | Inr parsed \<Rightarrow>
                   (let policyID = (if md_PolicyID (rq_Metadata parsed) = [] then tn_DefaultPolicyID tenant
                                    else md_PolicyID (rq_Metadata parsed))
                    in case Registry_Get (sv_Registry sv) policyID (tn_ID tenant) of
                         None \<Rightarrow> (Inl (writeError [] 400 ''unknown_policy'' ''routing policy not found''), sv)
                       | Some policy \<Rightarrow>
                           (let sv1 = sv\<lparr>sv_Circuits := health_checked cfg (ch_now r) policy (sv_Circuits sv)\<rparr>
                            in case Route (chat_engine cfg (ch_now r) (sv_Circuits sv)) (ch_runtime r) (tn_ID tenant) policy parsed of
                                 None \<Rightarrow> (Inl internal_error, sv1)
                               | Some d \<Rightarrow>
                                   (case rp_SaveDecision rp (ch_initial_io r) d (sv_Store sv1) of
                                      (False, s) \<Rightarrow>
                                        (Inl (writeError [] 500 ''audit_unavailable'' ''unable to persist routing decision''),
                                         sv1\<lparr>sv_Store := s\<rparr>)
                                    | (True, s) \<Rightarrow>
                                        (Inr \<lparr>cj_Tenant = tenant, cj_Policy = policy, cj_Request = parsed,
                                              cj_Headers = headers, cj_Decision = d\<rparr>, sv1\<lparr>sv_Store := s\<rparr>)))))))"

definition chatCompletions ::
  "'s repository \<Rightarrow> config \<Rightarrow> chat_run \<Rightarrow> header \<Rightarrow> string option \<Rightarrow> 's server \<Rightarrow>
   response \<times> shadow_task list \<times> 's server" where
  "chatCompletions rp cfg r headers body sv =
    (case admit rp cfg r headers body sv of
       (Inl resp, sv') \<Rightarrow> (resp, [], sv')
     | (Inr job, sv') \<Rightarrow> serve rp cfg r job sv')"

subsection \<open>The other handlers\<close>

definition health :: "time \<Rightarrow> response" where
  "health now = writeJSON [] 200 (HealthBody now)"

text \<open>\<open>decode\<close> is what \<^verbatim>\<open>Decoder.Decode\<close> makes of the body within its size limit.\<close>

definition outcomes ::
  "'s repository \<Rightarrow> config \<Rightarrow> (string \<Rightarrow> outcome option) \<Rightarrow> time \<Rightarrow> time \<Rightarrow> int \<Rightarrow> bool \<Rightarrow> header \<Rightarrow> string \<Rightarrow>
   's server \<Rightarrow> response \<times> 's server" where
  "outcomes rp cfg decode occurred created nano io headers body sv =
    (case Authenticate cfg (Header_Get headers ''Authorization'') of
       None \<Rightarrow> (invalid_key, sv)
     | Some tenant \<Rightarrow>
         (case decode (take (2 ^ 20) body) of
            None \<Rightarrow> (writeError [] 400 ''invalid_outcome'' ''invalid outcome payload'', sv)
          | Some out \<Rightarrow>
              if o_DecisionID out = [] \<and> o_TraceID out = []
              then (writeError [] 400 ''invalid_outcome'' ''decision_id or trace_id is required'', sv)
              else if TrimSpace (o_Type out) = [] \<or> o_Value out = None
              then (writeError [] 400 ''invalid_outcome'' ''type and value are required'', sv)
              else if o_DecisionID out \<noteq> [] \<and> rp_GetDecision rp (sv_Store sv) (tn_ID tenant) (o_DecisionID out) = None
              then (writeError [] 404 ''unknown_decision'' ''decision not found'', sv)
              else
                (let out1 = out\<lparr>o_ID := newRecordID ''out'' nano, o_TenantID := tn_ID tenant,
                       o_OccurredAt := (if o_OccurredAt out = 0 then occurred else o_OccurredAt out),
                       o_CreatedAt := created\<rparr>
                 in case rp_SaveOutcome rp io out1 (sv_Store sv) of
                      (False, s) \<Rightarrow> (writeError [] 500 ''outcome_unavailable'' ''unable to persist outcome'',
                                     sv\<lparr>sv_Store := s\<rparr>)
                    | (True, s) \<Rightarrow> (writeJSON [] 202 (AcceptedBody (o_ID out1)), sv\<lparr>sv_Store := s\<rparr>))))"

definition decision :: "'s repository \<Rightarrow> config \<Rightarrow> header \<Rightarrow> string \<Rightarrow> 's server \<Rightarrow> response" where
  "decision rp cfg headers decisionID sv =
    (case Authenticate cfg (Header_Get headers ''Authorization'') of
       None \<Rightarrow> invalid_key
     | Some tenant \<Rightarrow>
         (case rp_GetDecision rp (sv_Store sv) (tn_ID tenant) decisionID of
            None \<Rightarrow> writeError [] 404 ''unknown_decision'' ''decision not found''
          | Some d \<Rightarrow> writeJSON [] 200 (DecisionBody d)))"

text \<open>\<^verbatim>\<open>strconv.Atoi\<close>.\<close>

definition Atoi :: "string \<Rightarrow> int64 option" where
  "Atoi s =
    (let (negative, ds) = (if s \<noteq> [] \<and> hd s = CHR ''-'' then (True, tl s)
                           else if s \<noteq> [] \<and> hd s = CHR ''+'' then (False, tl s) else (False, s));
         n = (if negative then - digits_value ds else digits_value ds)
     in if ds \<noteq> [] \<and> list_all is_digit ds \<and> is_int64 n then Some n else None)"

definition summary_days :: "string \<Rightarrow> int64" where
  "summary_days raw =
    (if raw = [] then 30
     else case Atoi raw of Some n \<Rightarrow> if 0 < n \<and> n \<le> 365 then n else 30 | None \<Rightarrow> 30)"

text \<open>The query parameters are empty where the URL has none.\<close>

definition auditSummary ::
  "'s repository \<Rightarrow> config \<Rightarrow> time \<Rightarrow> time \<Rightarrow> header \<Rightarrow> string \<Rightarrow> string \<Rightarrow> string \<Rightarrow> 's server \<Rightarrow> response" where
  "auditSummary rp cfg now generated headers days policyID outcomeName sv =
    (case Authenticate cfg (Header_Get headers ''Authorization'') of
       None \<Rightarrow> invalid_key
     | Some tenant \<Rightarrow>
         (let primaryOutcome =
                (if outcomeName = []
                 then (case Registry_Get (sv_Registry sv) policyID (tn_ID tenant) of
                         Some p \<Rightarrow> p_PrimaryOutcome p
                       | None \<Rightarrow> (case Registry_Get (sv_Registry sv) (tn_DefaultPolicyID tenant) (tn_ID tenant) of
                             Some p \<Rightarrow> p_PrimaryOutcome p
                           | None \<Rightarrow> []))
                 else outcomeName);
              since = now + wrap64 (- (wrap64 (wrap64 (summary_days days * 24) * 3600000000000)))
          in writeJSON [] 200 (SummaryBody (rp_Summary rp generated (sv_Store sv) (tn_ID tenant) policyID primaryOutcome since))))"

definition policies ::
  "((policy \<Rightarrow> policy \<Rightarrow> bool) \<Rightarrow> policy list \<Rightarrow> policy list) \<Rightarrow> (policy list \<Rightarrow> policy list) \<Rightarrow>
   config \<Rightarrow> header \<Rightarrow> 's server \<Rightarrow> response" where
  "policies pdqsort visit cfg headers sv =
    (case Authenticate cfg (Header_Get headers ''Authorization'') of
       None \<Rightarrow> invalid_key
     | Some tenant \<Rightarrow> writeJSON [] 200 (PoliciesBody (Registry_List pdqsort visit (sv_Registry sv) (tn_ID tenant))))"

definition putPolicy ::
  "'s repository \<Rightarrow> config \<Rightarrow> (string \<Rightarrow> policy option) \<Rightarrow> string list \<Rightarrow> time \<Rightarrow> bool \<Rightarrow> header \<Rightarrow> string \<Rightarrow>
   's server \<Rightarrow> response \<times> 's server" where
  "putPolicy rp cfg decode ord now io headers body sv =
    (if \<not> AuthenticateAdmin cfg (Header_Get headers ''Authorization'')
     then (writeError [] 401 ''invalid_admin_key'' ''invalid administrator API key'', sv)
     else case decode (take (4 * 2 ^ 20) body) of
       None \<Rightarrow> (writeError [] 400 ''invalid_policy'' ''invalid policy payload'', sv)
     | Some p \<Rightarrow>
         (let p1 = (if p_CreatedAt p = 0 then p\<lparr>p_CreatedAt := now\<rparr> else p)
          in case Registry_Put ord (Some (rp_SavePolicy rp io)) p1 (sv_Registry sv, sv_Store sv) of
               (Some e, r, s) \<Rightarrow> (writeJSON [] 400 (PutErrorBody e), sv\<lparr>sv_Registry := r, sv_Store := s\<rparr>)
             | (None, r, s) \<Rightarrow> (writeJSON [] 201 (PolicyBody p1), sv\<lparr>sv_Registry := r, sv_Store := s\<rparr>)))"

definition cors_headers :: "header \<Rightarrow> header" where
  "cors_headers h =
    Header_Set (Header_Set (Header_Set (Header_Set h ''Access-Control-Allow-Origin'' ''*'')
      ''Access-Control-Allow-Headers'' ''Authorization, Content-Type, X-Outcome-Router-Admin'')
      ''Access-Control-Allow-Methods'' ''GET, POST, OPTIONS'')
      ''Access-Control-Expose-Headers''
      ''X-Outcome-Decision-ID, X-Outcome-Model, X-Outcome-Policy-Version, X-Outcome-Fallback-Reason''"

text \<open>Headers are set before the handler runs, so the handler's own come on top of them.\<close>

definition cors :: "string \<Rightarrow> (unit \<Rightarrow> response \<times> 'r) \<Rightarrow> 'r \<Rightarrow> response \<times> 'r" where
  "cors httpMethod next_handler unchanged =
    (if httpMethod = ''OPTIONS''
     then (\<lparr>re_Status = 204, re_Header = cors_headers [], re_Body = NoBody\<rparr>, unchanged)
     else case next_handler () of (resp, r) \<Rightarrow>
       (resp\<lparr>re_Header := foldl (\<lambda>h (k, v). AList.update k v h) (cors_headers []) (re_Header resp)\<rparr>, r))"

end
