(* ===== verification/Serving.thy ===== *)
theory Serving
  imports Server
begin

text \<open>
  What the chat completion handler guarantees: the order of attempts, which models are called and
  when the loop stops, the shadow budget, the metering of a decision and its record in the store.
\<close>

subsection \<open>The attempt order\<close>

lemma attempt_order_from_unique: "attempt_order_from seen ids = unique_from seen ids"
  by (induction seen ids rule: attempt_order_from.induct) auto

lemma buildAttemptOrder_unique: "buildAttemptOrder s fs i = unique ((s # fs) @ [i])"
  by (simp add: buildAttemptOrder_def unique_def attempt_order_from_unique)

lemma unique_from_snoc:
  "unique_from seen (vs @ [v]) = unique_from seen vs @ (if v \<in> {[]} \<union> set seen \<union> set vs then [] else [v])"
  by (induction vs arbitrary: seen) auto

text \<open>The attempt order tries the selected model first, then the fallbacks in the policy's order, each
  model once, and ends with the incumbent unless it was already tried.\<close>

theorem attempt_order:
  "buildAttemptOrder selected fallbacks incumbent =
     unique (selected # fallbacks) @
     (if incumbent \<in> insert [] (insert selected (set fallbacks)) then [] else [incumbent]) \<and>
   distinct (buildAttemptOrder selected fallbacks incumbent)"
  unfolding buildAttemptOrder_unique
  by (simp add: unique_def unique_from_distinct unique_from_snoc unique_from_set del: append_Cons unique_from.simps)

lemma set_buildAttemptOrder: "set (buildAttemptOrder s fs i) = insert s (insert i (set fs)) - {[]}"
  by (auto simp: buildAttemptOrder_unique)

subsection \<open>Which models are called\<close>

text \<open>A model the loop does not skip.\<close>

definition usable :: "model gomap \<Rightarrow> tenant \<Rightarrow> prediction gomap \<Rightarrow> string \<Rightarrow> bool" where
  "usable catalog tenant predictions i \<longleftrightarrow>
     (case map_of predictions i of None \<Rightarrow> True | Some pr \<Rightarrow> pr_Eligible pr) \<and>
     (case map_of catalog i of None \<Rightarrow> False | Some m \<Rightarrow> map_of (tn_Providers tenant) (m_Provider m) \<noteq> None)"

text \<open>How the loop ends after calling the first \<open>k\<close> usable models.\<close>

definition loop_end :: "model gomap \<Rightarrow> string list \<Rightarrow> nat \<Rightarrow> attempt_result \<Rightarrow> bool" where
  "loop_end catalog us k a \<longleftrightarrow>
     (case at_Response a of
        Some (m, up) \<Rightarrow> 0 < k \<and> map_of catalog (us ! (k - 1)) = Some m \<and>
          200 \<le> rs_StatusCode up \<and> rs_StatusCode up < 300 \<and> at_LastError a = None
      | None \<Rightarrow>
          k = length us \<or> at_LastError a = Some MarshalFailed \<or>
          (\<exists>err. at_LastError a = Some (DoFailed err) \<and> \<not> Retryable err))"

lemma loop_end_skip:
  "loop_end catalog us k a \<Longrightarrow> k = length us \<or> k < length us \<Longrightarrow> loop_end catalog (u # us) (Suc k) a"
  by (cases k) (auto simp: loop_end_def split: option.splits prod.splits)

lemma attempts_run:
  assumes "at_Response a = None"
  shows "\<exists>k\<le>length (filter (usable catalog tenant preds) ids).
     at_Attempted (attempts env catalog tenant parsed headers preds n ids a) =
       at_Attempted a @ take k (filter (usable catalog tenant preds) ids) \<and>
     loop_end catalog (filter (usable catalog tenant preds) ids) k
       (attempts env catalog tenant parsed headers preds n ids a)"
  using assms
proof (induction env catalog tenant parsed headers preds n ids a rule: attempts.induct)
  case (1 env catalog tenant parsed headers preds n a)
  then show ?case by (simp add: loop_end_def)
next
  case (2 env catalog tenant parsed headers preds n i ids a)
  let ?us = "filter (usable catalog tenant preds) ids"
  show ?case
  proof (cases "usable catalog tenant preds i")
    case False
    consider (ineligible) "case map_of preds i of None \<Rightarrow> False | Some pr \<Rightarrow> \<not> pr_Eligible pr"
      | (unknown) "\<not> (case map_of preds i of None \<Rightarrow> False | Some pr \<Rightarrow> \<not> pr_Eligible pr)" "map_of catalog i = None"
      | (unconfigured) m where "\<not> (case map_of preds i of None \<Rightarrow> False | Some pr \<Rightarrow> \<not> pr_Eligible pr)"
          "map_of catalog i = Some m" "map_of (tn_Providers tenant) (m_Provider m) = None"
      using False by (auto simp: usable_def split: option.splits)
    then show ?thesis
    proof cases
      case ineligible
      with "2.IH"(1) [OF ineligible "2.prems"] False show ?thesis by simp
    next
      case unknown
      with "2.IH"(2) [OF unknown "2.prems"] False show ?thesis by simp
    next
      case unconfigured
      with "2.IH"(3) [OF unconfigured] "2.prems" False show ?thesis by simp
    qed
  next
    case True
    then obtain m pv where e: "\<not> (case map_of preds i of None \<Rightarrow> False | Some pr \<Rightarrow> \<not> pr_Eligible pr)"
      and m: "map_of catalog i = Some m" and pv: "map_of (tn_Providers tenant) (m_Provider m) = Some pv"
      by (auto simp: usable_def split: option.splits)
    show ?thesis
    proof (cases "BodyForModel parsed (m_UpstreamModel m) None")
      case None
      then show ?thesis
        using e m pv True "2.prems" by (intro exI [of _ 0]) (simp add: loop_end_def)
    next
      case (Some body)
      obtain now later where clock: "un_clock env n = (now, later)" by (cases "un_clock env n")
      obtain answer cs where call: "Do now later (un_url_ok env) (un_send env n) (at_Circuits a) pv m body headers = (answer, cs)"
        by (cases "Do now later (un_url_ok env) (un_send env n) (at_Circuits a) pv m body headers")
      show ?thesis
      proof (cases answer)
        case (Inr up)
        have "200 \<le> rs_StatusCode up \<and> rs_StatusCode up < 300"
          using call Inr Do_success [of now later "un_url_ok env" "un_send env n" "at_Circuits a" pv m body headers up]
          by simp
        then show ?thesis
          using e m pv Some clock call Inr True by (intro exI [of _ 1]) (simp add: loop_end_def)
      next
        case (Inl err)
        show ?thesis
        proof (cases "Retryable err")
          case False
          then show ?thesis
            using e m pv Some clock call Inl True "2.prems" by (intro exI [of _ 1]) (simp add: loop_end_def)
        next
          case retry: True
          let ?a = "a\<lparr>at_Attempted := at_Attempted a @ [i], at_LastError := Some (DoFailed err), at_Circuits := cs\<rparr>"
          have "\<exists>k\<le>length ?us.
              at_Attempted (attempts env catalog tenant parsed headers preds (Suc n) ids ?a) = at_Attempted ?a @ take k ?us \<and>
              loop_end catalog ?us k (attempts env catalog tenant parsed headers preds (Suc n) ids ?a)"
            using "2.IH"(4) [OF e m pv Some refl refl clock [symmetric] call [symmetric] Inl refl] retry "2.prems" 
            by simp
          then obtain k where k: "k \<le> length ?us"
              "at_Attempted (attempts env catalog tenant parsed headers preds (Suc n) ids ?a) = at_Attempted ?a @ take k ?us"
              "loop_end catalog ?us k (attempts env catalog tenant parsed headers preds (Suc n) ids ?a)"
            by blast
          then show ?thesis
            using e m pv Some clock call Inl retry True
            by (intro exI [of _ "Suc k"]) (auto intro: loop_end_skip)
        qed
      qed
    qed
  qed
qed

definition attempt_list :: "config \<Rightarrow> chat_job \<Rightarrow> string list" where
  "attempt_list cfg job =
    (let d = cj_Decision job
     in filter (usable (cf_Catalog cfg) (cj_Tenant job) (d_Predictions d))
          (buildAttemptOrder (d_SelectedModel d) (p_FallbackModels (cj_Policy job)) (p_IncumbentModel (cj_Policy job))))"

lemma chat_attempts_run:
  "\<exists>k\<le>length (attempt_list cfg job).
     at_Attempted (chat_attempts cfg env job cs) = d_AttemptedModels (cj_Decision job) @ take k (attempt_list cfg job) \<and>
     loop_end (cf_Catalog cfg) (attempt_list cfg job) k (chat_attempts cfg env job cs)"
  unfolding chat_attempts_def attempt_list_def Let_def
  using attempts_run [of "\<lparr>at_Attempted = d_AttemptedModels (cj_Decision job), at_Response = None,
      at_LastError = None, at_Circuits = cs\<rparr>"] by simp


text \<open>A job as \<open>admit\<close> hands it over.\<close>

definition routed_job :: "config \<Rightarrow> chat_job \<Rightarrow> bool" where
  "routed_job cfg job \<longleftrightarrow>
     (\<exists>now cs rt. pdq_sorter (rt_pdqsort rt) \<and>
        Route (chat_engine cfg now cs) rt (tn_ID (cj_Tenant job)) (cj_Policy job) (cj_Request job) = Some (cj_Decision job))"

lemma usable_feasible:
  assumes "routed_job cfg job" and "wf_catalog (cf_Catalog cfg)"
    and "i \<in> set (buildAttemptOrder (d_SelectedModel (cj_Decision job)) (p_FallbackModels (cj_Policy job))
      (p_IncumbentModel (cj_Policy job)))"
    and "usable (cf_Catalog cfg) (cj_Tenant job) (d_Predictions (cj_Decision job)) i"
  shows "i \<in> set (d_FeasibleModels (cj_Decision job))"
proof -
  obtain now cs rt where sorter: "pdq_sorter (rt_pdqsort rt)" and
    r: "Route (chat_engine cfg now cs) rt (tn_ID (cj_Tenant job)) (cj_Policy job) (cj_Request job) = Some (cj_Decision job)"
    using assms(1) by (auto simp: routed_job_def)
  let ?e = "chat_engine cfg now cs"
  have cat: "e_Catalog ?e = cf_Catalog cfg" by (simp add: chat_engine_def)
  have "i \<in> set (route_models (cj_Policy job))"
    using assms(3) Route_selected [OF r _ sorter] assms(2)
    by (auto simp: set_buildAttemptOrder set_route_models cat)
  moreover obtain m where m: "map_of (cf_Catalog cfg) i = Some m"
    using assms(4) by (auto simp: usable_def split: option.splits)
  ultimately have p: "map_of (d_Predictions (cj_Decision job)) i =
      Some (predict ?e (rt_feature_order rt i) (cj_Policy job) m (cj_Request job))"
    using Route_predictions [OF r] by (simp add: prediction_for_def cat)
  then have "is_feasible ?e (cj_Policy job) (cj_Request job) i"
    using assms(4) m by (simp add: usable_def is_feasible_def cat infeasibleReason_iff)
  with \<open>i \<in> set (route_models (cj_Policy job))\<close> show ?thesis by (simp add: Route_feasible_eq [OF r])
qed

lemma routed_attempted: "routed_job cfg job \<Longrightarrow> d_AttemptedModels (cj_Decision job) = []"
  by (auto simp: routed_job_def Route_frame)

lemma attempted_feasible:
  assumes "routed_job cfg job" and "wf_catalog (cf_Catalog cfg)"
  shows "set (at_Attempted (chat_attempts cfg env job cs)) \<subseteq> set (d_FeasibleModels (cj_Decision job))"
    and "at_Response (chat_attempts cfg env job cs) = Some (m, up) \<Longrightarrow> m_ID m \<in> set (d_FeasibleModels (cj_Decision job))"
proof -
  let ?d = "cj_Decision job"
  let ?us = "attempt_list cfg job"
  obtain k where k: "k \<le> length ?us" "at_Attempted (chat_attempts cfg env job cs) = d_AttemptedModels ?d @ take k ?us"
    "loop_end (cf_Catalog cfg) ?us k (chat_attempts cfg env job cs)"
    using chat_attempts_run [of cfg job env cs] by blast
  have us: "set ?us \<subseteq> set (d_FeasibleModels ?d)"
    using usable_feasible [OF assms] by (auto simp: attempt_list_def Let_def)
  show "set (at_Attempted (chat_attempts cfg env job cs)) \<subseteq> set (d_FeasibleModels ?d)"
    unfolding k(2) using us set_take_subset [of k ?us] by (simp only: routed_attempted [OF assms(1)]) auto
  show "m_ID m \<in> set (d_FeasibleModels ?d)" if "at_Response (chat_attempts cfg env job cs) = Some (m, up)"
  proof -
    have "0 < k" and m: "map_of (cf_Catalog cfg) (?us ! (k - 1)) = Some m"
      using k(3) that by (simp_all add: loop_end_def)
    then have "?us ! (k - 1) \<in> set ?us" using k(1) by (intro nth_mem) simp
    moreover have "m_ID m = ?us ! (k - 1)" using m assms(2) by (simp add: wf_catalog_def)
    ultimately show ?thesis using us by auto
  qed
qed

subsection \<open>The decision that is saved at the end\<close>

lemma metered_decision_eq:
  "metered_decision r catalog m body d =
    (let (i, n) = parseUsage body in
     d\<lparr>d_InputTokens := i, d_OutputTokens := n,
       d_ActualCostUSD := (if 0 < i \<or> 0 < n then ActualCost m i n else d_EstimatedCostUSD d),
       d_IncumbentEstimatedCostUSD := (if 0 < i \<or> 0 < n
         then (case map_of catalog (d_IncumbentModel d) of None \<Rightarrow> d_IncumbentEstimatedCostUSD d
               | Some inc \<Rightarrow> ActualCost inc i n)
         else d_IncumbentEstimatedCostUSD d),
       d_ProviderLatencyMS := ch_latency_ms r, d_CompletedAt := Some (ch_completed r)\<rparr>)"
  by (simp add: metered_decision_def Let_def split: prod.splits option.splits)

text \<open>The fields of a decision that serving it leaves alone.\<close>

definition kept :: "route_decision \<Rightarrow> string list \<times> string list \<times> string \<times> string \<times> string \<times> string \<times> string \<times> string \<times> time" where
  "kept d = (d_FeasibleModels d, d_ShadowModels d, d_ID d, d_ParentDecisionID d, d_TenantID d, d_PolicyID d,
     d_RiskClass d, d_Bucket d, d_CreatedAt d)"

lemma deliver_frame:
  "kept (fst (deliver r catalog parsed m up d)) = kept d"
  "d_AttemptedModels (fst (deliver r catalog parsed m up d)) = d_AttemptedModels d"
  "d_FinalModel (fst (deliver r catalog parsed m up d)) = d_FinalModel d"
  "d_SelectedModel (fst (deliver r catalog parsed m up d)) = d_SelectedModel d"
  by (auto simp: deliver_def Let_def kept_def streamed_decision_def metered_decision_eq split: option.splits prod.splits)

lemma forward_frame:
  "kept (fw_Decision (forward cfg r job cs spend)) = kept (cj_Decision job)"
  "d_AttemptedModels (fw_Decision (forward cfg r job cs spend)) = at_Attempted (chat_attempts cfg (ch_upstream r) job cs)"
  "d_FinalModel (fw_Decision (forward cfg r job cs spend)) =
     (case at_Response (chat_attempts cfg (ch_upstream r) job cs) of None \<Rightarrow> d_FinalModel (cj_Decision job)
      | Some (m, up) \<Rightarrow> m_ID m)"
  "fw_Circuits (forward cfg r job cs spend) = at_Circuits (chat_attempts cfg (ch_upstream r) job cs)"
proof -
  let ?a = "chat_attempts cfg (ch_upstream r) job cs"
  have s: "kept (served_decision r m up d) = kept d" "d_AttemptedModels (served_decision r m up d) = d_AttemptedModels d"
    "d_FinalModel (served_decision r m up d) = m_ID m" for m up d
    by (simp_all add: served_decision_def Let_def kept_def)
  have f: "kept (failed_decision r e d) = kept d" "d_AttemptedModels (failed_decision r e d) = d_AttemptedModels d"
    "d_FinalModel (failed_decision r e d) = d_FinalModel d" for e d
    by (simp_all add: failed_decision_def Let_def kept_def)
  have a: "kept (d\<lparr>d_AttemptedModels := x\<rparr>) = kept d" for d x by (simp add: kept_def)
  show "kept (fw_Decision (forward cfg r job cs spend)) = kept (cj_Decision job)"
    and "d_AttemptedModels (fw_Decision (forward cfg r job cs spend)) = at_Attempted ?a"
    and "d_FinalModel (fw_Decision (forward cfg r job cs spend)) =
     (case at_Response ?a of None \<Rightarrow> d_FinalModel (cj_Decision job) | Some (m, up) \<Rightarrow> m_ID m)"
    and "fw_Circuits (forward cfg r job cs spend) = at_Circuits ?a"
    by (auto simp: forward_def Let_def s f a case_prod_unfold deliver_frame split: option.splits)
qed


subsection \<open>Costs\<close>

text \<open>What a request costs: the metered tokens priced at the model that served it, next to the same
  tokens priced at the incumbent; without a usage report, and for a stream, the estimate.\<close>

theorem metered_cost:
  "d_ActualCostUSD (metered_decision r catalog m body d) =
     (case parseUsage body of (i, n) \<Rightarrow> if 0 < i \<or> 0 < n then ActualCost m i n else d_EstimatedCostUSD d) \<and>
   d_IncumbentEstimatedCostUSD (metered_decision r catalog m body d) =
     (case (parseUsage body, map_of catalog (d_IncumbentModel d)) of
        ((i, n), Some incumbent) \<Rightarrow> if 0 < i \<or> 0 < n then ActualCost incumbent i n else d_IncumbentEstimatedCostUSD d
      | (_, None) \<Rightarrow> d_IncumbentEstimatedCostUSD d) \<and>
   d_ActualCostUSD (streamed_decision r up d) = d_EstimatedCostUSD d"
  by (auto simp: metered_decision_eq streamed_decision_def Let_def split: prod.splits option.splits)

text \<open>The estimate is the selected model's: after a fallback to another model, a stream is
  billed at the price of a model that did not serve it.\<close>

text \<open>A stream that fell back to another model is recorded at the estimate of the model that failed: the
  recorded cost does not depend on the model that served it.\<close>

theorem streamed_fallback_cost:
  "d_ActualCostUSD (streamed_decision r up (served_decision r m up d)) = d_EstimatedCostUSD d \<and>
   d_FinalModel (streamed_decision r up (served_decision r m up d)) = m_ID m"
  by (simp add: streamed_decision_def served_decision_def Let_def)

subsection \<open>The record of a request\<close>

lemma admit_Inr:
  assumes "admit rp cfg r headers body sv = (Inr job, sv')"
  shows "Authenticate cfg (Header_Get headers ''Authorization'') = Some (cj_Tenant job)"
    and "\<exists>bytes. body = Some bytes \<and> ParseRequest (take (32 * 2 ^ 20 + 1) bytes) = Inr (cj_Request job)"
    and "Registry_Get (sv_Registry sv) (if md_PolicyID (rq_Metadata (cj_Request job)) = []
           then tn_DefaultPolicyID (cj_Tenant job) else md_PolicyID (rq_Metadata (cj_Request job)))
           (tn_ID (cj_Tenant job)) = Some (cj_Policy job)"
    and "Route (chat_engine cfg (ch_now r) (sv_Circuits sv)) (ch_runtime r) (tn_ID (cj_Tenant job)) (cj_Policy job)
           (cj_Request job) = Some (cj_Decision job)"
    and "rp_SaveDecision rp (ch_initial_io r) (cj_Decision job) (sv_Store sv) = (True, sv_Store sv')"
    and "sv_Registry sv' = sv_Registry sv" and "sv_ShadowSpend sv' = sv_ShadowSpend sv"
    and "cj_Headers job = headers"
  using assms unfolding admit_def Let_def
  by (auto split: option.splits sum.splits prod.splits bool.splits)

lemma admit_Inl:
  assumes "admit rp cfg r headers body sv = (Inl resp, sv')"
  shows "sv_Store sv' = sv_Store sv \<or> (\<exists>d. rp_SaveDecision rp (ch_initial_io r) d (sv_Store sv) = (False, sv_Store sv'))"
    and "sv_Registry sv' = sv_Registry sv" and "sv_ShadowSpend sv' = sv_ShadowSpend sv"
    and "re_Status resp \<in> {400, 401, 500}"
  using assms unfolding admit_def Let_def
  by (auto simp: writeError_def writeJSON_def invalid_key_def internal_error_def
      split: option.splits sum.splits prod.splits bool.splits)

text \<open>\<open>admit\<close> does not look at the upstream environment.\<close>

lemma admit_upstream: "admit rp cfg (r\<lparr>ch_upstream := env\<rparr>) headers body sv = admit rp cfg r headers body sv"
proof -
  have eqs: "ch_now (r\<lparr>ch_upstream := env\<rparr>) = ch_now r" "ch_runtime (r\<lparr>ch_upstream := env\<rparr>) = ch_runtime r"
    "ch_initial_io (r\<lparr>ch_upstream := env\<rparr>) = ch_initial_io r"
    by simp_all
  show ?thesis unfolding admit_def eqs ..
qed

text \<open>C5: Nothing is sent upstream before the decision is on record: when the first save fails, no outcome of
  the request - response, state, shadows - depends on the upstreams, the request is refused, and
  no shadow evaluation starts.\<close>

theorem no_call_without_record:
  "snd (admit rp cfg r headers body sv) = snd (admit rp cfg (r\<lparr>ch_upstream := env\<rparr>) headers body sv) \<and>
   (case fst (admit rp cfg r headers body sv) of
      Inr job \<Rightarrow> fst (rp_SaveDecision rp (ch_initial_io r) (cj_Decision job) (sv_Store sv))
    | Inl resp \<Rightarrow> re_Status resp \<in> {400, 401, 500} \<and>
        chatCompletions rp cfg (r\<lparr>ch_upstream := env\<rparr>) headers body sv =
          (resp, [], snd (admit rp cfg r headers body sv)))"
proof (cases "fst (admit rp cfg r headers body sv)")
  case (Inl resp)
  then obtain sv' where a: "admit rp cfg r headers body sv = (Inl resp, sv')" by (metis prod.collapse)
  then show ?thesis using admit_Inl(4) [OF a] by (simp add: chatCompletions_def admit_upstream)
next
  case (Inr job)
  then obtain sv' where a: "admit rp cfg r headers body sv = (Inr job, sv')" by (metis prod.collapse)
  then show ?thesis using admit_Inr(5) [OF a] by (simp add: admit_upstream)
qed

lemma serve_parts:
  "serve rp cfg r job sv =
    (fw_Response (forward cfg r job (sv_Circuits sv) (sv_ShadowSpend sv)),
     fw_Shadows (forward cfg r job (sv_Circuits sv) (sv_ShadowSpend sv)),
     sv\<lparr>sv_Circuits := fw_Circuits (forward cfg r job (sv_Circuits sv) (sv_ShadowSpend sv)),
        sv_ShadowSpend := fw_Spend (forward cfg r job (sv_Circuits sv) (sv_ShadowSpend sv)),
        sv_Store := snd (rp_SaveDecision rp (ch_final_io r)
          (fw_Decision (forward cfg r job (sv_Circuits sv) (sv_ShadowSpend sv))) (sv_Store sv))\<rparr>)"
  by (simp add: serve_def Let_def)

lemma Header_Get_Set:
  "Header_Get (Header_Set h k v) k' = (if canonical_key k = canonical_key k' then v else Header_Get h k')"
  by (simp add: Header_Get_def Header_Set_def lookup_zero_update)

lemma response_header_names:
  "canonical_key ''Content-Type'' = ''Content-Type'' \<and>
  canonical_key ''Cache-Control'' = ''Cache-Control'' \<and>
  canonical_key ''OpenAI-Organization'' = ''Openai-Organization'' \<and>
  canonical_key ''OpenAI-Processing-Ms'' = ''Openai-Processing-Ms'' \<and>
  canonical_key ''X-Request-ID'' = ''X-Request-Id'' \<and>
  canonical_key ''X-Outcome-Decision-ID'' = ''X-Outcome-Decision-Id'' \<and>
  canonical_key ''X-Outcome-Model'' = ''X-Outcome-Model'' \<and>
  canonical_key ''X-Outcome-Policy-Version'' = ''X-Outcome-Policy-Version'' \<and>
  canonical_key ''X-Outcome-Fallback-Reason'' = ''X-Outcome-Fallback-Reason''"
  by code_simp

lemmas header_lookup = Header_Get_Set response_header_names

lemma setDecisionHeaders_get:
  "Header_Get (setDecisionHeaders h d) ''X-Outcome-Decision-ID'' = d_ID d"
  "Header_Get (setDecisionHeaders h d) ''X-Outcome-Model'' = served_model d"
  "Header_Get (setDecisionHeaders h d) ''X-Outcome-Policy-Version'' = d_PolicyVersion d"
  by (simp_all add: setDecisionHeaders_def Let_def header_lookup served_model_def)

lemma copyResponseHeaders_get:
  "Header_Get (copyResponseHeaders h src) ''X-Outcome-Decision-ID'' = Header_Get h ''X-Outcome-Decision-ID''"
  "Header_Get (copyResponseHeaders h src) ''X-Outcome-Model'' = Header_Get h ''X-Outcome-Model''"
  "Header_Get (copyResponseHeaders h src) ''X-Outcome-Policy-Version'' = Header_Get h ''X-Outcome-Policy-Version''"
  by (simp_all add: copyResponseHeaders_def Let_def header_lookup)

lemma writeError_get:
  "Header_Get (re_Header (writeError h status code msg)) ''X-Outcome-Decision-ID'' = Header_Get h ''X-Outcome-Decision-ID''"
  "Header_Get (re_Header (writeError h status code msg)) ''X-Outcome-Model'' = Header_Get h ''X-Outcome-Model''"
  by (simp_all add: writeError_def writeJSON_def header_lookup)

lemma writeUpstreamFailure_get:
  "Header_Get (re_Header (writeUpstreamFailure h e d)) ''X-Outcome-Decision-ID'' = d_ID d"
  "Header_Get (re_Header (writeUpstreamFailure h e d)) ''X-Outcome-Model'' = served_model d"
  by (simp_all add: writeUpstreamFailure_def writeError_get setDecisionHeaders_get split: option.splits)

lemma deliver_get:
  "Header_Get (re_Header (snd (deliver r catalog parsed m up d))) ''X-Outcome-Decision-ID'' = d_ID d"
  "Header_Get (re_Header (snd (deliver r catalog parsed m up d))) ''X-Outcome-Model'' = served_model d"
  by (simp_all add: deliver_def Let_def writeError_get copyResponseHeaders_get setDecisionHeaders_get split: option.splits)

lemma forward_headers:
  "Header_Get (re_Header (fw_Response (forward cfg r job cs spend))) ''X-Outcome-Decision-ID'' = d_ID (cj_Decision job)"
  "Header_Get (re_Header (fw_Response (forward cfg r job cs spend))) ''X-Outcome-Model'' =
     served_model (fw_Decision (forward cfg r job cs spend))"
proof -
  have s: "d_ID (served_decision r m up d) = d_ID d" for m up d by (simp add: served_decision_def Let_def)
  have f: "d_ID (failed_decision r e d) = d_ID d" for e d by (simp add: failed_decision_def Let_def)
  have m: "served_model (fst (deliver r catalog parsed m up d)) = served_model d" for r catalog parsed m up d
    by (simp add: served_model_def deliver_frame)
  show "Header_Get (re_Header (fw_Response (forward cfg r job cs spend))) ''X-Outcome-Decision-ID'' = d_ID (cj_Decision job)"
    and "Header_Get (re_Header (fw_Response (forward cfg r job cs spend))) ''X-Outcome-Model'' =
     served_model (fw_Decision (forward cfg r job cs spend))"
    by (simp_all add: forward_def Let_def case_prod_unfold writeUpstreamFailure_get deliver_get s f m split: option.splits)
qed

lemma fst_SaveDecision [simp]: "fst (SaveDecision io d s) = io"
  by (cases io) (auto simp: SaveDecision_def split: prod.splits dest: append_failed)

lemma file_repository_simps [simp]:
  "rp_SaveDecision (file_repository vd v) = SaveDecision" "rp_GetDecision (file_repository vd v) = GetDecision"
  "rp_SaveOutcome (file_repository vd v) = SaveOutcome" "rp_SavePolicy (file_repository vd v) = SavePolicy"
  "rp_Summary (file_repository vd v) = Summary vd v"
  by (simp_all add: file_repository_def)

text \<open>C4: Every routed request can be accounted for: the response names its decision and the model that served
  it, and under that id the tenant - and nobody else - reads the decision as it ended, or as it was
  routed if the last save failed.\<close>

theorem served_request_on_record:
  assumes "admit (file_repository vd v) cfg r headers body sv = (Inr job, sv1)"
    and "chatCompletions (file_repository vd v) cfg r headers body sv = (resp, tasks, sv2)"
  shows "\<exists>d. d = (if ch_final_io r then fw_Decision (forward cfg r job (sv_Circuits sv1) (sv_ShadowSpend sv1)) else cj_Decision job) \<and>
      Header_Get (re_Header resp) ''X-Outcome-Decision-ID'' = d_ID d \<and>
      Header_Get (re_Header resp) ''X-Outcome-Model'' = served_model (fw_Decision (forward cfg r job (sv_Circuits sv1) (sv_ShadowSpend sv1))) \<and>
      GetDecision (sv_Store sv2) t (d_ID d) = (if t = tn_ID (cj_Tenant job) then Some d else None)"
proof -
  let ?f = "forward cfg r job (sv_Circuits sv1) (sv_ShadowSpend sv1)"
  have parts: "resp = fw_Response ?f" "sv_Store sv2 = snd (SaveDecision (ch_final_io r) (fw_Decision ?f) (sv_Store sv1))"
    using assms by (auto simp: chatCompletions_def serve_parts)
  have tenant: "d_TenantID (cj_Decision job) = tn_ID (cj_Tenant job)"
    using admit_Inr(4) [OF assms(1)] by (rule Route_frame)
  have keep: "d_ID (fw_Decision ?f) = d_ID (cj_Decision job)" "d_TenantID (fw_Decision ?f) = d_TenantID (cj_Decision job)"
    using forward_frame(1) [of cfg r job "sv_Circuits sv1" "sv_ShadowSpend sv1"] by (simp_all add: kept_def)
  have first: "SaveDecision (ch_initial_io r) (cj_Decision job) (sv_Store sv) = (True, sv_Store sv1)"
    using admit_Inr(5) [OF assms(1)] by simp
  then have "ch_initial_io r" by (metis fst_SaveDecision fst_conv)
  then have read1: "GetDecision (sv_Store sv1) t (d_ID (cj_Decision job)) =
      (if t = d_TenantID (cj_Decision job) then Some (cj_Decision job) else None)"
    using file_ledger.saved [of "ch_initial_io r" "cj_Decision job" "sv_Store sv" t "d_ID (cj_Decision job)"] first by simp
  have "GetDecision (sv_Store sv2) t (d_ID (cj_Decision job)) =
      (if t = tn_ID (cj_Tenant job) then Some (if ch_final_io r then fw_Decision ?f else cj_Decision job) else None)"
  proof (cases "ch_final_io r")
    case True
    then show ?thesis
      using file_ledger.saved [of "ch_final_io r" "fw_Decision ?f" "sv_Store sv1" t "d_ID (cj_Decision job)"]
      by (simp add: parts(2) keep tenant)
  next
    case False
    then show ?thesis
      using file_ledger.not_saved [of "ch_final_io r" "fw_Decision ?f" "sv_Store sv1" t "d_ID (cj_Decision job)"] read1
      by (simp add: parts(2) tenant)
  qed
  then show ?thesis
    using forward_headers [of cfg r job "sv_Circuits sv1" "sv_ShadowSpend sv1"] by (auto simp: parts(1) keep)
qed

subsection \<open>The shadow budget\<close>

record reservation =
  rv_day :: string
  rv_tenant :: string
  rv_policy :: policy
  rv_cost :: float64

definition rv_key :: "reservation \<Rightarrow> string" where
  "rv_key v = shadow_key (rv_tenant v) (rv_policy v) (rv_day v)"

text \<open>Reservations in the order the mutex admits them, and those that were granted.\<close>

fun reserve_all :: "float64 gomap \<Rightarrow> reservation list \<Rightarrow> reservation list \<times> float64 gomap" where
  "reserve_all spend [] = ([], spend)"
| "reserve_all spend (v # vs) =
    (let (ok, spend1) = reserveShadowBudget (rv_day v) (rv_tenant v) (rv_policy v) (rv_cost v) spend;
         (granted, spend2) = reserve_all spend1 vs
     in (if ok then v # granted else granted, spend2))"

definition spent :: "string \<Rightarrow> reservation list \<Rightarrow> float64" where
  "spent k vs = foldl fadd (Fin 0) (map rv_cost (filter (\<lambda>v. rv_key v = k) vs))"

lemma reserve_cases:
  "reserveShadowBudget (rv_day v) (rv_tenant v) (rv_policy v) (rv_cost v) spend =
    (let total = fadd (lookup_zero (Fin 0) spend (rv_key v)) (rv_cost v)
     in if flt (p_ShadowBudgetUSDPerDay (rv_policy v)) total then (False, spend)
        else (True, AList.update (rv_key v) total spend))"
  by (simp add: reserveShadowBudget_def rv_key_def Let_def)

lemma reserve_all_spent:
  "lookup_zero (Fin 0) (snd (reserve_all spend vs)) k =
     foldl fadd (lookup_zero (Fin 0) spend k) (map rv_cost (filter (\<lambda>v. rv_key v = k) (fst (reserve_all spend vs))))"
proof (induction vs arbitrary: spend)
  case (Cons v vs)
  show ?case
    by (cases "flt (p_ShadowBudgetUSDPerDay (rv_policy v)) (fadd (lookup_zero (Fin 0) spend (rv_key v)) (rv_cost v))")
      (simp_all add: reserve_cases Let_def Cons.IH lookup_zero_update case_prod_unfold)
qed simp

lemma reserve_all_budget:
  assumes "\<And>v. v \<in> set vs \<Longrightarrow> rv_key v = k \<Longrightarrow>
      p_ShadowBudgetUSDPerDay (rv_policy v) = b \<and> fle (Fin 0) (rv_cost v)"
    and "fle (Fin 0) (lookup_zero (Fin 0) spend k)" and "fle (lookup_zero (Fin 0) spend k) b"
  shows "fle (lookup_zero (Fin 0) (snd (reserve_all spend vs)) k) b"
  using assms
proof (induction vs arbitrary: spend)
  case (Cons v vs)
  let ?total = "fadd (lookup_zero (Fin 0) spend (rv_key v)) (rv_cost v)"
  show ?case
  proof (cases "flt (p_ShadowBudgetUSDPerDay (rv_policy v)) ?total")
    case True
    then show ?thesis using Cons by (simp add: reserve_cases Let_def case_prod_unfold)
  next
    case False
    have next_spend: "fle (Fin 0) (lookup_zero (Fin 0) (AList.update (rv_key v) ?total spend) k) \<and>
        fle (lookup_zero (Fin 0) (AList.update (rv_key v) ?total spend) k) b"
    proof (cases "rv_key v = k")
      case True
      then have b: "p_ShadowBudgetUSDPerDay (rv_policy v) = b" "fle (Fin 0) (rv_cost v)" using Cons.prems(1) by auto
      have "fle (Fin 0) ?total" using fadd_mono_nonneg(1) [of _ b "rv_cost v" "rv_cost v"] Cons.prems(2,3) b(2) True
        by (metis fle_not_NaN fle_refl)
      moreover have "fle ?total b"
        using False b(1) not_flt_iff [of b ?total] fle_not_NaN [OF Cons.prems(3)] fle_not_NaN [OF \<open>fle (Fin 0) ?total\<close>] by simp
      ultimately show ?thesis using True by (simp add: lookup_zero_update)
    next
      case False
      then show ?thesis using Cons.prems(2,3) by (simp add: lookup_zero_update)
    qed
    have "fle (lookup_zero (Fin 0) (snd (reserve_all (AList.update (rv_key v) ?total spend) vs)) k) b"
      using Cons.prems(1) next_spend by (intro Cons.IH) auto
    then show ?thesis using False by (simp add: reserve_cases Let_def case_prod_unfold)
  qed
qed simp



text \<open>The reservations a request makes.\<close>

definition shadow_reservations ::
  "(nat \<Rightarrow> string) \<Rightarrow> tenant \<Rightarrow> policy \<Rightarrow> route_decision \<Rightarrow> nat \<Rightarrow> string list \<Rightarrow> reservation list" where
  "shadow_reservations day tenant policy parent n ids =
     map (\<lambda>(k, i). \<lparr>rv_day = day k, rv_tenant = tn_ID tenant, rv_policy = policy,
            rv_cost = pr_EstimatedCostUSD (lookup_zero zero_prediction (d_Predictions parent) i)\<rparr>)
       (filter (\<lambda>(k, i). i \<noteq> d_FinalModel parent) (enumerate n ids))"

lemma shadow_loop_spend:
  "snd (shadow_loop day catalog tenant policy request parent headers n ids spend) =
     snd (reserve_all spend (shadow_reservations day tenant policy parent n ids))"
proof (induction ids arbitrary: n spend)
  case (Cons i ids)
  show ?case
  proof (cases "i = d_FinalModel parent")
    case True
    then show ?thesis using Cons.IH [of "Suc n" spend] by (simp add: shadow_reservations_def)
  next
    case False
    obtain ok spend1 where r: "reserveShadowBudget (day n) (tn_ID tenant) policy
        (pr_EstimatedCostUSD (lookup_zero zero_prediction (d_Predictions parent) i)) spend = (ok, spend1)"
      by (cases "reserveShadowBudget (day n) (tn_ID tenant) policy
        (pr_EstimatedCostUSD (lookup_zero zero_prediction (d_Predictions parent) i)) spend")
    then show ?thesis
      using False Cons.IH [of "Suc n" spend1]
      by (cases ok) (auto simp: shadow_reservations_def Let_def case_prod_unfold split: option.splits)
  qed
qed (simp add: shadow_reservations_def)

lemma launchShadows_spend:
  "snd (launchShadows day catalog tenant policy request parent headers spend) =
     snd (reserve_all spend (if d_RiskClass parent = RiskRegulated \<or> d_RiskClass parent = RiskHigh then []
       else shadow_reservations day tenant policy parent 0 (d_ShadowModels parent)))"
  by (auto simp: launchShadows_def shadow_loop_spend shadow_reservations_def)

text \<open>What a started shadow evaluation is.\<close>

lemma shadow_loop_tasks:
  "t \<in> set (fst (shadow_loop day catalog tenant policy request parent headers n ids spend)) \<Longrightarrow>
     sh_Parent t = parent \<and> sh_Request t = request \<and>
     (\<exists>i\<in>set ids. i \<noteq> d_FinalModel parent \<and> sh_Model t = lookup_zero zero_model catalog i \<and>
        map_of (tn_Providers tenant) (m_Provider (sh_Model t)) = Some (sh_Provider t))"
proof (induction ids arbitrary: n spend)
  case (Cons i ids)
  then show ?case
    by (auto simp: Let_def case_prod_unfold split: if_splits option.splits prod.splits bool.splits)
qed simp

lemma launchShadows_tasks:
  assumes "t \<in> set (fst (launchShadows day catalog tenant policy request parent headers spend))"
  shows "sh_Parent t = parent" and "d_RiskClass parent \<notin> {RiskRegulated, RiskHigh}"
    and "\<exists>i\<in>set (d_ShadowModels parent). i \<noteq> d_FinalModel parent \<and> sh_Model t = lookup_zero zero_model catalog i"
  using assms shadow_loop_tasks [of t day catalog tenant policy request parent headers 0 "d_ShadowModels parent" spend]
  by (auto simp: launchShadows_def split: if_splits)

text \<open>The budget is booked before the model's provider is looked up: a shadow candidate of a
  provider the tenant does not have is paid for and never evaluated.\<close>

theorem unconfigured_shadow_is_booked:
  assumes "map_of (tn_Providers tenant) (m_Provider (lookup_zero zero_model catalog i)) = None"
    and "i \<noteq> d_FinalModel parent"
    and "\<not> flt (p_ShadowBudgetUSDPerDay policy)
      (pr_EstimatedCostUSD (lookup_zero zero_prediction (d_Predictions parent) i))"
    and "wf64 (pr_EstimatedCostUSD (lookup_zero zero_prediction (d_Predictions parent) i))"
  shows "shadow_loop day catalog tenant policy request parent headers n [i] [] =
    ([], [(shadow_key (tn_ID tenant) policy (day n),
           pr_EstimatedCostUSD (lookup_zero zero_prediction (d_Predictions parent) i))])"
proof -
  have "fadd (Fin 0) x = x" if "wf64 x" for x
    using that fadd_0_right [of x] by (cases x) (simp_all add: add.commute)
  then show ?thesis using assms by (simp add: reserveShadowBudget_def Let_def)
qed

end
