(* ===== verification/Service.thy ===== *)
theory Service
  imports Serving
begin

text \<open>
  The running service (\<^verbatim>\<open>cmd/router/main.go\<close> over \<^verbatim>\<open>internal/api/server.go\<close>): its start on a
  configuration and the local store, and a step relation in which requests, shadow evaluations,
  outcomes, publications and restarts interleave. A chat completion is two steps, so that
  others run between its first save and its end.
\<close>

subsection \<open>Start\<close>

type_synonym policy_sorter = "(policy \<Rightarrow> policy \<Rightarrow> bool) \<Rightarrow> policy list \<Rightarrow> policy list"

text \<open>The registry holds the configured policies, then the persisted ones.\<close>

definition start_server :: "config \<Rightarrow> policy_sorter \<Rightarrow> (policy list \<Rightarrow> policy list) \<Rightarrow> file_store \<Rightarrow> file_store server" where
  "start_server cfg pdqsort visit store =
    (let persistedPolicies = LoadPolicies pdqsort visit store;
         initialPolicies = cf_Policies cfg @ persistedPolicies
     in NewServer (NewRegistry (cf_Catalog cfg) initialPolicies) NewClient_circuits store)"

record service =
  sy_Server :: "file_store server"
  sy_Jobs :: "chat_job list"
  sy_Shadows :: "shadow_task list"

definition started :: "file_store server \<Rightarrow> service" where
  "started sv = \<lparr>sy_Server = sv, sy_Jobs = [], sy_Shadows = []\<rparr>"

subsection \<open>Steps\<close>

text \<open>What the runtime supplies behaves as documented: its sorts sort, and the percentages of a
  policy are visited in some order.\<close>

inductive service_step :: "config \<Rightarrow> service \<Rightarrow> service \<Rightarrow> bool" for cfg where
  refuse: "admit (file_repository vd v) cfg r headers body (sy_Server s) = (Inl resp, sv) \<Longrightarrow>
     service_step cfg s (s\<lparr>sy_Server := sv\<rparr>)"
| admit: "pdq_sorter (rt_pdqsort (ch_runtime r)) \<Longrightarrow>
     admit (file_repository vd v) cfg r headers body (sy_Server s) = (Inr job, sv) \<Longrightarrow>
     service_step cfg s (s\<lparr>sy_Server := sv, sy_Jobs := job # sy_Jobs s\<rparr>)"
| finish: "job \<in> set (sy_Jobs s) \<Longrightarrow>
     serve (file_repository vd v) cfg r job (sy_Server s) = (resp, tasks, sv) \<Longrightarrow>
     service_step cfg s (s\<lparr>sy_Server := sv, sy_Jobs := remove1 job (sy_Jobs s), sy_Shadows := tasks @ sy_Shadows s\<rparr>)"
| shadow: "t \<in> set (sy_Shadows s) \<Longrightarrow>
     service_step cfg s (s\<lparr>sy_Server := run_shadow (file_repository vd v) q t (sy_Server s),
       sy_Shadows := remove1 t (sy_Shadows s)\<rparr>)"
| outcome: "outcomes (file_repository vd v) cfg decode occurred created nano io headers body' (sy_Server s) = (resp, sv) \<Longrightarrow>
     service_step cfg s (s\<lparr>sy_Server := sv\<rparr>)"
| publish: "percent_order ord \<Longrightarrow>
     putPolicy (file_repository vd v) cfg decode' ord now io headers body' (sy_Server s) = (resp, sv) \<Longrightarrow>
     service_step cfg s (s\<lparr>sy_Server := sv\<rparr>)"
| restart: "listing_store pdqsort visit \<Longrightarrow>
     NewFileStore (cf_DataDirectory cfg) mkdir_ok (fs_decisionLog (sv_Store (sy_Server s)))
       (fs_outcomeLog (sv_Store (sy_Server s))) (fs_policyLog (sv_Store (sy_Server s))) = Inr store \<Longrightarrow>
     service_step cfg s (started (start_server cfg pdqsort visit store))"

inductive service_reach :: "config \<Rightarrow> service \<Rightarrow> bool" for cfg where
  init: "listing_store pdqsort visit \<Longrightarrow>
     NewFileStore (cf_DataDirectory cfg) mkdir_ok Missing Missing Missing = Inr store \<Longrightarrow>
     service_reach cfg (started (start_server cfg pdqsort visit store))"
| step: "service_reach cfg s \<Longrightarrow> service_step cfg s s' \<Longrightarrow> service_reach cfg s'"

subsection \<open>The invariant\<close>

text \<open>What every decision on record satisfies: only feasible models were called and served, it belongs to
  a configured tenant, and a shadow evaluation is never one of a high-risk request.\<close>

definition lawful :: "config \<Rightarrow> route_decision \<Rightarrow> bool" where
  "lawful cfg d \<longleftrightarrow>
     set (d_AttemptedModels d) \<subseteq> set (d_FeasibleModels d) \<and>
     d_FinalModel d \<in> insert [] (set (d_FeasibleModels d)) \<and>
     d_TenantID d \<in> tn_ID ` set (cf_Tenants cfg) \<and>
     (d_Bucket d = ''shadow'' \<longrightarrow> d_RiskClass d \<notin> {RiskHigh, RiskRegulated})"

definition lawful_job :: "config \<Rightarrow> chat_job \<Rightarrow> bool" where
  "lawful_job cfg job \<longleftrightarrow> routed_job cfg job \<and> cj_Tenant job \<in> set (cf_Tenants cfg)"

definition lawful_task :: "config \<Rightarrow> shadow_task \<Rightarrow> bool" where
  "lawful_task cfg t \<longleftrightarrow> lawful cfg (sh_Parent t) \<and> d_RiskClass (sh_Parent t) \<notin> {RiskHigh, RiskRegulated} \<and>
     m_ID (sh_Model t) \<in> set (d_FeasibleModels (sh_Parent t))"

definition service_inv :: "config \<Rightarrow> service \<Rightarrow> bool" where
  "service_inv cfg s \<longleftrightarrow>
     on_disk (sv_Store (sy_Server s)) \<and>
     (\<forall>i d. map_of (fs_decisions (sv_Store (sy_Server s))) i = Some d \<longrightarrow> d_ID d = i \<and> lawful cfg d) \<and>
     rg_catalog (sv_Registry (sy_Server s)) = cf_Catalog cfg \<and>
     (\<forall>i p. map_of (rg_policies (sv_Registry (sy_Server s))) i = Some p \<longrightarrow> p_ID p = i \<and> valid_policy p (cf_Catalog cfg)) \<and>
     (\<forall>i p. map_of (fs_policies (sv_Store (sy_Server s))) i = Some p \<longrightarrow> p_ID p = i \<and> valid_policy p (cf_Catalog cfg)) \<and>
     (\<forall>job\<in>set (sy_Jobs s). lawful_job cfg job) \<and> (\<forall>t\<in>set (sy_Shadows s). lawful_task cfg t)"

lemma fold_policies_valid:
  assumes "\<And>i p. map_of m i = Some p \<Longrightarrow> p_ID p = i \<and> V p" and "\<And>p. p \<in> set ps \<Longrightarrow> V p"
  shows "map_of (foldl (\<lambda>m p. AList.update (p_ID p) p m) m ps) i = Some p \<Longrightarrow> p_ID p = i \<and> V p"
  using assms
proof (induction ps arbitrary: m i p)
  case (Cons q ps)
  show ?case
    by (rule Cons.IH [of "AList.update (p_ID q) q m"]) (use Cons.prems in \<open>auto simp: map_of_AList_update split: if_splits\<close>)
qed simp

lemma Authenticate_tenant: "Authenticate cfg raw = Some t \<Longrightarrow> t \<in> set (cf_Tenants cfg)"
proof -
  have "find_tenant token ts = Some t \<Longrightarrow> t \<in> set ts" for token ts
    by (induction token ts rule: find_tenant.induct) (auto split: if_splits)
  then show "Authenticate cfg raw = Some t \<Longrightarrow> t \<in> set (cf_Tenants cfg)" by (simp add: Authenticate_def)
qed

text \<open>What each save does to the maps of the store.\<close>

lemma SaveDecision_maps:
  "map_of (fs_decisions (snd (SaveDecision io d s))) i = (if io \<and> i = d_ID d then Some d else map_of (fs_decisions s) i)"
  "fs_policies (snd (SaveDecision io d s)) = fs_policies s"
  by (cases io; cases "fs_decisionLog s"; simp add: SaveDecision_def map_of_AList_update)+

lemma SaveOutcome_maps:
  "fs_decisions (snd (SaveOutcome io out s)) = fs_decisions s" "fs_policies (snd (SaveOutcome io out s)) = fs_policies s"
  by (cases io; cases "fs_outcomeLog s"; simp add: SaveOutcome_def)+

lemma SavePolicy_maps:
  "map_of (fs_policies (snd (SavePolicy io p s))) i = (if io \<and> i = p_ID p then Some p else map_of (fs_policies s) i)"
  "fs_decisions (snd (SavePolicy io p s)) = fs_decisions s"
  by (cases io; cases "fs_policyLog s"; simp add: SavePolicy_def map_of_AList_update)+

lemmas store_maps = SaveDecision_maps SaveOutcome_maps SavePolicy_maps

lemma start_server_parts:
  "sv_Store (start_server cfg pdqsort visit store) = store"
  "rg_catalog (sv_Registry (start_server cfg pdqsort visit store)) = cf_Catalog cfg"
  "rg_policies (sv_Registry (start_server cfg pdqsort visit store)) =
     foldl (\<lambda>m p. AList.update (p_ID p) p m) [] (cf_Policies cfg @ LoadPolicies pdqsort visit store)"
  by (simp_all add: start_server_def NewServer_def NewRegistry_def Let_def)

lemma start_inv:
  assumes "valid_config cfg" and "listing_store pdqsort visit" and "on_disk store"
    and "\<And>i d. map_of (fs_decisions store) i = Some d \<Longrightarrow> d_ID d = i \<and> lawful cfg d"
    and "\<And>i p. map_of (fs_policies store) i = Some p \<Longrightarrow> p_ID p = i \<and> valid_policy p (cf_Catalog cfg)"
  shows "service_inv cfg (started (start_server cfg pdqsort visit store))"
proof -
  have "set (LoadPolicies pdqsort visit store) = snd ` set (fs_policies store)"
    using listing_store.mset_LoadPolicies [OF assms(2), of store] by (metis set_map set_mset_mset)
  then have "valid_policy p (cf_Catalog cfg)" if "p \<in> set (LoadPolicies pdqsort visit store)" for p
    using that assms(5) on_disk_policies [OF assms(3)]
    by (auto simp: policies_ok_def wf_gomap_in_set)
  moreover have "valid_policy p (cf_Catalog cfg)" if "p \<in> set (cf_Policies cfg)" for p
    using that assms(1) by (simp add: valid_config_def)
  ultimately have "valid_policy p (cf_Catalog cfg)" if "p \<in> set (cf_Policies cfg @ LoadPolicies pdqsort visit store)" for p
    using that by auto
  then have registry: "p_ID p = i \<and> valid_policy p (cf_Catalog cfg)"
    if "map_of (foldl (\<lambda>m p. AList.update (p_ID p) p m) [] (cf_Policies cfg @ LoadPolicies pdqsort visit store)) i = Some p"
    for i p
    using fold_policies_valid [OF _ _ that, of "\<lambda>p. valid_policy p (cf_Catalog cfg)"] by simp
  show ?thesis
    unfolding service_inv_def started_def service.simps start_server_parts
    by (intro conjI allI impI ballI; (rule assms refl)?; (drule assms registry)?; simp)
qed

subsection \<open>Every step keeps the invariant\<close>

lemma valid_config_catalog: "valid_config cfg \<Longrightarrow> wf_catalog (cf_Catalog cfg)"
  by (auto simp: valid_config_def wf_catalog_def dest!: map_of_SomeD)

lemma invD:
  assumes "service_inv cfg s"
  shows "on_disk (sv_Store (sy_Server s))"
    and "map_of (fs_decisions (sv_Store (sy_Server s))) i = Some d \<Longrightarrow> d_ID d = i \<and> lawful cfg d"
    and "rg_catalog (sv_Registry (sy_Server s)) = cf_Catalog cfg"
    and "map_of (rg_policies (sv_Registry (sy_Server s))) i = Some p \<Longrightarrow> p_ID p = i \<and> valid_policy p (cf_Catalog cfg)"
    and "map_of (fs_policies (sv_Store (sy_Server s))) i = Some p \<Longrightarrow> p_ID p = i \<and> valid_policy p (cf_Catalog cfg)"
    and "job \<in> set (sy_Jobs s) \<Longrightarrow> lawful_job cfg job" and "t \<in> set (sy_Shadows s) \<Longrightarrow> lawful_task cfg t"
  using assms by (simp_all add: service_inv_def)

text \<open>A step that saves one lawful decision and leaves the registry alone.\<close>

lemma inv_save_decision:
  assumes "service_inv cfg s" and "lawful cfg d" and "sv_Registry sv = sv_Registry (sy_Server s)"
    and "sv_Store sv = snd (SaveDecision io d (sv_Store (sy_Server s)))"
    and "\<And>job. job \<in> set jobs \<Longrightarrow> lawful_job cfg job" and "\<And>t. t \<in> set tasks \<Longrightarrow> lawful_task cfg t"
  shows "service_inv cfg \<lparr>sy_Server = sv, sy_Jobs = jobs, sy_Shadows = tasks\<rparr>"
  using assms(2-) invD [OF assms(1)] on_disk_saves(1) [OF invD(1) [OF assms(1)], of io d]
  by (auto simp: service_inv_def store_maps split: if_splits)

lemma inv_same_store:
  assumes "service_inv cfg s" and "sv_Registry sv = sv_Registry (sy_Server s)" and "sv_Store sv = sv_Store (sy_Server s)"
  shows "service_inv cfg (s\<lparr>sy_Server := sv\<rparr>)"
  using assms by (simp add: service_inv_def)

lemma routed_lawful:
  assumes "Route e rt (tn_ID tenant) policy request = Some d" and "tenant \<in> set (cf_Tenants cfg)"
  shows "lawful cfg d"
  using assms Route_frame [OF assms(1)] by (simp add: lawful_def)

lemma lawful_kept:
  assumes "lawful cfg d" and "kept d' = kept d" and "set (d_AttemptedModels d') \<subseteq> set (d_FeasibleModels d)"
    and "d_FinalModel d' \<in> insert [] (set (d_FeasibleModels d))"
  shows "lawful cfg d'"
  using assms by (simp add: lawful_def kept_def)

lemma lawful_job_decision:
  assumes "lawful_job cfg job"
  shows "lawful cfg (cj_Decision job)" and "set (d_ShadowModels (cj_Decision job)) \<subseteq> set (d_FeasibleModels (cj_Decision job))"
    and "set (d_FeasibleModels (cj_Decision job)) \<subseteq> fst ` set (cf_Catalog cfg)" and "d_FinalModel (cj_Decision job) = []"
proof -
  obtain now cs rt where
    r: "Route (chat_engine cfg now cs) rt (tn_ID (cj_Tenant job)) (cj_Policy job) (cj_Request job) = Some (cj_Decision job)"
    using assms by (auto simp: lawful_job_def routed_job_def)
  show "lawful cfg (cj_Decision job)" using r assms by (auto simp: lawful_job_def intro: routed_lawful)
  show "set (d_ShadowModels (cj_Decision job)) \<subseteq> set (d_FeasibleModels (cj_Decision job))"
    using r by (rule Route_shadows_feasible)
  show "set (d_FeasibleModels (cj_Decision job)) \<subseteq> fst ` set (cf_Catalog cfg)"
    by (auto simp: Route_feasible_eq [OF r] is_feasible_def chat_engine_def wf_gomap_keys)
  show "d_FinalModel (cj_Decision job) = []" using r by (rule Route_frame)
qed

lemma forward_lawful:
  assumes "lawful_job cfg job" and "wf_catalog (cf_Catalog cfg)"
  shows "lawful cfg (fw_Decision (forward cfg r job cs spend))"
proof -
  have "routed_job cfg job" using assms(1) by (simp add: lawful_job_def)
  note f = attempted_feasible [OF this assms(2), of "ch_upstream r" cs]
  show ?thesis
    by (rule lawful_kept [OF lawful_job_decision(1) [OF assms(1)]])
      (use f lawful_job_decision(4) [OF assms(1)] in \<open>auto simp: forward_frame split: option.splits\<close>)
qed

lemma forward_tasks:
  assumes "lawful_job cfg job" and "wf_catalog (cf_Catalog cfg)" and "t \<in> set (fw_Shadows (forward cfg r job cs spend))"
  shows "lawful_task cfg t"
proof -
  let ?a = "chat_attempts cfg (ch_upstream r) job cs"
  have job: "routed_job cfg job" using assms(1) by (simp add: lawful_job_def)
  obtain m up where resp: "at_Response ?a = Some (m, up)"
    using assms(3) by (cases "at_Response ?a") (auto simp: forward_def Let_def)
  define parent where "parent = served_decision r m up ((cj_Decision job)\<lparr>d_AttemptedModels := at_Attempted ?a\<rparr>)"
  have t: "t \<in> set (fst (launchShadows (ch_day r) (cf_Catalog cfg) (cj_Tenant job) (cj_Policy job)
      (cj_Request job) parent (cj_Headers job) spend))"
    using assms(3) resp by (simp add: forward_def Let_def case_prod_unfold parent_def)
  have p: "kept parent = kept (cj_Decision job)" "d_AttemptedModels parent = at_Attempted ?a" "d_FinalModel parent = m_ID m"
    by (simp_all add: parent_def served_decision_def Let_def kept_def)
  have shadows: "d_ShadowModels parent = d_ShadowModels (cj_Decision job)"
    "d_FeasibleModels parent = d_FeasibleModels (cj_Decision job)"
    using p(1) by (simp_all add: kept_def)
  obtain i where i: "i \<in> set (d_ShadowModels parent)" "sh_Model t = lookup_zero zero_model (cf_Catalog cfg) i"
    using launchShadows_tasks(3) [OF t] by blast
  then have "i \<in> set (d_FeasibleModels parent)" using lawful_job_decision(2) [OF assms(1)] by (auto simp: shadows)
  moreover have "m_ID (sh_Model t) = i"
  proof -
    have "i \<in> fst ` set (cf_Catalog cfg)"
      using \<open>i \<in> set (d_FeasibleModels parent)\<close> lawful_job_decision(3) [OF assms(1)] by (auto simp: shadows)
    then obtain m' where "map_of (cf_Catalog cfg) i = Some m'" by (auto simp: wf_gomap_keys)
    then show ?thesis using i(2) assms(2) by (simp add: wf_catalog_def)
  qed
  moreover have "lawful cfg parent"
    by (rule lawful_kept [OF lawful_job_decision(1) [OF assms(1)] p(1)])
      (use attempted_feasible [OF job assms(2)] resp in \<open>auto simp: p\<close>)
  ultimately show ?thesis
    using launchShadows_tasks(1,2) [OF t] by (auto simp: lawful_task_def)
qed

lemma shadow_lawful:
  assumes "lawful_task cfg t"
  shows "\<exists>d cs. lawful cfg d \<and> run_shadow (file_repository vd v) q t sv =
     sv\<lparr>sv_Circuits := cs, sv_Store := snd (SaveDecision (sr_io q) d (sv_Store sv))\<rparr>"
proof -
  let ?i = "initial_shadow q t"
  have base: "lawful cfg (?i\<lparr>d_FinalModel := f, d_Error := e, d_CompletedAt := c, d_ProviderLatencyMS := l,
      d_UpstreamStatus := u, d_InputTokens := x, d_OutputTokens := y, d_ActualCostUSD := z\<rparr>)"
    if "f \<in> {[], m_ID (sh_Model t)}" for f e c l u x y z
    using assms that by (auto simp: lawful_task_def lawful_def initial_shadow_def)
  have start: "lawful cfg (?i\<lparr>d_Error := e, d_CompletedAt := c\<rparr>)" for e c
    using assms by (auto simp: lawful_task_def lawful_def initial_shadow_def)
  have finished: "lawful cfg ((finish_shadow t answer (?i\<lparr>d_ProviderLatencyMS := l\<rparr>))\<lparr>d_CompletedAt := c\<rparr>)" for answer l c
    using assms
    by (auto simp: finish_shadow_def lawful_task_def lawful_def initial_shadow_def Let_def split: sum.splits prod.splits)
  show ?thesis
  proof (cases "BodyForModel (sh_Request t) (m_UpstreamModel (sh_Model t)) (Some False)")
    case None
    then show ?thesis
      using start by (intro exI [of _ "?i\<lparr>d_Error := ''unable to encode shadow request'', d_CompletedAt := Some (sr_completed q)\<rparr>"]
          exI [of _ "sv_Circuits sv"]) (simp add: run_shadow_def Let_def)
  next
    case (Some body)
    show ?thesis
      unfolding run_shadow_def Some Let_def option.case case_prod_unfold file_repository_simps
      using finished by blast
  qed
qed

lemma outcomes_parts:
  assumes "outcomes (file_repository vd v) cfg decode occurred created nano io headers body sv = (resp, sv')"
  shows "sv_Registry sv' = sv_Registry sv"
    and "\<exists>b out. sv_Store sv' = snd (SaveOutcome b out (sv_Store sv)) \<or> sv_Store sv' = sv_Store sv"
  using assms unfolding outcomes_def Let_def
  by (auto split: option.splits if_splits prod.splits bool.splits intro: prod_eqI) (metis snd_conv)+

lemma putPolicy_parts:
  assumes "putPolicy (file_repository vd v) cfg decode ord now io headers body sv = (resp, sv')"
  shows "sv' = sv \<or> (\<exists>p e r s. Registry_Put ord (Some (SavePolicy io)) p (sv_Registry sv, sv_Store sv) = (e, r, s) \<and>
      sv' = sv\<lparr>sv_Registry := r, sv_Store := s\<rparr>)"
  using assms unfolding putPolicy_def Let_def
  by (auto split: option.splits if_splits prod.splits)

lemma inv_publish:
  assumes inv: "service_inv cfg s" and "percent_order ord"
    and put: "Registry_Put ord (Some (SavePolicy io)) p (sv_Registry (sy_Server s), sv_Store (sy_Server s)) = (e, r, st)"
  shows "service_inv cfg (s\<lparr>sy_Server := (sy_Server s)\<lparr>sv_Registry := r, sv_Store := st\<rparr>\<rparr>)"
proof (cases rule: Registry_Put_cases [of ord "Some (SavePolicy io)" p "sv_Registry (sy_Server s)" "sv_Store (sy_Server s)"])
  case (rejected e')
  with put show ?thesis by (intro inv_same_store [OF inv]) simp_all
next
  case (failed s')
  then have "s' = sv_Store (sy_Server s)" by (auto simp: SavePolicy_cases split: if_splits)
  with failed(1) put show ?thesis by (intro inv_same_store [OF inv]) simp_all
next
  case (saved s')
  have valid: "valid_policy p (cf_Catalog cfg)"
    using saved(2) policy_Validate_None [OF assms(2)] by (simp add: invD(3) [OF inv])
  have r: "r = (sv_Registry (sy_Server s))\<lparr>rg_policies := AList.update (p_ID p) p (rg_policies (sv_Registry (sy_Server s)))\<rparr>"
    and st: "st = snd (SavePolicy io p (sv_Store (sy_Server s)))"
    using saved(1,4) put by auto
  have ok: "on_disk st" unfolding st by (rule on_disk_saves(3) [OF invD(1) [OF inv]])
  have pol: "\<forall>i q. map_of (rg_policies r) i = Some q \<longrightarrow> p_ID q = i \<and> valid_policy q (cf_Catalog cfg)"
    using valid invD(4) [OF inv] by (auto simp: r map_of_AList_update)
  have spol: "\<forall>i q. map_of (fs_policies st) i = Some q \<longrightarrow> p_ID q = i \<and> valid_policy q (cf_Catalog cfg)"
    using valid invD(5) [OF inv] by (auto simp: st store_maps)
  have dec: "\<forall>i d. map_of (fs_decisions st) i = Some d \<longrightarrow> d_ID d = i \<and> lawful cfg d"
    using invD(2) [OF inv] by (auto simp: st store_maps)
  have cat: "rg_catalog r = cf_Catalog cfg" using invD(3) [OF inv] by (simp add: r)
  have jobs: "\<forall>job\<in>set (sy_Jobs s). lawful_job cfg job" and tasks: "\<forall>t\<in>set (sy_Shadows s). lawful_task cfg t"
    using invD(6,7) [OF inv] by blast+
  define sv where "sv = (sy_Server s)\<lparr>sv_Registry := r, sv_Store := st\<rparr>"
  have parts: "sv_Registry sv = r" "sv_Store sv = st" by (simp_all add: sv_def)
  have "service_inv cfg \<lparr>sy_Server = sv, sy_Jobs = sy_Jobs s, sy_Shadows = sy_Shadows s\<rparr>"
    unfolding service_inv_def service.simps parts
    by (intro conjI) (rule ok dec cat pol spol jobs tasks)+
  then show ?thesis unfolding sv_def [symmetric] by (simp add: service_inv_def)
qed

lemma inv_step:
  assumes "valid_config cfg" and inv: "service_inv cfg s" and "service_step cfg s s'"
  shows "service_inv cfg s'"
  using assms(3)
proof cases
  case (refuse vd v r headers body resp sv)
  have "sv_Store sv = sv_Store (sy_Server s)"
    using admit_Inl(1) [OF refuse(2)] SaveDecision_failed by (auto, metis fst_conv snd_conv)
  then show ?thesis
    unfolding refuse(1) by (intro inv_same_store [OF inv] admit_Inl(2) [OF refuse(2)])
next
  case (admit r vd v headers body job sv)
  have tenant: "cj_Tenant job \<in> set (cf_Tenants cfg)" by (rule Authenticate_tenant [OF admit_Inr(1) [OF admit(3)]])
  have job: "lawful_job cfg job"
    using admit_Inr(4) [OF admit(3)] admit(2) tenant unfolding lawful_job_def routed_job_def by blast
  have "SaveDecision (ch_initial_io r) (cj_Decision job) (sv_Store (sy_Server s)) = (True, sv_Store sv)"
    using admit_Inr(5) [OF admit(3)] by simp
  then have st: "sv_Store sv = snd (SaveDecision (ch_initial_io r) (cj_Decision job) (sv_Store (sy_Server s)))"
    by simp
  have "service_inv cfg \<lparr>sy_Server = sv, sy_Jobs = job # sy_Jobs s, sy_Shadows = sy_Shadows s\<rparr>"
    by (rule inv_save_decision [OF inv lawful_job_decision(1) [OF job] admit_Inr(6) [OF admit(3)] st])
      (use job invD(6,7) [OF inv] in auto)
  then show ?thesis unfolding admit(1) by (simp add: service_inv_def)
next
  case (finish job vd v r resp tasks sv)
  let ?f = "forward cfg r job (sv_Circuits (sy_Server s)) (sv_ShadowSpend (sy_Server s))"
  have job: "lawful_job cfg job" by (rule invD(6) [OF inv finish(2)])
  note cat = valid_config_catalog [OF assms(1)]
  have parts: "tasks = fw_Shadows ?f" "sv_Registry sv = sv_Registry (sy_Server s)"
    "sv_Store sv = snd (SaveDecision (ch_final_io r) (fw_Decision ?f) (sv_Store (sy_Server s)))"
    using finish(3) by (auto simp: serve_parts)
  have "service_inv cfg \<lparr>sy_Server = sv, sy_Jobs = remove1 job (sy_Jobs s), sy_Shadows = tasks @ sy_Shadows s\<rparr>"
    by (rule inv_save_decision [OF inv forward_lawful [OF job cat] parts(2,3)])
      (use invD(6,7) [OF inv] forward_tasks [OF job cat] in \<open>auto simp: parts(1) dest: notin_set_remove1\<close>)
  then show ?thesis unfolding finish(1) by (simp add: service_inv_def)
next
  case (shadow t vd v q)
  obtain d cs where d: "lawful cfg d" "run_shadow (file_repository vd v) q t (sy_Server s) =
     (sy_Server s)\<lparr>sv_Circuits := cs, sv_Store := snd (SaveDecision (sr_io q) d (sv_Store (sy_Server s)))\<rparr>"
    using shadow_lawful [OF invD(7) [OF inv shadow(2)]] by blast
  have "service_inv cfg \<lparr>sy_Server = run_shadow (file_repository vd v) q t (sy_Server s), sy_Jobs = sy_Jobs s,
      sy_Shadows = remove1 t (sy_Shadows s)\<rparr>"
    by (rule inv_save_decision [OF inv d(1)]) (use d(2) invD(6,7) [OF inv] in \<open>auto dest: notin_set_remove1\<close>)
  then show ?thesis unfolding shadow(1) by (simp add: service_inv_def)
next
  case (outcome vd v decode occurred created nano io headers body' resp sv)
  obtain b out where st: "sv_Store sv = snd (SaveOutcome b out (sv_Store (sy_Server s))) \<or> sv_Store sv = sv_Store (sy_Server s)"
    using outcomes_parts(2) [OF outcome(2)] by blast
  have "fs_decisions (sv_Store sv) = fs_decisions (sv_Store (sy_Server s))"
    "fs_policies (sv_Store sv) = fs_policies (sv_Store (sy_Server s))" "on_disk (sv_Store sv)"
    using st on_disk_saves(2) [OF invD(1) [OF inv]] invD(1) [OF inv] by (auto simp: store_maps)
  then show ?thesis
    unfolding outcome(1) using inv outcomes_parts(1) [OF outcome(2)] by (simp add: service_inv_def)
next
  case (publish ord vd v decode' now io headers body' resp sv)
  show ?thesis
    using putPolicy_parts [OF publish(3)] inv inv_publish [OF inv publish(2)] unfolding publish(1) by auto
next
  case (restart pdqsort visit mkdir_ok store)
  have "on_disk store" "on_disk (sv_Store (sy_Server s))"
    "fs_decisionLog store = fs_decisionLog (sv_Store (sy_Server s))"
    "fs_policyLog store = fs_policyLog (sv_Store (sy_Server s))"
    using restart(3) invD(1) [OF inv] by (simp_all add: NewFileStore_Inr)
  then have same: "fs_decisions store = fs_decisions (sv_Store (sy_Server s))"
    "fs_policies store = fs_policies (sv_Store (sy_Server s))" and "on_disk store"
    by (simp_all add: on_disk_def)
  show ?thesis
    unfolding restart(1)
    by (rule start_inv [OF assms(1) restart(2) \<open>on_disk store\<close>]; (drule invD(2,5) [OF inv])?) (simp_all add: same invD(2,5) [OF inv])
qed

subsection \<open>A sample service\<close>

text \<open>A service that has admitted one request.\<close>

definition service_config :: config where
  "service_config = load_defaults sample_getenv sample_config"

definition sample_upstream_env :: upstream_env where
  "sample_upstream_env = \<lparr>un_url_ok = (\<lambda>_. True), un_clock = (\<lambda>_. (0, 0)), un_send = (\<lambda>_ _. None)\<rparr>"

definition sample_chat :: chat_run where
  "sample_chat = \<lparr>ch_now = 0, ch_runtime = sample_runtime, ch_initial_io = True, ch_final_io = True, ch_copy_ok = True,
     ch_upstream = sample_upstream_env, ch_header_latency_ms = 0, ch_latency_ms = 0, ch_completed = 1,
     ch_day = (\<lambda>_. ''2025-06-01'')\<rparr>"

definition sample_headers :: header where
  "sample_headers = [(''Authorization'', ''Bearer key'')]"

definition initial_service :: service where
  "initial_service = started (start_server service_config insertionSort rev empty_files)"

lemma service_config_valid: "valid_config service_config"
  unfolding service_config_def by (rule sample_config_valid)

lemma service_config_parts:
  "cf_Catalog service_config = sample_catalog" "cf_Policies service_config = [sample_policy]"
  "cf_DataDirectory service_config = ''./data''"
  "cf_Tenants service_config = [load_tenant sample_getenv sample_tenant, load_tenant sample_getenv (sample_tenant\<lparr>tn_ID := ''second''\<rparr>)]"
  by (simp_all add: service_config_def load_defaults_def sample_config_def Let_def)

lemma initial_service_reach: "service_reach service_config initial_service"
  unfolding initial_service_def
  by (rule service_reach.init [where mkdir_ok = True])
    (simp_all add: insertion_store.listing_store_axioms NewFileStore_def service_config_parts empty_files_def)

lemma no_key: "Authenticate service_config [] = None \<and> \<not> AuthenticateAdmin service_config []"
  by (simp add: service_config_def) code_simp

lemma sample_authenticated:
  "Authenticate service_config (Header_Get sample_headers ''Authorization'') = Some (load_tenant sample_getenv sample_tenant)"
proof -
  have "canonical_key ''Authorization'' = ''Authorization'' \<and> bearer_token ''Bearer key'' = ''key''" by code_simp
  then show ?thesis
    by (simp add: Authenticate_def Header_Get_def sample_headers_def service_config_parts load_tenant_def sample_tenant_def Let_def)
qed

lemma sample_policy_found:
  "Registry_Get (sv_Registry (sy_Server initial_service)) ''policy'' ''tenant'' = Some sample_policy"
  by (simp add: initial_service_def started_def Registry_Get_def start_server_parts service_config_parts empty_files_def
      LoadPolicies_def sort_Slice_def insertionSort_def) (simp add: sample_policy_def)

lemma sample_admitted:
  obtains job sv d where "admit (file_repository rev rev) service_config sample_chat sample_headers (Some sample_body)
      (sy_Server initial_service) = (Inr job, sv)" and "GetDecision (sv_Store sv) ''tenant'' ''dec_01'' = Some d"
proof -
  let ?sv = "sy_Server initial_service"
  have sorter: "pdq_sorter (rt_pdqsort (ch_runtime sample_chat))"
    using sample_runtime_sorter by (simp add: sample_chat_def)
  have len: "length (p_CandidateModels sample_policy) \<le> 2 ^ 53" by (simp add: sample_policy_def)
  obtain rq where rq: "ParseRequest sample_body = Inr rq" "md_PolicyID (rq_Metadata rq) = []"
    using sample_parse by (simp add: metadata_defaults_def zero_metadata_def Let_def)
  have whole: "take 33554433 sample_body = sample_body" by (simp add: sample_body_def)
  obtain d where d: "Route (chat_engine service_config (ch_now sample_chat) (sv_Circuits ?sv)) (ch_runtime sample_chat)
      ''tenant'' sample_policy rq = Some d"
    using Route_defined [OF sorter len] by blast
  have io: "ch_initial_io sample_chat" by (simp add: sample_chat_def)
  have t: "tn_ID (load_tenant sample_getenv sample_tenant) = ''tenant''"
    "tn_DefaultPolicyID (load_tenant sample_getenv sample_tenant) = ''policy''"
    by (simp_all add: load_tenant_def sample_tenant_def Let_def)
  have id: "d_ID d = ''dec_01''" "d_TenantID d = ''tenant''"
    using Route_frame [OF d] by (simp_all add: sample_chat_def sample_runtime_def)
  obtain s where s: "SaveDecision True d (sv_Store ?sv) = (True, s)" by (metis fst_SaveDecision prod.collapse)
  then have "GetDecision s ''tenant'' ''dec_01'' = Some d"
    using file_ledger.saved [of True d "sv_Store ?sv" "''tenant''" "''dec_01''"] by (simp add: id)
  then show thesis
    by (intro that [of "\<lparr>cj_Tenant = load_tenant sample_getenv sample_tenant, cj_Policy = sample_policy, cj_Request = rq,
          cj_Headers = sample_headers, cj_Decision = d\<rparr>"
        "?sv\<lparr>sv_Circuits := health_checked service_config (ch_now sample_chat) sample_policy (sv_Circuits ?sv), sv_Store := s\<rparr>" d])
      (simp_all add: admit_def sample_authenticated whole rq t sample_policy_found d io s del: One_nat_def)
qed

lemma sample_job:
  obtains job sv where "admit (file_repository rev rev) service_config sample_chat sample_headers (Some sample_body)
      (sy_Server initial_service) = (Inr job, sv)" and "routed_job service_config job"
proof -
  obtain job sv where a: "admit (file_repository rev rev) service_config sample_chat sample_headers (Some sample_body)
      (sy_Server initial_service) = (Inr job, sv)"
    by (rule sample_admitted)
  have "pdq_sorter (rt_pdqsort (ch_runtime sample_chat))" using sample_runtime_sorter by (simp add: sample_chat_def)
  then have "routed_job service_config job" using admit_Inr(4) [OF a] unfolding routed_job_def by blast
  with a show thesis by (rule that)
qed


theorem served_request_on_record_witness:
  "\<exists>resp tasks sv d. chatCompletions (file_repository rev rev) service_config sample_chat sample_headers (Some sample_body)
      (sy_Server initial_service) = (resp, tasks, sv) \<and>
     Header_Get (re_Header resp) ''X-Outcome-Decision-ID'' = d_ID d \<and> GetDecision (sv_Store sv) ''tenant'' (d_ID d) = Some d"
proof -
  obtain job sv1 where a: "admit (file_repository rev rev) service_config sample_chat sample_headers (Some sample_body)
      (sy_Server initial_service) = (Inr job, sv1)"
    using sample_job by blast
  obtain resp tasks sv2 where c: "chatCompletions (file_repository rev rev) service_config sample_chat sample_headers
      (Some sample_body) (sy_Server initial_service) = (resp, tasks, sv2)"
    using prod_cases3 by blast
  have "cj_Tenant job = load_tenant sample_getenv sample_tenant" using admit_Inr(1) [OF a] sample_authenticated by simp
  then have "tn_ID (cj_Tenant job) = ''tenant''" by (simp add: load_tenant_def sample_tenant_def Let_def)
  with served_request_on_record [OF a c, of "''tenant''"] c show ?thesis by auto
qed

subsection \<open>What holds in every reachable state\<close>

lemma reach_inv: "service_reach cfg s \<Longrightarrow> valid_config cfg \<Longrightarrow> service_inv cfg s"
proof (induction rule: service_reach.induct)
  case (init pdqsort visit mkdir_ok store)
  then have "fs_decisions store = []" "fs_policies store = []" "on_disk store"
    by (auto simp: NewFileStore_def split: if_splits) (auto simp: on_disk_def)
  with init show ?case by (intro start_inv) simp_all
next
  case (step s s')
  then show ?case using inv_step by blast
qed


lemma sample_reach:
  obtains s d where "service_reach service_config s" and "GetDecision (sv_Store (sy_Server s)) ''tenant'' ''dec_01'' = Some d"
proof -
  obtain job sv d where a: "admit (file_repository rev rev) service_config sample_chat sample_headers (Some sample_body)
      (sy_Server initial_service) = (Inr job, sv)" "GetDecision (sv_Store sv) ''tenant'' ''dec_01'' = Some d"
    by (rule sample_admitted)
  have sorter: "pdq_sorter (rt_pdqsort (ch_runtime sample_chat))" using sample_runtime_sorter by (simp add: sample_chat_def)
  define s where "s = initial_service\<lparr>sy_Server := sv, sy_Jobs := job # sy_Jobs initial_service\<rparr>"
  have "sy_Server s = sv" by (simp add: s_def)
  moreover have "service_reach service_config s"
    unfolding s_def by (rule service_reach.step [OF initial_service_reach service_step.admit [OF sorter a(1)]])
  ultimately show thesis using that [of s d] a(2) by simp
qed


text \<open>C20: Every policy the running service routes by is valid for the catalog, although persisted policies are not
  checked again at start: as long as the configuration stays, only valid ones were persisted.\<close>

theorem served_policies_valid:
  assumes "valid_config cfg" and "service_reach cfg s" and "Registry_Get (sv_Registry (sy_Server s)) i t = Some p"
  shows "p_ID p = i \<and> p_TenantID p = t \<and> valid_policy p (cf_Catalog cfg)"
proof -
  have "map_of (rg_policies (sv_Registry (sy_Server s))) i = Some p" "p_TenantID p = t"
    using assms(3) by (auto simp: Registry_Get_def split: option.splits if_splits)
  then show ?thesis using invD(4) [OF reach_inv [OF assms(2,1)]] by blast
qed

theorem served_policies_valid_witness: "valid_policy sample_policy (cf_Catalog service_config)"
  using served_policies_valid [OF service_config_valid initial_service_reach sample_policy_found] by blast



end
