(* ===== verification/Forwarding.thy ===== *)
theory Forwarding
  imports Service JsonCompact
begin

text \<open>
  What a provider reads from the body it is sent: \<^verbatim>\<open>BodyForModel\<close> never fails on a request that parsed,
  and every field arrives with the value the client gave it, except the model, the stream flag of a
  shadow and the routing metadata.
\<close>

subsection \<open>The fields of a parsed request\<close>

lemma fold_raw_origin:
  "map_of (foldl (\<lambda>m (k, raw, _). AList.update k raw m) m0 ms) i = Some raw \<Longrightarrow>
     map_of m0 i = Some raw \<or> (\<exists>v. (i, raw, v) \<in> set ms)"
proof (induction ms arbitrary: m0)
  case (Cons a ms)
  obtain k t v where a: "a = (k, t, v)" by (cases a)
  show ?case using Cons.IH [of "AList.update k t m0"] Cons.prems by (auto simp: a gomap_simps split: if_splits)
qed simp

lemma fold_raw_wf: "wf_gomap m0 \<Longrightarrow> wf_gomap (foldl (\<lambda>m (k, raw, _). AList.update k raw m) m0 ms)"
  by (induction ms arbitrary: m0) auto

text \<open>A field as it may be written again: its name is valid UTF-8 and its text is one of a value.\<close>

definition sendable :: "string \<times> string \<Rightarrow> bool" where
  "sendable f \<longleftrightarrow> to_valid (fst f) = fst f \<and> (\<exists>v. reads (max_nesting - 1) (snd f) v)"

lemma raw_fields:
  assumes "Option.bind (first_value body) into_raw_map = Some raw"
  shows "wf_gomap raw" and "f \<in> set raw \<Longrightarrow> sendable f"
proof -
  obtain v where v: "first_value body = Some v" "into_raw_map v = Some raw" using assms by (auto simp: bind_eq_Some_conv)
  have "wf_gomap raw \<and> (f \<in> set raw \<longrightarrow> sendable f)" for f
  proof (cases v)
    case (VObj ms)
    then have raw: "raw = foldl (\<lambda>m (k, raw, _). AList.update k raw m) [] ms" using v(2) by (simp add: into_raw_map_def)
    then have wf: "wf_gomap raw" by (simp add: fold_raw_wf)
    have "sendable (k, t)" if "(k, t) \<in> set raw" for k t
    proof -
      have "map_of raw k = Some t" using that wf by (simp add: wf_gomap_in_set)
      then obtain w where w: "(k, t, w) \<in> set ms" using fold_raw_origin [of "[]" ms k t] by (auto simp: raw)
      show ?thesis
        using first_value_reads [OF v(1) [unfolded VObj] w] first_value_valid [OF v(1) [unfolded VObj] w]
        by (auto simp: sendable_def)
    qed
    then show ?thesis using wf by (cases f) auto
  qed (use v(2) in \<open>auto simp: into_raw_map_def\<close>)
  then show "wf_gomap raw" and "f \<in> set raw \<Longrightarrow> sendable f" by blast+
qed

lemma parsed_fields:
  assumes "ParseRequest body = Inr r"
  obtains raw where "Option.bind (first_value body) into_raw_map = Some raw" and "wf_gomap (rq_Raw r)"
    and "\<And>f. f \<in> set (rq_Raw r) \<Longrightarrow> sendable f"
    and "\<And>k. map_of (rq_Raw r) k = (if k = ''routing'' then None else map_of raw k)"
  using assms
proof (rule ParseRequest_Inr)
  fix raw msgs messages md raw'
  assume p: "Option.bind (first_value body) into_raw_map = Some raw" "rq_Raw r = raw'"
    and md: "(md, raw') = (zero_metadata, raw) \<and> map_of raw ''routing'' = None \<or>
      (\<exists>t. map_of raw ''routing'' = Some t \<and> Option.bind (json_value t) (into_metadata zero_metadata) = Some md \<and>
         raw' = AList.delete ''routing'' raw)"
  have keys: "map_of raw' k = (if k = ''routing'' then None else map_of raw k)" for k
    using md by (auto simp: gomap_simps)
  have wf: "wf_gomap raw'" using md raw_fields(1) [OF p(1)] by auto
  have "sendable (k, t)" if "(k, t) \<in> set raw'" for k t
  proof -
    have "map_of raw k = Some t" using that keys [of k] wf by (simp add: wf_gomap_in_set split: if_splits)
    then show ?thesis using raw_fields(2) [OF p(1)] map_of_SomeD by fastforce
  qed
  then have "sendable f" if "f \<in> set raw'" for f using that by (cases f) simp
  then show thesis using that p wf keys by simp
qed

subsection \<open>The body\<close>

lemma reads_json_string: "reads d (json_string x) (VStr (to_valid x))"
  using parse_json_string [of _ True x "[]"] by (simp add: reads_def json_text_def is_ws_def)

lemma reads_json_bool: "reads d (json_bool b) (VBool b)"
proof -
  have "parse_value d' (json_bool b) = Some (VBool b, [])" for d'
    using parse_literal_cut(1) [of "json_bool b" "json_bool b" d'] by (cases b) (simp_all add: json_bool_def)
  then show ?thesis by (simp add: reads_def json_bool_def is_ws_def)
qed

lemma map_of_body_fields:
  "map_of (body_fields r m stream) k =
    (if k = ''stream'' \<and> stream \<noteq> None then Some (json_bool (the stream))
     else if k = ''model'' then Some (json_string m) else map_of (rq_Raw r) k)"
  by (simp add: body_fields_def Let_def gomap_simps split: option.split)

lemma body_fields_sendable:
  assumes "wf_gomap (rq_Raw r)" and "\<And>f. f \<in> set (rq_Raw r) \<Longrightarrow> sendable f"
  shows "wf_gomap (body_fields r m stream)" and "f \<in> set (body_fields r m stream) \<Longrightarrow> sendable f"
proof -
  show wf: "wf_gomap (body_fields r m stream)"
    using assms(1) by (auto simp: body_fields_def Let_def split: option.split)
  have names: "to_valid ''model'' = ''model''" "to_valid ''stream'' = ''stream''" by (simp_all add: to_valid_ascii byte_def)
  obtain k t where f: "f = (k, t)" by (cases f)
  assume "f \<in> set (body_fields r m stream)"
  then have "map_of (body_fields r m stream) k = Some t" using wf by (simp add: wf_gomap_in_set f)
  then have "k = ''stream'' \<and> (\<exists>b. t = json_bool b) \<or> k = ''model'' \<and> t = json_string m \<or> (k, t) \<in> set (rq_Raw r)"
    unfolding map_of_body_fields wf_gomap_in_set [OF assms(1)]
    by (cases "k = ''stream'' \<and> stream \<noteq> None"; cases "k = ''model''") auto
  then consider (stream) b where "k = ''stream''" "t = json_bool b" | (model) "k = ''model''" "t = json_string m"
    | (kept) "(k, t) \<in> set (rq_Raw r)" by blast
  then show "sendable f"
  proof cases
    case stream
    then show ?thesis using names reads_json_bool by (auto simp: sendable_def f)
  next
    case model
    then show ?thesis using names reads_json_string by (auto simp: sendable_def f)
  qed (use assms(2) in \<open>simp add: f\<close>)
qed

lemma marshal_sendable:
  assumes "\<And>f. f \<in> set fs \<Longrightarrow> sendable f"
  shows "marshal_members fs = Some (map (\<lambda>(k, t). json_string k @ CHR '':'' # compact False t) fs)"
  using assms
proof (induction fs)
  case (Cons f fs)
  obtain k t where f: "f = (k, t)" by (cases f)
  obtain v where v: "reads (max_nesting - 1) t v" using Cons.prems [of f] by (auto simp: sendable_def f)
  then have "t \<noteq> []" "json_value t = Some v" using reads_json_value by (auto simp: reads_def)
  then show ?case using Cons by (simp add: f marshal_raw_def)
qed simp

lemma fold_raw_distinct:
  assumes "distinct (map fst ms)"
  shows "map_of (foldl (\<lambda>m (k, raw, _). AList.update k raw m) m0 ms) i =
    (case map_of (map (\<lambda>(k, raw, _). (k, raw)) ms) i of None \<Rightarrow> map_of m0 i | Some t \<Rightarrow> Some t)"
  using assms
proof (induction ms arbitrary: m0)
  case (Cons a ms)
  obtain k t v where a: "a = (k, t, v)" by (cases a)
  have "map_of (map (\<lambda>(k, raw, _). (k, raw)) ms) k = None"
    using Cons.prems by (force simp: a map_of_eq_None_iff)
  then show ?case using Cons by (auto simp: a gomap_simps split: option.split)
qed simp

text \<open>A map of sendable fields, written and read again.\<close>

lemma marshal_map_reads:
  assumes "wf_gomap fs" and "\<And>f. f \<in> set fs \<Longrightarrow> sendable f"
  shows "\<exists>b fields. marshal_map fs = Some b \<and> Option.bind (json_value b) into_raw_map = Some fields \<and>
    (\<forall>k. map_of fields k = map_option (compact False) (map_of fs k))"
proof -
  define ms where "ms = map (\<lambda>(k, t). (k, compact False t, recompact (the (json_value t)))) fs"
  have text': "map (\<lambda>(k, t). json_string k @ CHR '':'' # compact False t) fs = map (\<lambda>(k, t, v). json_string k @ CHR '':'' # t) ms"
    by (simp add: ms_def case_prod_unfold)
  have member: "to_valid k = k \<and> stands (max_nesting - 1) (compact False t) (recompact (the (json_value t)))" if in_fs: "(k, t) \<in> set fs" for k t
  proof -
    obtain v where v: "to_valid k = k" "reads (max_nesting - 1) t v" using assms(2) [OF in_fs] by (auto simp: sendable_def)
    then show ?thesis using stands_compact [OF v(2)] reads_json_value [OF v(2)] by simp
  qed
  then have stands: "list_all (\<lambda>(k, t, v). stands (max_nesting - 1) t v) ms" by (auto simp: ms_def list_all_iff)
  have names: "map (\<lambda>(k, y). (to_valid k, y)) ms = ms" using member by (auto simp: ms_def intro!: map_idI)
  let ?b = "CHR 0x7B # members_text True ms @ [CHR 0x7D]"
  have "marshal_map fs = Some ?b" using marshal_sendable [of fs] assms(2) by (simp add: marshal_map_def text')
  moreover have "json_value ?b = Some (VObj ms)"
  proof -
    have "Suc (max_nesting - 1) = max_nesting" by (simp add: max_nesting_def)
    then have "parse_value max_nesting ?b = Some (VObj ms, [])" using parse_object_text [OF stands, of True "[]"] by (simp add: names)
    then show ?thesis by (simp add: json_value_def is_ws_def)
  qed
  moreover have "distinct (map fst ms)" using assms(1) by (simp add: ms_def wf_gomap_def comp_def case_prod_unfold)
  moreover have "map_of (map (\<lambda>(k, raw, _). (k, raw)) ms) k = map_option (compact False) (map_of fs k)" for k
    using map_of_map [of "compact False" fs] by (simp add: ms_def case_prod_unfold comp_def)
  ultimately show ?thesis by (auto simp: into_raw_map_def fold_raw_distinct split: option.split)
qed

subsection \<open>What the provider reads\<close>

text \<open>The value of a field, without the texts in it.\<close>

definition field_value :: "string gomap \<Rightarrow> string \<Rightarrow> jv option" where
  "field_value m k = Option.bind (map_of m k) (\<lambda>t. map_option plain (json_value t))"

lemma compacted_field:
  assumes "wf_gomap fs" and "\<And>f. f \<in> set fs \<Longrightarrow> sendable f"
    and "map_of sent k = map_option (compact False) (map_of fs k)"
  shows "field_value sent k = field_value fs k"
proof (cases "map_of fs k")
  case (Some t)
  then obtain v where v: "reads (max_nesting - 1) t v" using assms(2) [of "(k, t)"] map_of_SomeD by (fastforce simp: sendable_def)
  have "json_value (compact False t) = Some (recompact v)" by (rule stands_json_value [OF stands_compact [OF v]]) simp
  moreover have "json_value t = Some v" using v by (rule reads_json_value) simp
  ultimately show ?thesis using Some assms(3) by (simp add: field_value_def plain_recompact)
qed (use assms(3) in \<open>simp add: field_value_def\<close>)

lemma map_of_insertionSort:
  assumes "wf_gomap fs" shows "wf_gomap (insertionSort lt fs)" and "map_of (insertionSort lt fs) k = map_of fs k"
proof -
  have "mset (map fst (insertionSort lt fs)) = mset (map fst fs)" by (simp add: mset_insertionSort)
  then show wf: "wf_gomap (insertionSort lt fs)" using assms unfolding wf_gomap_def by (metis mset_eq_imp_distinct_iff)
  have "set (insertionSort lt fs) = set fs" by (metis mset_insertionSort set_mset_mset)
  then have "map_of (insertionSort lt fs) k = Some v \<longleftrightarrow> map_of fs k = Some v" for v
    using assms wf by (simp add: wf_gomap_in_set [symmetric])
  then show "map_of (insertionSort lt fs) k = map_of fs k"
    by (cases "map_of fs k"; cases "map_of (insertionSort lt fs) k") auto
qed

text \<open>The fields written for a request that parsed, and what a reader of the body finds.\<close>

lemma BodyForModel_reads:
  assumes "wf_gomap (rq_Raw r)" and "\<And>f. f \<in> set (rq_Raw r) \<Longrightarrow> sendable f"
  obtains b sent where "BodyForModel r m stream = Some b" and "Option.bind (json_value b) into_raw_map = Some sent"
    and "\<And>k. map_of sent k = map_option (compact False) (map_of (body_fields r m stream) k)"
    and "\<And>k. field_value sent k = field_value (body_fields r m stream) k"
proof -
  define fs where "fs = insertionSort (\<lambda>a b. string_less (fst a) (fst b)) (body_fields r m stream)"
  note wf = body_fields_sendable(1) [OF assms]
  have fs: "wf_gomap fs" "map_of fs k = map_of (body_fields r m stream) k" for k
    unfolding fs_def by (simp_all add: map_of_insertionSort wf)
  have "set fs = set (body_fields r m stream)" unfolding fs_def by (metis mset_insertionSort set_mset_mset)
  then have send: "sendable f" if "f \<in> set fs" for f using body_fields_sendable(2) [OF assms] that by blast
  obtain b sent where b: "marshal_map fs = Some b" "Option.bind (json_value b) into_raw_map = Some sent"
    and sent: "\<And>k. map_of sent k = map_option (compact False) (map_of fs k)"
    using marshal_map_reads [OF fs(1) send] by blast
  have "field_value sent k = field_value fs k" for k by (rule compacted_field [OF fs(1) send sent])
  then show thesis using that [of b sent] b sent by (simp add: BodyForModel_def fs_def [symmetric] fs(2) field_value_def)
qed

lemma BodyForModel_total: "ParseRequest body = Inr r \<Longrightarrow> BodyForModel r m stream \<noteq> None"
  by (erule parsed_fields) (metis BodyForModel_reads option.distinct(1))

text \<open>C11: The body sent upstream always exists for a request that parsed, is one JSON object, and carries every
  field of the client's request with the same value, except that the model is the one called, the stream
  flag is the one asked for when one is asked for, and the routing metadata is not sent.\<close>

theorem forwarded_body:
  assumes "ParseRequest body = Inr r"
  shows "\<exists>raw b sent. Option.bind (first_value body) into_raw_map = Some raw \<and>
    BodyForModel r m stream = Some b \<and> Option.bind (json_value b) into_raw_map = Some sent \<and>
    map_of sent ''routing'' = None \<and>
    (\<forall>k. field_value sent k =
      (if k = ''stream'' \<and> stream \<noteq> None then Some (VBool (the stream))
       else if k = ''model'' then Some (VStr (to_valid m))
       else if k = ''routing'' then None
       else field_value raw k))"
proof -
  obtain raw where raw: "Option.bind (first_value body) into_raw_map = Some raw"
    and r: "wf_gomap (rq_Raw r)" "\<And>f. f \<in> set (rq_Raw r) \<Longrightarrow> sendable f"
      "\<And>k. map_of (rq_Raw r) k = (if k = ''routing'' then None else map_of raw k)"
    using parsed_fields [OF assms] by blast
  obtain b sent where b: "BodyForModel r m stream = Some b" "Option.bind (json_value b) into_raw_map = Some sent"
    and sent: "\<And>k. map_of sent k = map_option (compact False) (map_of (body_fields r m stream) k)"
      "\<And>k. field_value sent k = field_value (body_fields r m stream) k"
    using BodyForModel_reads [OF r(1,2)] by blast
  have "json_value (json_bool b) = Some (VBool b)" for b
    by (rule reads_json_value [OF reads_json_bool order_refl])
  then have "field_value sent k =
      (if k = ''stream'' \<and> stream \<noteq> None then Some (VBool (the stream))
       else if k = ''model'' then Some (VStr (to_valid m)) else if k = ''routing'' then None else field_value raw k)" for k
    unfolding sent(2) by (auto simp: field_value_def map_of_body_fields r(3) json_value_json_string)
  moreover have "map_of sent ''routing'' = None" by (simp add: sent(1) map_of_body_fields r(3))
  ultimately show ?thesis using raw b by blast
qed

theorem forwarded_body_witness:
  "\<exists>r b sent. ParseRequest sample_body = Inr r \<and> BodyForModel r ''gpt'' (Some False) = Some b \<and>
     Option.bind (json_value b) into_raw_map = Some sent \<and>
     field_value sent ''model'' = Some (VStr ''gpt'') \<and> field_value sent ''stream'' = Some (VBool False) \<and>
     field_value sent ''messages'' = Some (VArr [([], VObj [])])"
proof -
  obtain r where r: "ParseRequest sample_body = Inr r" using sample_parse by blast
  have raw: "Option.bind (first_value sample_body) into_raw_map = Some [(''messages'', ''[{}]'')]" by code_simp
  have "json_value ''[{}]'' = Some (VArr [(''{}'', VObj [])])" by code_simp
  then have messages: "field_value [(''messages'', ''[{}]'')] ''messages'' = Some (VArr [([], VObj [])])"
    by (simp add: field_value_def)
  have name: "to_valid ''gpt'' = ''gpt''" by (simp add: to_valid_ascii byte_def)
  from forwarded_body [OF r, of "''gpt''" "Some False"] raw
  obtain b sent where b: "BodyForModel r ''gpt'' (Some False) = Some b" "Option.bind (json_value b) into_raw_map = Some sent"
    and sent: "field_value sent k = (if k = ''stream'' then Some (VBool False)
       else if k = ''model'' then Some (VStr (to_valid ''gpt'')) else if k = ''routing'' then None
       else field_value [(''messages'', ''[{}]'')] k)" for k
    by auto
  then show ?thesis using r messages name by auto
qed

subsection \<open>The attempt loop never fails to write a body\<close>

lemma attempts_never_marshal:
  assumes "\<And>m. BodyForModel parsed m None \<noteq> None" and "at_LastError a \<noteq> Some MarshalFailed"
  shows "at_LastError (attempts env catalog tenant parsed headers preds n ids a) \<noteq> Some MarshalFailed"
  using assms
proof (induction env catalog tenant parsed headers preds n ids a rule: attempts.induct)
  case (2 env catalog tenant parsed headers preds n i ids a)
  show ?case
  proof (cases "usable catalog tenant preds i")
    case False
    then show ?thesis using "2.IH"(1-3) "2.prems" by (auto simp: usable_def split: option.splits)
  next
    case True
    then obtain m pv where e: "\<not> (case map_of preds i of None \<Rightarrow> False | Some pr \<Rightarrow> \<not> pr_Eligible pr)"
      and m: "map_of catalog i = Some m" and pv: "map_of (tn_Providers tenant) (m_Provider m) = Some pv"
      by (auto simp: usable_def split: option.splits)
    obtain body where body: "BodyForModel parsed (m_UpstreamModel m) None = Some body" using "2.prems"(1) by blast
    obtain now later where clock: "un_clock env n = (now, later)" by (cases "un_clock env n")
    obtain answer cs where call: "Do now later (un_url_ok env) (un_send env n) (at_Circuits a) pv m body headers = (answer, cs)"
      by (cases "Do now later (un_url_ok env) (un_send env n) (at_Circuits a) pv m body headers")
    show ?thesis
    proof (cases answer)
      case (Inl err)
      show ?thesis
      proof (cases "Retryable err")
        case True
        from "2.IH"(4) [OF e m pv body refl refl clock [symmetric] call [symmetric] Inl refl] True "2.prems"(1)
        show ?thesis using e m pv body clock call Inl by simp
      qed (use e m pv body clock call Inl in simp)
    qed (use e m pv body clock call in simp)
  qed
qed simp

text \<open>C29: An admitted request is never lost for want of a body: if it is not answered, either every usable model
  of the attempt order was called, or the last call failed in a way not worth a retry; and every shadow
  evaluation it starts has a body to send.\<close>

theorem admitted_always_sent:
  assumes "admit rp cfg r headers body sv = (Inr job, sv')"
  shows "(at_Response (chat_attempts cfg env job cs) \<noteq> None \<or>
      at_Attempted (chat_attempts cfg env job cs) = attempt_list cfg job \<or>
      (\<exists>err. at_LastError (chat_attempts cfg env job cs) = Some (DoFailed err) \<and> \<not> Retryable err)) \<and>
    (\<forall>t\<in>set (fw_Shadows (forward cfg r job cs spend)).
      \<exists>b. BodyForModel (sh_Request t) (m_UpstreamModel (sh_Model t)) (Some False) = Some b)"
proof -
  obtain bytes where "ParseRequest (take (32 * 2 ^ 20 + 1) bytes) = Inr (cj_Request job)"
    using admit_Inr(2) [OF assms] by blast
  then have body: "BodyForModel (cj_Request job) m stream \<noteq> None" for m stream by (rule BodyForModel_total)
  have sh: "sh_Request t = cj_Request job" if "t \<in> set (fw_Shadows (forward cfg r job cs spend))" for t
    using that shadow_loop_tasks
    by (force simp: forward_def Let_def launchShadows_def case_prod_unfold split: option.splits if_splits)
  have marshal: "at_LastError (chat_attempts cfg env job cs) \<noteq> Some MarshalFailed"
    unfolding chat_attempts_def Let_def by (rule attempts_never_marshal [OF body]) simp
  have "d_AttemptedModels (cj_Decision job) = []" using Route_frame [OF admit_Inr(4) [OF assms]] by simp
  then obtain k where k: "at_Attempted (chat_attempts cfg env job cs) = take k (attempt_list cfg job)"
      "loop_end (cf_Catalog cfg) (attempt_list cfg job) k (chat_attempts cfg env job cs)"
    using chat_attempts_run [of cfg job env cs] by auto
  then show ?thesis using marshal body sh by (auto simp: loop_end_def split: option.splits)
qed

theorem admitted_always_sent_witness:
  "\<exists>job sv. admit (file_repository rev rev) service_config sample_chat sample_headers (Some sample_body)
      (sy_Server initial_service) = (Inr job, sv) \<and>
     (at_Response (chat_attempts service_config (ch_upstream sample_chat) job []) \<noteq> None \<or>
      at_Attempted (chat_attempts service_config (ch_upstream sample_chat) job []) = attempt_list service_config job \<or>
      (\<exists>err. at_LastError (chat_attempts service_config (ch_upstream sample_chat) job []) = Some (DoFailed err) \<and>
         \<not> Retryable err))"
proof -
  obtain job sv where a: "admit (file_repository rev rev) service_config sample_chat sample_headers (Some sample_body)
      (sy_Server initial_service) = (Inr job, sv)" by (rule sample_admitted)
  from admitted_always_sent [OF this, of "ch_upstream sample_chat" "[]"] a show ?thesis by blast
qed

end
