(* ===== verification/Routes.thy ===== *)
theory Routes
  imports Service Payloads
begin

text \<open>
  \<^verbatim>\<open>Server.Handler\<close>: the routes of the service, the \<^verbatim>\<open>http.ServeMux\<close> that finds a handler for a method and a
  path, and the handler of a whole request with its CORS headers.
\<close>

subsection \<open>Paths\<close>

fun split_slash :: "string \<Rightarrow> string list" where
  "split_slash [] = [[]]"
| "split_slash (c # s) =
    (if c = CHR ''/'' then [] # split_slash s
     else case split_slash s of [] \<Rightarrow> [[c]] | seg # segs \<Rightarrow> (c # seg) # segs)"

fun join_slash :: "string list \<Rightarrow> string" where
  "join_slash [] = []"
| "join_slash (seg # segs) = CHR ''/'' # seg @ join_slash segs"

text \<open>\<^verbatim>\<open>path.Clean\<close> of a rooted path, as its elements.\<close>

definition clean_elements :: "string list \<Rightarrow> string list" where
  "clean_elements segs =
     foldl (\<lambda>acc seg. if seg = [] \<or> seg = ''.'' then acc else if seg = ''..'' then butlast acc else acc @ [seg]) [] segs"

definition cleanPath :: "string \<Rightarrow> string" where
  "cleanPath p =
    (let p1 = (if p = [] then ''/'' else if hd p \<noteq> CHR ''/'' then CHR ''/'' # p else p);
         els = clean_elements (split_slash p1)
     in if els = [] then ''/'' else if last p1 = CHR ''/'' then join_slash els @ ''/'' else join_slash els)"

text \<open>\<^verbatim>\<open>url.PathUnescape\<close>; a text with a bad escape is matched as it is.\<close>

fun unescape :: "string \<Rightarrow> string option" where
  "unescape [] = Some []"
| "unescape (c # s) =
    (if c = CHR ''%''
     then (case s of
             a # b # t \<Rightarrow>
               (case (hex_value a, hex_value b) of
                  (Some x, Some y) \<Rightarrow> map_option (\<lambda>u. char_of (16 * x + y) # u) (unescape t)
                | _ \<Rightarrow> None)
           | _ \<Rightarrow> None)
     else map_option (\<lambda>u. c # u) (unescape s))"

definition pathUnescape :: "string \<Rightarrow> string" where
  "pathUnescape s = (case unescape s of None \<Rightarrow> s | Some u \<Rightarrow> u)"

text \<open>The segments the routing tree is walked by; a final slash is a segment of its own.\<close>

function path_segments :: "string \<Rightarrow> string list" where
  "path_segments [] = []"
| "path_segments (c # s) =
    (if s = [] then [''/'']
     else pathUnescape (takeWhile (\<lambda>c. c \<noteq> CHR ''/'') s) # path_segments (dropWhile (\<lambda>c. c \<noteq> CHR ''/'') s))"
  by pat_completeness auto
termination
  by (relation "measure length") (auto simp: le_imp_less_Suc length_dropWhile_le)

subsection \<open>The routing table\<close>

datatype endpoint = Health | ChatCompletions | Outcomes | Decision string | AuditSummary | Policies | PutPolicy

text \<open>A pattern's segments; \<open>None\<close> stands for a wildcard.\<close>

fun match_segments :: "string option list \<Rightarrow> string list \<Rightarrow> string list option" where
  "match_segments [] [] = Some []"
| "match_segments (Some l # ps) (seg # segs) = (if seg = l then match_segments ps segs else None)"
| "match_segments (None # ps) (seg # segs) =
    (if seg = ''/'' then None else map_option (\<lambda>vs. seg # vs) (match_segments ps segs))"
| "match_segments _ _ = None"

type_synonym 'e route = "string \<times> string option list \<times> (string list \<Rightarrow> 'e)"

definition handler_routes :: "endpoint route list" where
  "handler_routes =
     [(''GET'', [Some ''healthz''], \<lambda>_. Health),
      (''GET'', [Some ''readyz''], \<lambda>_. Health),
      (''POST'', [Some ''v1'', Some ''chat'', Some ''completions''], \<lambda>_. ChatCompletions),
      (''POST'', [Some ''v1'', Some ''outcomes''], \<lambda>_. Outcomes),
      (''GET'', [Some ''v1'', Some ''decisions'', None], \<lambda>vs. Decision (hd vs)),
      (''GET'', [Some ''v1'', Some ''audit'', Some ''summary''], \<lambda>_. AuditSummary),
      (''GET'', [Some ''v1'', Some ''policies''], \<lambda>_. Policies),
      (''POST'', [Some ''v1'', Some ''policies''], \<lambda>_. PutPolicy)]"

fun find_route :: "'e route list \<Rightarrow> string \<Rightarrow> string list \<Rightarrow> 'e option" where
  "find_route [] httpMethod segs = None"
| "find_route ((m, ps, e) # rs) httpMethod segs =
    (case (if m = httpMethod then match_segments ps segs else None) of
       Some vs \<Rightarrow> Some (e vs)
     | None \<Rightarrow> find_route rs httpMethod segs)"

definition matching_methods :: "'e route list \<Rightarrow> string list \<Rightarrow> string list" where
  "matching_methods rs segs =
    (let ms = remdups (map fst (filter (\<lambda>(_, ps, _). match_segments ps segs \<noteq> None) rs))
     in insertionSort string_less (if ''GET'' \<in> set ms then ''HEAD'' # ms else ms))"

datatype 'e mux_answer = Moved | PageNotFound | NotAllowed "string list" | Serve 'e

text \<open>A route for GET also takes HEAD. A path that is not clean is redirected, unless the method is CONNECT. No
  pattern ends in a slash, so there are no redirects that add one.\<close>

definition mux :: "'e route list \<Rightarrow> string \<Rightarrow> string \<Rightarrow> 'e mux_answer" where
  "mux rs httpMethod path =
    (let cleaned = (if httpMethod = ''CONNECT'' then path else cleanPath path);
         segs = path_segments cleaned;
         found = (case find_route rs httpMethod segs of
                    None \<Rightarrow> if httpMethod = ''HEAD'' then find_route rs ''GET'' segs else None
                  | Some e \<Rightarrow> Some e)
     in if cleaned \<noteq> path then Moved
        else case found of
          Some e \<Rightarrow> Serve e
        | None \<Rightarrow> (case matching_methods rs segs of [] \<Rightarrow> PageNotFound | ms \<Rightarrow> NotAllowed ms))"

subsection \<open>A whole request\<close>

record http_request =
  hq_Method :: string
  hq_Path :: string
  hq_Query :: "string \<Rightarrow> string"
  hq_Header :: header
  hq_Body :: "string option"

text \<open>What the runtime supplies to whichever handler runs.\<close>

record http_run =
  hx_chat :: chat_run
  hx_now :: time
  hx_later :: time
  hx_nano :: int
  hx_io :: bool
  hx_order :: "string list"
  hx_pdqsort :: "(policy \<Rightarrow> policy \<Rightarrow> bool) \<Rightarrow> policy list \<Rightarrow> policy list"
  hx_visit :: "policy list \<Rightarrow> policy list"

definition plain_error :: "header \<Rightarrow> int64 \<Rightarrow> string \<Rightarrow> response" where
  "plain_error h status message =
     \<lparr>re_Status = status,
      re_Header = Header_Set (Header_Set h ''Content-Type'' ''text/plain; charset=utf-8'') ''X-Content-Type-Options'' ''nosniff'',
      re_Body = Bytes (message @ [CHR 0x0A])\<rparr>"

text \<open>An unreadable body is one that does not decode.\<close>

definition serve_endpoint ::
  "'s repository \<Rightarrow> config \<Rightarrow> http_run \<Rightarrow> http_request \<Rightarrow> endpoint \<Rightarrow> 's server \<Rightarrow> response \<times> shadow_task list \<times> 's server" where
  "serve_endpoint rp cfg x q e sv =
    (let body = (case hq_Body q of None \<Rightarrow> [] | Some b \<Rightarrow> b)
     in case e of
          Health \<Rightarrow> (health (hx_now x), [], sv)
        | ChatCompletions \<Rightarrow> chatCompletions rp cfg (hx_chat x) (hq_Header q) (hq_Body q) sv
        | Outcomes \<Rightarrow>
            (let (resp, sv') = outcomes rp cfg (if hq_Body q = None then (\<lambda>_. None) else decode_outcome)
                   (hx_now x) (hx_later x) (hx_nano x) (hx_io x) (hq_Header q) body sv
             in (resp, [], sv'))
        | Decision i \<Rightarrow> (decision rp cfg (hq_Header q) i sv, [], sv)
        | AuditSummary \<Rightarrow>
            (auditSummary rp cfg (hx_now x) (hx_later x) (hq_Header q) (hq_Query q ''days'') (hq_Query q ''policy_id'')
               (hq_Query q ''primary_outcome'') sv, [], sv)
        | Policies \<Rightarrow> (policies (hx_pdqsort x) (hx_visit x) cfg (hq_Header q) sv, [], sv)
        | PutPolicy \<Rightarrow>
            (let (resp, sv') = putPolicy rp cfg (if hq_Body q = None then (\<lambda>_. None) else decode_policy)
                   (hx_order x) (hx_now x) (hx_io x) (hq_Header q) body sv
             in (resp, [], sv')))"

text \<open>Where a redirect points and its body are not modelled.\<close>

definition serve_mux ::
  "'s repository \<Rightarrow> config \<Rightarrow> http_run \<Rightarrow> http_request \<Rightarrow> 's server \<Rightarrow> response \<times> shadow_task list \<times> 's server" where
  "serve_mux rp cfg x q sv =
    (case mux handler_routes (hq_Method q) (hq_Path q) of
       Moved \<Rightarrow> (\<lparr>re_Status = 301, re_Header = [], re_Body = NoBody\<rparr>, [], sv)
     | PageNotFound \<Rightarrow> (plain_error [] 404 ''404 page not found'', [], sv)
     | NotAllowed ms \<Rightarrow>
         (plain_error (Header_Set [] ''Allow'' (tl (tl (concat (map (\<lambda>m. '', '' @ m) ms))))) 405 ''Method Not Allowed'', [], sv)
     | Serve e \<Rightarrow> serve_endpoint rp cfg x q e sv)"

definition Handler ::
  "'s repository \<Rightarrow> config \<Rightarrow> http_run \<Rightarrow> http_request \<Rightarrow> 's server \<Rightarrow> response \<times> shadow_task list \<times> 's server" where
  "Handler rp cfg x q sv = cors (hq_Method q) (\<lambda>_. serve_mux rp cfg x q sv) ([], sv)"

subsection \<open>Which handler runs\<close>

lemma find_route_in:
  "find_route rs m segs = Some e \<Longrightarrow> \<exists>ps mk vs. (m, ps, mk) \<in> set rs \<and> match_segments ps segs = Some vs \<and> e = mk vs"
  by (induction rs m segs rule: find_route.induct) (fastforce split: option.splits if_splits)+

lemma mux_Serve:
  assumes "mux handler_routes m p = Serve e"
  shows "m = ''POST'' \<and> e \<in> {ChatCompletions, Outcomes, PutPolicy} \<or>
    m \<in> {''GET'', ''HEAD''} \<and> (e \<in> {Health, AuditSummary, Policies} \<or> (\<exists>i. e = Decision i))"
proof -
  obtain m' segs where "find_route handler_routes m' segs = Some e" and "m' = m \<or> m = ''HEAD'' \<and> m' = ''GET''"
    using assms by (auto simp: mux_def Let_def split: if_splits option.splits list.splits)
  then show ?thesis using find_route_in [of handler_routes m' segs e] by (auto simp: handler_routes_def)
qed

lemma serve_mux_cases:
  obtains (answered) status h b where "serve_mux rp cfg x q sv = (\<lparr>re_Status = status, re_Header = h, re_Body = b\<rparr>, [], sv)"
      and "status \<in> {301, 404, 405}" and "map_of h ''Access-Control-Allow-Origin'' = None"
    | (endpoint) e where "mux handler_routes (hq_Method q) (hq_Path q) = Serve e"
      and "serve_mux rp cfg x q sv = serve_endpoint rp cfg x q e sv"
proof -
  have names: "canonical_key ''Content-Type'' = ''Content-Type'' \<and> canonical_key ''Allow'' = ''Allow'' \<and>
    canonical_key ''X-Content-Type-Options'' = ''X-Content-Type-Options''"
    by code_simp
  show thesis
    using that
    by (cases "mux handler_routes (hq_Method q) (hq_Path q)")
      (auto simp: serve_mux_def plain_error_def Header_Set_def gomap_simps names)
qed

text \<open>C23: Only a POST changes anything: a request with any other method, to any path, leaves the registry, the store,
  the breaker and the shadow budget as they were and starts no shadow evaluation.\<close>

theorem only_post_changes_state:
  assumes "hq_Method q \<noteq> ''POST''"
  shows "snd (Handler rp cfg x q sv) = ([], sv)"
proof (rule serve_mux_cases [of rp cfg x q sv])
  fix e assume e: "mux handler_routes (hq_Method q) (hq_Path q) = Serve e"
    "serve_mux rp cfg x q sv = serve_endpoint rp cfg x q e sv"
  have "snd (serve_endpoint rp cfg x q e sv) = ([], sv)"
    using mux_Serve [OF e(1)] assms by (auto simp: serve_endpoint_def Let_def)
  then show ?thesis by (cases "serve_endpoint rp cfg x q e sv") (simp add: Handler_def cors_def e(2))
qed (simp add: Handler_def cors_def)

definition get_policies :: http_request where
  "get_policies = \<lparr>hq_Method = ''GET'', hq_Path = ''/v1/policies'', hq_Query = (\<lambda>_. []), hq_Header = [], hq_Body = None\<rparr>"

definition sample_run :: http_run where
  "sample_run = \<lparr>hx_chat = sample_chat, hx_now = 0, hx_later = 1, hx_nano = 7, hx_io = True, hx_order = sample_order sample_policy,
     hx_pdqsort = insertionSort, hx_visit = rev\<rparr>"

theorem only_post_changes_state_witness:
  "snd (Handler (file_repository rev rev) service_config sample_run get_policies (sy_Server initial_service)) = ([], sy_Server initial_service)"
  by (rule only_post_changes_state) (simp add: get_policies_def)



subsection \<open>CORS\<close>

text \<open>No handler sets the headers that \<^verbatim>\<open>cors\<close> has set before it runs.\<close>

definition cors_names :: "string list" where
  "cors_names = [''Access-Control-Allow-Origin'', ''Access-Control-Allow-Headers'', ''Access-Control-Allow-Methods'',
     ''Access-Control-Expose-Headers'']"

definition no_cors :: "header \<Rightarrow> bool" where
  "no_cors h \<longleftrightarrow> list_all (\<lambda>k. map_of h k = None) cors_names"

lemma no_cors_Nil [simp]: "no_cors []"
  by (simp add: no_cors_def list_all_iff)

lemma no_cors_Set: "canonical_key k \<notin> set cors_names \<Longrightarrow> no_cors (Header_Set h k v) \<longleftrightarrow> no_cors h"
  by (auto simp: no_cors_def Header_Set_def gomap_simps list_all_iff)

lemma no_cors_names:
  "canonical_key k \<notin> set cors_names"
  if "k \<in> {''Content-Type'', ''Cache-Control'', ''OpenAI-Organization'', ''OpenAI-Processing-Ms'', ''X-Request-ID'',
       ''X-Outcome-Decision-ID'', ''X-Outcome-Model'', ''X-Outcome-Policy-Version'', ''X-Outcome-Fallback-Reason'',
       ''Allow'', ''X-Content-Type-Options''}"
proof -
  have "list_all (\<lambda>k. canonical_key k \<notin> set cors_names)
      [''Content-Type'', ''Cache-Control'', ''OpenAI-Organization'', ''OpenAI-Processing-Ms'', ''X-Request-ID'',
       ''X-Outcome-Decision-ID'', ''X-Outcome-Model'', ''X-Outcome-Policy-Version'', ''X-Outcome-Fallback-Reason'',
       ''Allow'', ''X-Content-Type-Options'']" by code_simp
  then show ?thesis using that by (simp only: list_all_iff list.set) blast
qed

lemmas no_cors_simps = no_cors_Set [OF no_cors_names]

lemma no_cors_writers:
  "no_cors (re_Header (writeJSON h status b)) \<longleftrightarrow> no_cors h"
  "no_cors (re_Header (writeError h status code msg)) \<longleftrightarrow> no_cors h"
  "no_cors (re_Header (plain_error h status msg)) \<longleftrightarrow> no_cors h"
  "no_cors (setDecisionHeaders h d) \<longleftrightarrow> no_cors h"
  "no_cors (copyResponseHeaders h src) \<longleftrightarrow> no_cors h"
  by (simp_all add: writeJSON_def writeError_def plain_error_def setDecisionHeaders_def copyResponseHeaders_def Let_def no_cors_simps)

lemma no_cors_chat: "no_cors (re_Header (fst (chatCompletions rp cfg r headers body sv)))"
proof (cases "admit rp cfg r headers body sv")
  case (Pair answer sv')
  show ?thesis
  proof (cases answer)
    case (Inl resp)
    then have "admit rp cfg r headers body sv = (Inl resp, sv')" using Pair by simp
    then have "no_cors (re_Header resp)"
      unfolding admit_def Let_def invalid_key_def internal_error_def
      by (auto simp: no_cors_writers split: option.splits sum.splits prod.splits bool.splits)
    then show ?thesis using Pair Inl by (simp add: chatCompletions_def)
  next
    case (Inr job)
    have "no_cors (re_Header (snd (deliver r catalog parsed m up d)))" for catalog parsed m up d
      by (simp add: deliver_def Let_def no_cors_writers split: option.split)
    moreover have "no_cors (re_Header (writeUpstreamFailure [] e d))" for e d
      by (simp add: writeUpstreamFailure_def no_cors_writers no_cors_simps split: option.split)
    ultimately have "no_cors (re_Header (fw_Response (forward cfg r job cs spend)))" for cs spend
      by (simp add: forward_def Let_def case_prod_unfold split: option.split)
    then show ?thesis using Pair Inr by (simp add: chatCompletions_def serve_parts)
  qed
qed

lemma no_cors_endpoint: "no_cors (re_Header (fst (serve_endpoint rp cfg x q e sv)))"
proof (cases e)
  case Outcomes
  then show ?thesis
    by (auto simp: serve_endpoint_def outcomes_def invalid_key_def no_cors_writers Let_def
        split: option.split prod.split bool.split)
next
  case PutPolicy
  then show ?thesis
    by (auto simp: serve_endpoint_def putPolicy_def no_cors_writers Let_def split: option.split prod.split)
qed (simp_all add: serve_endpoint_def Let_def no_cors_chat health_def decision_def auditSummary_def policies_def
    invalid_key_def no_cors_writers split: option.split)

lemma no_cors_mux: "no_cors (re_Header (fst (serve_mux rp cfg x q sv)))"
  by (simp add: serve_mux_def no_cors_endpoint no_cors_writers no_cors_simps split: mux_answer.split)

text \<open>Every answer of the service carries the four CORS headers with the service's values, errors, redirects and
  relayed provider responses included, and a preflight request is answered without running a handler.\<close>

theorem cors_on_every_answer:
  "map (Header_Get (re_Header (fst (Handler rp cfg x q sv)))) cors_names =
     map (Header_Get (cors_headers [])) cors_names \<and>
   Header_Get (re_Header (fst (Handler rp cfg x q sv))) ''Access-Control-Allow-Origin'' = ''*'' \<and>
   (hq_Method q \<noteq> ''OPTIONS'' \<or>
     Handler rp cfg x q sv = (\<lparr>re_Status = 204, re_Header = cors_headers [], re_Body = NoBody\<rparr>, [], sv))"
proof -
  have names: "list_all (\<lambda>k. canonical_key k = k) cors_names" by code_simp
  have fold: "map_of (foldl (\<lambda>h (k, v). AList.update k v h) h0 kvs) k = map_of h0 k" if "map_of kvs k = None" for h0 kvs k
    using that by (induction kvs arbitrary: h0) (auto simp: gomap_simps split: if_splits)
  have get: "Header_Get (re_Header (fst (Handler rp cfg x q sv))) k = Header_Get (cors_headers []) k" if "k \<in> set cors_names" for k
  proof (cases "hq_Method q = ''OPTIONS''")
    case False
    obtain resp r where m: "serve_mux rp cfg x q sv = (resp, r)" by (cases "serve_mux rp cfg x q sv")
    have "map_of (re_Header resp) k = None"
      using no_cors_mux [of rp cfg x q sv] that by (simp add: m no_cors_def list_all_iff)
    moreover have "canonical_key k = k" using names that by (simp add: list_all_iff)
    ultimately show ?thesis using False by (simp add: Handler_def cors_def m Header_Get_def lookup_zero_def fold)
  qed (simp add: Handler_def cors_def)
  have "Header_Get (cors_headers []) ''Access-Control-Allow-Origin'' = ''*''" by code_simp
  moreover have "''Access-Control-Allow-Origin'' \<in> set cors_names" by (simp add: cors_names_def)
  ultimately have "Header_Get (re_Header (fst (Handler rp cfg x q sv))) ''Access-Control-Allow-Origin'' = ''*''"
    using get by simp
  then show ?thesis using get by (auto simp: Handler_def cors_def)
qed

subsection \<open>Reading a decision\<close>

lemma split_slash_plain: "list_all (\<lambda>c. c \<noteq> CHR ''/'' \<and> c \<noteq> CHR ''%'') i \<Longrightarrow> split_slash i = [i]"
  by (induction i) auto

lemma pathUnescape_plain: "list_all (\<lambda>c. c \<noteq> CHR ''/'' \<and> c \<noteq> CHR ''%'') i \<Longrightarrow> pathUnescape i = i"
proof -
  assume "list_all (\<lambda>c. c \<noteq> CHR ''/'' \<and> c \<noteq> CHR ''%'') i"
  then have "unescape i = Some i" by (induction i) auto
  then show ?thesis by (simp add: pathUnescape_def)
qed

lemma mux_decision:
  assumes "list_all (\<lambda>c. c \<noteq> CHR ''/'' \<and> c \<noteq> CHR ''%'') i" and "i \<notin> {[], ''.'', ''..''}"
  shows "mux handler_routes ''GET'' (''/v1/decisions/'' @ i) = Serve (Decision i)"
proof -
  have "last i \<noteq> CHR ''/''" using assms by (cases i rule: rev_cases) (auto simp: list_all_iff)
  then have clean: "cleanPath (''/v1/decisions/'' @ i) = ''/v1/decisions/'' @ i"
    using assms by (simp add: cleanPath_def clean_elements_def split_slash_plain)
  have walk: "takeWhile (\<lambda>c. c \<noteq> CHR ''/'') i = i" "dropWhile (\<lambda>c. c \<noteq> CHR ''/'') i = []"
    using assms(1) by (auto simp: takeWhile_eq_all_conv dropWhile_eq_Nil_conv list_all_iff)
  have "pathUnescape ''v1'' = ''v1'' \<and> pathUnescape ''decisions'' = ''decisions''" by code_simp
  then have segs: "path_segments (''/v1/decisions/'' @ i) = [''v1'', ''decisions'', i]"
    using assms(2) pathUnescape_plain [OF assms(1)] by (simp add: walk del: dropWhile_eq_Nil_conv takeWhile_eq_all_conv)
  have "i \<noteq> ''/''" using assms(1) by auto
  then have "find_route handler_routes ''GET'' [''v1'', ''decisions'', i] = Some (Decision i)" by (simp add: handler_routes_def)
  moreover define p where "p = ''/v1/decisions/'' @ i"
  ultimately show ?thesis using clean segs unfolding p_def [symmetric] by (simp add: mux_def)
qed


definition get_decision :: http_request where
  "get_decision = \<lparr>hq_Method = ''GET'', hq_Path = ''/v1/decisions/dec_01'', hq_Query = (\<lambda>_. []),
     hq_Header = sample_headers, hq_Body = None\<rparr>"


subsection \<open>Reporting an outcome\<close>

text \<open>C21: The learning loop over HTTP: a POST with a JSON message that names one of the caller's decisions, a type and a
  value is recorded with the caller's tenant and exactly these, when the store can be written, and
  answered with 202; if it cannot, the answer is 500 and no outcome counts.\<close>

theorem outcome_over_http:
  assumes "hq_Method q = ''POST''" and "hq_Path q = ''/v1/outcomes''"
    and "Authenticate cfg (Header_Get (hq_Header q) ''Authorization'') = Some tenant"
    and "hq_Body q = Some (outcome_message i t v)" and "length (outcome_message i t v) \<le> 2 ^ 20"
    and "nesting v < max_nesting" and "literals v" and "TrimSpace (to_valid t) \<noteq> []"
    and "GetDecision (sv_Store sv) (tn_ID tenant) (to_valid i) = Some d" and "to_valid i \<noteq> []"
  shows "let out = \<lparr>o_ID = newRecordID ''out'' (hx_nano x), o_TenantID = tn_ID tenant, o_DecisionID = to_valid i,
           o_TraceID = [], o_Type = to_valid t, o_Value = Some (json_of (value_of True v)), o_OccurredAt = hx_now x,
           o_Metadata = [], o_CreatedAt = hx_later x\<rparr>;
         (ok, s) = SaveOutcome (hx_io x) out (sv_Store sv);
         (resp, tasks, sv') = Handler (file_repository vd vis) cfg x q sv
     in tasks = [] \<and> sv' = sv\<lparr>sv_Store := s\<rparr> \<and> re_Status resp = (if ok then 202 else 500) \<and>
        fs_outcomes s = fs_outcomes (sv_Store sv) @ (if ok then [out] else [])"
proof -
  have m: "mux handler_routes ''POST'' ''/v1/outcomes'' = Serve Outcomes" by code_simp
  define out where "out = \<lparr>o_ID = newRecordID ''out'' (hx_nano x), o_TenantID = tn_ID tenant, o_DecisionID = to_valid i,
     o_TraceID = [], o_Type = to_valid t, o_Value = Some (json_of (value_of True v)), o_OccurredAt = hx_now x,
     o_Metadata = [], o_CreatedAt = hx_later x\<rparr>"
  obtain ok s where save: "SaveOutcome (hx_io x) out (sv_Store sv) = (ok, s)" by fastforce
  then have "fs_outcomes s = fs_outcomes (sv_Store sv) @ (if ok then [out] else [])"
    by (auto simp: SaveOutcome_def split: prod.splits if_splits)
  then show ?thesis
    unfolding out_def [symmetric] Let_def save prod.case
    using assms decode_outcome_message [OF assms(6,7), of i t] save
    by (cases ok) (simp_all add: Handler_def cors_def serve_mux_def m serve_endpoint_def outcomes_def file_repository_simps
        zero_outcome_def writeJSON_def writeError_def out_def)
qed

definition post_outcome :: http_request where
  "post_outcome = \<lparr>hq_Method = ''POST'', hq_Path = ''/v1/outcomes'', hq_Query = (\<lambda>_. []), hq_Header = sample_headers,
     hq_Body = Some (outcome_message ''dec_01'' ''resolution'' (JsBool True))\<rparr>"

theorem outcome_over_http_witness:
  "\<exists>s out. service_reach service_config s \<and> o_DecisionID out = ''dec_01'' \<and> o_Value out = Some (JBool True) \<and>
     fs_outcomes (sv_Store (snd (snd (Handler (file_repository rev rev) service_config sample_run post_outcome (sy_Server s))))) =
       fs_outcomes (sv_Store (sy_Server s)) @ [out]"
proof -
  obtain s d where s: "service_reach service_config s" "GetDecision (sv_Store (sy_Server s)) ''tenant'' ''dec_01'' = Some d"
    by (rule sample_reach)
  have t: "tn_ID (load_tenant sample_getenv sample_tenant) = ''tenant''" by (simp add: load_tenant_def sample_tenant_def Let_def)
  have texts: "to_valid ''dec_01'' = ''dec_01''" "TrimSpace (to_valid ''resolution'') \<noteq> []"
    by (simp add: to_valid_ascii byte_def) code_simp
  have "length (outcome_message ''dec_01'' ''resolution'' (JsBool True)) = 57" by code_simp
  then have small: "length (outcome_message ''dec_01'' ''resolution'' (JsBool True)) \<le> 2 ^ 20" "nesting (JsBool True) < max_nesting"
    "literals (JsBool True)"
    by (simp_all add: max_nesting_def)
  have q: "hq_Method post_outcome = ''POST''" "hq_Path post_outcome = ''/v1/outcomes''" "hq_Header post_outcome = sample_headers"
    "hq_Body post_outcome = Some (outcome_message ''dec_01'' ''resolution'' (JsBool True))"
    by (simp_all add: post_outcome_def)
  define tenant where "tenant = load_tenant sample_getenv sample_tenant"
  have auth: "Authenticate service_config (Header_Get (hq_Header post_outcome) ''Authorization'') = Some tenant"
    by (simp add: q(3) sample_authenticated tenant_def)
  have found: "GetDecision (sv_Store (sy_Server s)) (tn_ID tenant) (to_valid ''dec_01'') = Some d"
    using s(2) by (simp add: texts(1) tenant_def t)
  have ne: "to_valid ''dec_01'' \<noteq> []" by (simp add: texts(1))
  define out where "out = \<lparr>o_ID = newRecordID ''out'' (hx_nano sample_run), o_TenantID = tn_ID tenant, o_DecisionID = ''dec_01'',
     o_TraceID = [], o_Type = to_valid ''resolution'', o_Value = Some (JBool True), o_OccurredAt = hx_now sample_run,
     o_Metadata = [], o_CreatedAt = hx_later sample_run\<rparr>"
  have io: "fst (SaveOutcome (hx_io sample_run) out st) = hx_io sample_run" for st
    by (cases "hx_io sample_run"; cases "fs_outcomeLog st"; simp add: SaveOutcome_def)
  have ok: "\<exists>st'. SaveOutcome (hx_io sample_run) out st = (hx_io sample_run, st')" for st
    using io [of st] by (cases "SaveOutcome (hx_io sample_run) out st") simp
  have run: "hx_io sample_run" by (simp add: sample_run_def)
  have "o_DecisionID out = ''dec_01''" "o_Value out = Some (JBool True)" by (simp_all add: out_def)
  then show ?thesis
    using outcome_over_http [OF q(1,2) auth q(4) small texts(2) found ne, where vd = rev and vis = rev and x = sample_run] s(1)
      ok [of "sv_Store (sy_Server s)"]
    by (cases "Handler (file_repository rev rev) service_config sample_run post_outcome (sy_Server s)")
      (auto simp: Let_def texts(1) run out_def [symmetric] intro!: exI [of _ s] exI [of _ out])
qed

end
