(* ===== verification/MockProvider.thy ===== *)
theory MockProvider
  imports Forwarding Routes
begin

text \<open>
  \<^verbatim>\<open>cmd/mock-provider/main.go\<close>: the provider the demonstration talks to, what it reads of a request
  and what it answers, and what the client makes of the answers.
\<close>

subsection \<open>The request\<close>

text \<open>\<^verbatim>\<open>requestBody\<close>. The messages are decoded and not used: a request fails if they do not decode.\<close>

record requestBody =
  mb_Model :: string
  mb_Stream :: bool

text \<open>Decoding into an \<^verbatim>\<open>any\<close> fails on a number that overflows.\<close>

fun into_any :: "jv \<Rightarrow> bool" where
  "into_any (VNum l) = (into_float64 (Fin 0) (VNum l) \<noteq> None)"
| "into_any (VArr es) = list_all (\<lambda>(_, v). into_any v) es"
| "into_any (VObj ms) = list_all (\<lambda>(_, _, v). into_any v) ms"
| "into_any _ = True"

definition message_ok :: "jv \<Rightarrow> bool" where
  "message_ok v =
    (case v of
       VNull \<Rightarrow> True
     | VObj ms \<Rightarrow> list_all (\<lambda>(k, _, w).
         if EqualFold k ''role'' then into_string [] w \<noteq> None
         else if EqualFold k ''content'' then into_any w else True) ms
     | _ \<Rightarrow> False)"

definition messages_ok :: "jv \<Rightarrow> bool" where
  "messages_ok v = (case v of VNull \<Rightarrow> True | VArr es \<Rightarrow> list_all (\<lambda>(_, w). message_ok w) es | _ \<Rightarrow> False)"

fun body_members :: "(string \<times> string \<times> jv) list \<Rightarrow> requestBody \<Rightarrow> requestBody option" where
  "body_members [] b = Some b"
| "body_members ((k, _, v) # ms) b =
    (case (if EqualFold k ''model'' then map_option (\<lambda>x. b\<lparr>mb_Model := x\<rparr>) (into_string (mb_Model b) v)
           else if EqualFold k ''stream'' then map_option (\<lambda>x. b\<lparr>mb_Stream := x\<rparr>) (into_bool (mb_Stream b) v)
           else if EqualFold k ''messages'' then if messages_ok v then Some b else None
           else Some b) of
       None \<Rightarrow> None
     | Some b' \<Rightarrow> body_members ms b')"

definition decode_body :: "string \<Rightarrow> requestBody option" where
  "decode_body s =
    (let zero = \<lparr>mb_Model = [], mb_Stream = False\<rparr>
     in case first_value s of
          Some VNull \<Rightarrow> Some zero
        | Some (VObj ms) \<Rightarrow> body_members ms zero
        | _ \<Rightarrow> None)"

subsection \<open>The answer\<close>

text \<open>\<^verbatim>\<open>strings.Fields\<close>.\<close>

fun break_space :: "string \<Rightarrow> string \<times> string" where
  "break_space [] = ([], [])"
| "break_space (c # s) =
    (if \<exists>p\<in>set space_runes. prefix p (c # s) then ([], c # s)
     else case break_space s of (w, r) \<Rightarrow> (c # w, r))"

lemma break_space_length: "break_space s = (w, r) \<Longrightarrow> length r \<le> length s"
  by (induction s arbitrary: w r) (auto split: if_splits prod.splits intro: le_SucI)

lemma break_space_shorter:
  assumes "strip_left space_runes s = c # t"
  shows "length (snd (break_space (c # t))) < length s"
proof -
  have "\<not> prefix p (c # t)" if "p \<in> set space_runes" for p
    using strip_left_no_prefix [OF that, of s] that assms by (auto simp: space_runes_def)
  then have "break_space (c # t) = (c # fst (break_space t), snd (break_space t))" by (auto split: prod.split)
  moreover have "length (c # t) \<le> length s" using strip_left_suffix [of space_runes s] suffix_length_le assms by fastforce
  ultimately show ?thesis using break_space_length [of t] by (cases "break_space t") fastforce
qed

function Fields :: "string \<Rightarrow> string list" where
  "Fields s =
    (case strip_left space_runes s of
       [] \<Rightarrow> []
     | c # t \<Rightarrow> fst (break_space (c # t)) # Fields (snd (break_space (c # t))))"
  by pat_completeness auto
termination
  by (relation "measure length") (auto intro: break_space_shorter simp del: break_space.simps)

declare Fields.simps [simp del]

text \<open>A map: its keys are written in order.\<close>

definition json_map :: "(string \<times> jtree) list \<Rightarrow> jtree" where
  "json_map ms = JsObj (insertionSort (\<lambda>a b. string_less (fst a) (fst b)) ms)"

text \<open>\<^verbatim>\<open>http.Error\<close>.\<close>

definition http_Error :: "string \<Rightarrow> int64 \<Rightarrow> upstream_response" where
  "http_Error message code =
     \<lparr>rs_StatusCode = code,
      rs_Header = Header_Set (Header_Set [] ''Content-Type'' ''text/plain; charset=utf-8'') ''X-Content-Type-Options'' ''nosniff'',
      rs_Body = Some (message @ [CHR 0x0A])\<rparr>"

definition error_text :: "string \<Rightarrow> string" where
  "error_text message = write_json True (json_map [(''error'', json_map [(''message'', JsStr message)])])"

definition mock_chunk :: "int \<Rightarrow> string \<Rightarrow> nat \<Rightarrow> string \<Rightarrow> jtree" where
  "mock_chunk created modelName index word =
     json_map [
       (''id'', JsStr ''chatcmpl_mock''),
       (''object'', JsStr ''chat.completion.chunk''),
       (''created'', JsInt created),
       (''model'', JsStr modelName),
       (''choices'', JsArr [json_map [
          (''index'', JsInt (int index)),
          (''delta'', json_map [(''content'', JsStr (word @ '' ''))])]])]"

definition mock_completion :: "int \<Rightarrow> string \<Rightarrow> string \<Rightarrow> jtree" where
  "mock_completion created modelName content =
     json_map [
       (''id'', JsStr ''chatcmpl_mock''),
       (''object'', JsStr ''chat.completion''),
       (''created'', JsInt created),
       (''model'', JsStr modelName),
       (''choices'', JsArr [json_map [
          (''index'', JsInt 0),
          (''message'', json_map [(''role'', JsStr ''assistant''), (''content'', JsStr content)]),
          (''finish_reason'', JsStr ''stop'')]]),
       (''usage'', json_map [(''prompt_tokens'', JsInt 42), (''completion_tokens'', JsInt 18), (''total_tokens'', JsInt 60)])]"

definition sse_event :: "string \<Rightarrow> string" where
  "sse_event payload = ''data: '' @ payload @ [CHR 0x0A, CHR 0x0A]"

text \<open>The handler; \<open>now k\<close> is the Unix time of the \<open>k\<close>-th clock reading.\<close>

definition complete :: "(nat \<Rightarrow> int) \<Rightarrow> string \<Rightarrow> upstream_response" where
  "complete now request =
    (case decode_body request of
       None \<Rightarrow> http_Error (error_text ''invalid request'') 400
     | Some body \<Rightarrow>
         if contains (mb_Model body) ''unavailable'' then http_Error (error_text ''simulated outage'') 503
         else let content = ''Mock response from '' @ mb_Model body
              in if mb_Stream body
                 then \<lparr>rs_StatusCode = 200,
                       rs_Header = Header_Set (Header_Set [] ''Content-Type'' ''text/event-stream'') ''Cache-Control'' ''no-cache'',
                       rs_Body = Some (concat (map (\<lambda>(index, word).
                           sse_event (write_json True (mock_chunk (now index) (mb_Model body) index word)))
                         (zip [0..<length (Fields content)] (Fields content)))
                         @ sse_event ''[DONE]'')\<rparr>
                 else \<lparr>rs_StatusCode = 200,
                       rs_Header = Header_Set [] ''Content-Type'' ''application/json'',
                       rs_Body = Some (write_json True (mock_completion (now 0) (mb_Model body) content) @ [CHR 0x0A])\<rparr>)"

definition mock_address :: "(string \<Rightarrow> string) \<Rightarrow> string" where
  "mock_address getenv =
    (let address = getenv ''MOCK_PROVIDER_ADDRESS'' in if address = [] then '':8091'' else address)"

definition mock_health :: string where
  "mock_health = write_json True (json_map [(''status'', JsStr ''ok'')]) @ [CHR 0x0A]"

datatype mock_endpoint = Complete | Healthz

definition mock_routes :: "mock_endpoint route list" where
  "mock_routes =
     [(''POST'', [Some ''v1'', Some ''chat'', Some ''completions''], \<lambda>_. Complete),
      (''GET'', [Some ''healthz''], \<lambda>_. Healthz)]"

definition mock_serve :: "(nat \<Rightarrow> int) \<Rightarrow> string \<Rightarrow> string \<Rightarrow> string \<Rightarrow> upstream_response" where
  "mock_serve now httpMethod path request =
    (case mux mock_routes httpMethod path of
       Serve Complete \<Rightarrow> complete now request
     | Serve Healthz \<Rightarrow> \<lparr>rs_StatusCode = 200, rs_Header = [], rs_Body = Some mock_health\<rparr>
     | PageNotFound \<Rightarrow> http_Error ''404 page not found'' 404
     | NotAllowed _ \<Rightarrow> http_Error ''Method Not Allowed'' 405
     | Moved \<Rightarrow> \<lparr>rs_StatusCode = 301, rs_Header = [], rs_Body = Some []\<rparr>)"

subsection \<open>What the router makes of the answer\<close>

lemma mock_texts:
  "mock_completion created m c = JsObj
     [(''choices'', JsArr [JsObj [(''finish_reason'', JsStr ''stop''), (''index'', JsInt 0),
          (''message'', JsObj [(''content'', JsStr c), (''role'', JsStr ''assistant'')])]]),
      (''created'', JsInt created), (''id'', JsStr ''chatcmpl_mock''), (''model'', JsStr m),
      (''object'', JsStr ''chat.completion''),
      (''usage'', JsObj [(''completion_tokens'', JsInt 18), (''prompt_tokens'', JsInt 42), (''total_tokens'', JsInt 60)])]"
  unfolding mock_completion_def json_map_def by code_simp

lemma mock_names:
  "to_valid ''choices'' = ''choices''" "to_valid ''created'' = ''created''" "to_valid ''id'' = ''id''"
  "to_valid ''model'' = ''model''" "to_valid ''object'' = ''object''" "to_valid ''usage'' = ''usage''"
  "to_valid ''completion_tokens'' = ''completion_tokens''" "to_valid ''prompt_tokens'' = ''prompt_tokens''"
  "to_valid ''total_tokens'' = ''total_tokens''"
  by (simp_all add: to_valid_ascii byte_def)

lemma mock_numbers:
  "into_int n (VNum (decimal_int 18)) = Some 18 \<and> into_int n (VNum (decimal_int 42)) = Some 42"
  by code_simp

lemma mock_folds:
  "\<not> EqualFold ''choices'' ''usage'' \<and> \<not> EqualFold ''created'' ''usage'' \<and> \<not> EqualFold ''id'' ''usage'' \<and>
  \<not> EqualFold ''model'' ''usage'' \<and> \<not> EqualFold ''object'' ''usage'' \<and>
  \<not> EqualFold ''completion_tokens'' ''prompt_tokens'' \<and>
  \<not> EqualFold ''total_tokens'' ''prompt_tokens'' \<and> \<not> EqualFold ''total_tokens'' ''completion_tokens'' \<and>
  \<not> EqualFold ''total_tokens'' ''input_tokens'' \<and> \<not> EqualFold ''total_tokens'' ''output_tokens''"
  by code_simp

lemma mock_usage:
  "parseUsage (write_json True (mock_completion created m c) @ [CHR 0x0A]) = (42, 18)"
proof -
  have "nesting (mock_completion created m c) \<le> max_nesting" by (simp add: mock_texts max_nesting_def)
  moreover have "literals (mock_completion created m c)" by (simp add: mock_texts)
  ultimately have "json_value (write_json True (mock_completion created m c) @ [CHR 0x0A]) = Some (value_of True (mock_completion created m c))"
    by (rule json_value_write(2))
  then show ?thesis
    by (simp add: parseUsage_def into_usage_def mock_texts mock_names mock_folds mock_numbers Let_def)
qed

text \<open>The mock behind a provider's URL, a POST to its completions.\<close>

definition mock_transport :: "(nat \<Rightarrow> int) \<Rightarrow> transport" where
  "mock_transport now call = Some (mock_serve now ''POST'' ''/v1/chat/completions'' (ur_Body call))"

lemma mock_transport_completes: "mock_transport now call = Some (complete now (ur_Body call))"
proof -
  have "mux mock_routes ''POST'' ''/v1/chat/completions'' = Serve Complete" by code_simp
  then show ?thesis by (simp add: mock_transport_def mock_serve_def)
qed

lemma complete_cases:
  "rs_StatusCode (complete now b) =
     (case decode_body b of None \<Rightarrow> 400 | Some body \<Rightarrow> if contains (mb_Model body) ''unavailable'' then 503 else 200)"
  "decode_body b = Some body \<Longrightarrow> \<not> contains (mb_Model body) ''unavailable'' \<Longrightarrow> \<not> mb_Stream body \<Longrightarrow>
     \<exists>answer. rs_Body (complete now b) = Some answer \<and> parseUsage answer = (42, 18)"
  by (auto simp: complete_def http_Error_def Let_def mock_usage split: option.split)

text \<open>The client in front of the mock provider: a body the mock cannot decode is refused for good and leaves the
  breaker alone; a model whose name says it is unavailable is a failure that counts and lets the router
  fall back; any other call succeeds, clears the provider's failures and, unless it is streamed, is
  metered at 42 tokens in and 18 out, whatever the model's name and the time.\<close>

theorem mock_behind_client:
  assumes "fst (Available t cs (pv_ID pv))" and "url_ok (pv_BaseURL pv)"
  shows "case Do t later url_ok (mock_transport now) cs pv m b headers of (answer, cs') \<Rightarrow>
    case decode_body b of
      None \<Rightarrow> (\<exists>err. answer = Inl err \<and> \<not> Retryable err) \<and> cs' = snd (Available t cs (pv_ID pv))
    | Some body \<Rightarrow>
        if contains (mb_Model body) ''unavailable''
        then (\<exists>err. answer = Inl err \<and> Retryable err) \<and> cs' = recordFailure later pv (snd (Available t cs (pv_ID pv)))
        else (\<exists>up. answer = Inr up \<and> rs_StatusCode up = 200 \<and>
            (mb_Stream body \<or> (\<exists>body'. rs_Body up = Some body' \<and> parseUsage body' = (42, 18)))) \<and>
          cs' = recordSuccess (pv_ID pv) (snd (Available t cs (pv_ID pv)))"
proof -
  have body: "ur_Body (upstream_call pv b headers) = b" by (simp add: upstream_call_def)
  have refused: "Retryable (case x of None \<Rightarrow> ReadFailed err | Some e \<Rightarrow> Upstream (err\<lparr>ue_Body := f e\<rparr>)) \<longleftrightarrow>
      retryableStatus (ue_StatusCode err)" for x err f
    by (cases x) (simp_all add: Retryable_def)
  show ?thesis
    using complete_cases(2) [of b _ now]
    by (auto simp: Do_available [where url_ok = url_ok, OF assms] mock_transport_completes body Let_def complete_cases(1) refused retryableStatus_def
        split: option.split)
qed

definition quoted :: "string \<Rightarrow> string" where
  "quoted s = CHR 0x22 # s @ [CHR 0x22]"

definition mock_request :: "string \<Rightarrow> string" where
  "mock_request name = ''{'' @ quoted ''model'' @ '':'' @ quoted name @ ''}''"

theorem mock_behind_client_witness:
  "case Do 0 0 (\<lambda>_. True) (mock_transport (\<lambda>_. 0)) [] sample_upstream zero_model (mock_request ''gpt'') [] of (answer, cs) \<Rightarrow>
     \<exists>up body. answer = Inr up \<and> rs_Body up = Some body \<and> parseUsage body = (42, 18)"
proof -
  have d: "decode_body (mock_request ''gpt'') = Some \<lparr>mb_Model = ''gpt'', mb_Stream = False\<rparr>" by code_simp
  have "\<not> contains ''gpt'' ''unavailable''" by code_simp
  moreover have "fst (Available 0 [] (pv_ID sample_upstream))" by (simp add: Available_def lookup_zero_def zero_circuit_def)
  ultimately show ?thesis
    using mock_behind_client [where t = 0 and cs = "[]" and pv = sample_upstream and url_ok = "\<lambda>_. True" and later = 0
        and now = "\<lambda>_. 0" and m = zero_model and b = "mock_request ''gpt''" and headers = "[]"] d
    by (auto split: prod.splits)
qed

end
