(* ===== verification/Marshal.thy ===== *)
theory Marshal
  imports Payloads SortSlice
begin

text \<open>
  What \<^verbatim>\<open>encoding/json\<close> writes for a routing decision, field by field with \<^verbatim>\<open>omitempty\<close>, and the round trip: the
  text of a decision decodes to the decision.
\<close>

subsection \<open>Structs\<close>

text \<open>The members of a struct whose fields have these values; \<open>None\<close> is a field that is left out.\<close>

fun written :: "'r field_table \<Rightarrow> jtree option list \<Rightarrow> (string \<times> jtree) list" where
  "written ((n, _) # fs) (v # vs) = (case v of None \<Rightarrow> written fs vs | Some t \<Rightarrow> (n, t) # written fs vs)"
| "written _ _ = []"

definition marshal_struct :: "'r field_table \<Rightarrow> jtree option list \<Rightarrow> jtree" where
  "marshal_struct fs vs = JsObj (written fs vs)"

definition omitempty :: "bool \<Rightarrow> jtree \<Rightarrow> jtree option" where
  "omitempty absent t = (if absent then None else Some t)"

text \<open>A map is written with its keys in order.\<close>

definition in_key_order :: "'a gomap \<Rightarrow> 'a gomap" where
  "in_key_order m = insertionSort (\<lambda>a b. string_less (fst a) (fst b)) m"

subsection \<open>Decisions\<close>

text \<open>\<open>fmt\<close> is the shortest text \<^verbatim>\<open>strconv\<close> finds for a float. The times of a decision are in UTC.\<close>

definition into_time_pointer :: "time option \<Rightarrow> string \<Rightarrow> jv \<Rightarrow> time option option" where
  "into_time_pointer cur raw v =
    (case v of VNull \<Rightarrow> Some None | _ \<Rightarrow> map_option Some (into_time (case cur of None \<Rightarrow> 0 | Some t \<Rightarrow> t) raw v))"

definition prediction_fields :: "prediction field_table" where
  "prediction_fields = [
     (''model_id'', \<lambda>_ v x. map_option (\<lambda>y. x\<lparr>pr_ModelID := y\<rparr>) (into_string (pr_ModelID x) v)),
     (''success'', \<lambda>_ v x. map_option (\<lambda>y. x\<lparr>pr_Success := y\<rparr>) (into_float64 (pr_Success x) v)),
     (''lower_bound'', \<lambda>_ v x. map_option (\<lambda>y. x\<lparr>pr_LowerBound := y\<rparr>) (into_float64 (pr_LowerBound x) v)),
     (''uncertainty'', \<lambda>_ v x. map_option (\<lambda>y. x\<lparr>pr_Uncertainty := y\<rparr>) (into_float64 (pr_Uncertainty x) v)),
     (''samples'', \<lambda>_ v x. map_option (\<lambda>y. x\<lparr>pr_Samples := y\<rparr>) (into_int (pr_Samples x) v)),
     (''estimated_cost_usd'', \<lambda>_ v x. map_option (\<lambda>y. x\<lparr>pr_EstimatedCostUSD := y\<rparr>) (into_float64 (pr_EstimatedCostUSD x) v)),
     (''p95_latency_ms'', \<lambda>_ v x. map_option (\<lambda>y. x\<lparr>pr_P95LatencyMS := y\<rparr>) (into_int (pr_P95LatencyMS x) v)),
     (''eligible'', \<lambda>_ v x. map_option (\<lambda>y. x\<lparr>pr_Eligible := y\<rparr>) (into_bool (pr_Eligible x) v)),
     (''reason'', \<lambda>_ v x. map_option (\<lambda>y. x\<lparr>pr_Reason := y\<rparr>) (into_string (pr_Reason x) v))]"

definition features_fields :: "features field_table" where
  "features_fields = [
     (''input_tokens'', \<lambda>_ v x. map_option (\<lambda>y. x\<lparr>f_InputTokens := y\<rparr>) (into_int (f_InputTokens x) v)),
     (''expected_output_tokens'', \<lambda>_ v x. map_option (\<lambda>y. x\<lparr>f_ExpectedOutputTokens := y\<rparr>) (into_int (f_ExpectedOutputTokens x) v)),
     (''message_count'', \<lambda>_ v x. map_option (\<lambda>y. x\<lparr>f_MessageCount := y\<rparr>) (into_int (f_MessageCount x) v)),
     (''tool_count'', \<lambda>_ v x. map_option (\<lambda>y. x\<lparr>f_ToolCount := y\<rparr>) (into_int (f_ToolCount x) v)),
     (''has_vision'', \<lambda>_ v x. map_option (\<lambda>y. x\<lparr>f_HasVision := y\<rparr>) (into_bool (f_HasVision x) v)),
     (''has_structured_output'', \<lambda>_ v x. map_option (\<lambda>y. x\<lparr>f_HasStructuredOutput := y\<rparr>) (into_bool (f_HasStructuredOutput x) v)),
     (''risk'', \<lambda>_ v x. map_option (\<lambda>y. x\<lparr>f_Risk := y\<rparr>) (into_float64 (f_Risk x) v))]"

definition zero_features :: features where
  "zero_features = \<lparr>f_InputTokens = 0, f_ExpectedOutputTokens = 0, f_MessageCount = 0, f_ToolCount = 0, f_HasVision =
     False, f_HasStructuredOutput = False, f_Risk = Fin 0\<rparr>"

definition decision_fields :: "route_decision field_table" where
  "decision_fields = [
     (''id'', \<lambda>_ v x. map_option (\<lambda>y. x\<lparr>d_ID := y\<rparr>) (into_string (d_ID x) v)),
     (''parent_decision_id'', \<lambda>_ v x. map_option (\<lambda>y. x\<lparr>d_ParentDecisionID := y\<rparr>) (into_string (d_ParentDecisionID x) v)),
     (''tenant_id'', \<lambda>_ v x. map_option (\<lambda>y. x\<lparr>d_TenantID := y\<rparr>) (into_string (d_TenantID x) v)),
     (''trace_id'', \<lambda>_ v x. map_option (\<lambda>y. x\<lparr>d_TraceID := y\<rparr>) (into_string (d_TraceID x) v)),
     (''workflow'', \<lambda>_ v x. map_option (\<lambda>y. x\<lparr>d_Workflow := y\<rparr>) (into_string (d_Workflow x) v)),
     (''step'', \<lambda>_ v x. map_option (\<lambda>y. x\<lparr>d_Step := y\<rparr>) (into_string (d_Step x) v)),
     (''risk_class'', \<lambda>_ v x. map_option (\<lambda>y. x\<lparr>d_RiskClass := y\<rparr>) (into_string (d_RiskClass x) v)),
     (''policy_id'', \<lambda>_ v x. map_option (\<lambda>y. x\<lparr>d_PolicyID := y\<rparr>) (into_string (d_PolicyID x) v)),
     (''policy_version'', \<lambda>_ v x. map_option (\<lambda>y. x\<lparr>d_PolicyVersion := y\<rparr>) (into_string (d_PolicyVersion x) v)),
     (''snapshot_version'', \<lambda>_ v x. map_option (\<lambda>y. x\<lparr>d_SnapshotVersion := y\<rparr>) (into_string (d_SnapshotVersion x) v)),
     (''catalog_version'', \<lambda>_ v x. map_option (\<lambda>y. x\<lparr>d_CatalogVersion := y\<rparr>) (into_string (d_CatalogVersion x) v)),
     (''incumbent_model'', \<lambda>_ v x. map_option (\<lambda>y. x\<lparr>d_IncumbentModel := y\<rparr>) (into_string (d_IncumbentModel x) v)),
     (''selected_model'', \<lambda>_ v x. map_option (\<lambda>y. x\<lparr>d_SelectedModel := y\<rparr>) (into_string (d_SelectedModel x) v)),
     (''final_model'', \<lambda>_ v x. map_option (\<lambda>y. x\<lparr>d_FinalModel := y\<rparr>) (into_string (d_FinalModel x) v)),
     (''bucket'', \<lambda>_ v x. map_option (\<lambda>y. x\<lparr>d_Bucket := y\<rparr>) (into_string (d_Bucket x) v)),
     (''fallback_reason'', \<lambda>_ v x. map_option (\<lambda>y. x\<lparr>d_FallbackReason := y\<rparr>) (into_string (d_FallbackReason x) v)),
     (''feasible_models'', \<lambda>_ v x. map_option (\<lambda>y. x\<lparr>d_FeasibleModels := y\<rparr>) (into_slice into_string [] (d_FeasibleModels x) v)),
     (''shadow_models'', \<lambda>_ v x. map_option (\<lambda>y. x\<lparr>d_ShadowModels := y\<rparr>) (into_slice into_string [] (d_ShadowModels x) v)),
     (''predictions'', \<lambda>_ v x. map_option (\<lambda>y. x\<lparr>d_Predictions := y\<rparr>) (into_map (into_struct prediction_fields zero_prediction) (d_Predictions x) v)),
     (''features'', \<lambda>_ v x. map_option (\<lambda>y. x\<lparr>d_Features := y\<rparr>) (into_struct features_fields (d_Features x) v)),
     (''estimated_cost_usd'', \<lambda>_ v x. map_option (\<lambda>y. x\<lparr>d_EstimatedCostUSD := y\<rparr>) (into_float64 (d_EstimatedCostUSD x) v)),
     (''incumbent_estimated_cost_usd'', \<lambda>_ v x. map_option (\<lambda>y. x\<lparr>d_IncumbentEstimatedCostUSD := y\<rparr>) (into_float64 (d_IncumbentEstimatedCostUSD x) v)),
     (''actual_cost_usd'', \<lambda>_ v x. map_option (\<lambda>y. x\<lparr>d_ActualCostUSD := y\<rparr>) (into_float64 (d_ActualCostUSD x) v)),
     (''input_tokens'', \<lambda>_ v x. map_option (\<lambda>y. x\<lparr>d_InputTokens := y\<rparr>) (into_int (d_InputTokens x) v)),
     (''output_tokens'', \<lambda>_ v x. map_option (\<lambda>y. x\<lparr>d_OutputTokens := y\<rparr>) (into_int (d_OutputTokens x) v)),
     (''routing_latency_micros'', \<lambda>_ v x. map_option (\<lambda>y. x\<lparr>d_RoutingLatencyMicros := y\<rparr>) (into_int (d_RoutingLatencyMicros x) v)),
     (''provider_latency_ms'', \<lambda>_ v x. map_option (\<lambda>y. x\<lparr>d_ProviderLatencyMS := y\<rparr>) (into_int (d_ProviderLatencyMS x) v)),
     (''attempted_models'', \<lambda>_ v x. map_option (\<lambda>y. x\<lparr>d_AttemptedModels := y\<rparr>) (into_slice into_string [] (d_AttemptedModels x) v)),
     (''upstream_status'', \<lambda>_ v x. map_option (\<lambda>y. x\<lparr>d_UpstreamStatus := y\<rparr>) (into_int (d_UpstreamStatus x) v)),
     (''error'', \<lambda>_ v x. map_option (\<lambda>y. x\<lparr>d_Error := y\<rparr>) (into_string (d_Error x) v)),
     (''created_at'', \<lambda>raw v x. map_option (\<lambda>y. x\<lparr>d_CreatedAt := y\<rparr>) (into_time (d_CreatedAt x) raw v)),
     (''completed_at'', \<lambda>raw v x. map_option (\<lambda>y. x\<lparr>d_CompletedAt := y\<rparr>) (into_time_pointer (d_CompletedAt x) raw v))]"

definition zero_decision :: route_decision where
  "zero_decision = \<lparr>d_ID = [], d_ParentDecisionID = [], d_TenantID = [], d_TraceID = [], d_Workflow = [], d_Step = [], d_RiskClass
     = [], d_PolicyID = [], d_PolicyVersion = [], d_SnapshotVersion = [], d_CatalogVersion = [], d_IncumbentModel =
     [], d_SelectedModel = [], d_FinalModel = [], d_Bucket = [], d_FallbackReason = [], d_FeasibleModels = [],
     d_ShadowModels = [], d_Predictions = [], d_Features = zero_features, d_EstimatedCostUSD = Fin 0,
     d_IncumbentEstimatedCostUSD = Fin 0, d_ActualCostUSD = Fin 0, d_InputTokens = 0, d_OutputTokens = 0,
     d_RoutingLatencyMicros = 0, d_ProviderLatencyMS = 0, d_AttemptedModels = [], d_UpstreamStatus = 0, d_Error =
     [], d_CreatedAt = 0, d_CompletedAt = None\<rparr>"

definition decode_decision :: "string \<Rightarrow> route_decision option" where
  "decode_decision s = Option.bind (json_value s) (into_struct decision_fields zero_decision)"

definition prediction_tree :: "(float64 \<Rightarrow> string) \<Rightarrow> prediction \<Rightarrow> jtree" where
  "prediction_tree fmt p = marshal_struct prediction_fields [
     Some (JsStr (pr_ModelID p)),
     Some (JsNum (fmt (pr_Success p))),
     Some (JsNum (fmt (pr_LowerBound p))),
     Some (JsNum (fmt (pr_Uncertainty p))),
     Some (JsInt (pr_Samples p)),
     Some (JsNum (fmt (pr_EstimatedCostUSD p))),
     Some (JsInt (pr_P95LatencyMS p)),
     Some (JsBool (pr_Eligible p)),
     omitempty (pr_Reason p = []) (JsStr (pr_Reason p))]"

definition features_tree :: "(float64 \<Rightarrow> string) \<Rightarrow> features \<Rightarrow> jtree" where
  "features_tree fmt f = marshal_struct features_fields [
     Some (JsInt (f_InputTokens f)),
     Some (JsInt (f_ExpectedOutputTokens f)),
     Some (JsInt (f_MessageCount f)),
     Some (JsInt (f_ToolCount f)),
     Some (JsBool (f_HasVision f)),
     Some (JsBool (f_HasStructuredOutput f)),
     Some (JsNum (fmt (f_Risk f)))]"

definition decision_tree :: "(float64 \<Rightarrow> string) \<Rightarrow> route_decision \<Rightarrow> jtree" where
  "decision_tree fmt d = marshal_struct decision_fields [
     Some (JsStr (d_ID d)),
     omitempty (d_ParentDecisionID d = []) (JsStr (d_ParentDecisionID d)),
     Some (JsStr (d_TenantID d)),
     Some (JsStr (d_TraceID d)),
     Some (JsStr (d_Workflow d)),
     Some (JsStr (d_Step d)),
     Some (JsStr (d_RiskClass d)),
     Some (JsStr (d_PolicyID d)),
     Some (JsStr (d_PolicyVersion d)),
     Some (JsStr (d_SnapshotVersion d)),
     Some (JsStr (d_CatalogVersion d)),
     Some (JsStr (d_IncumbentModel d)),
     Some (JsStr (d_SelectedModel d)),
     omitempty (d_FinalModel d = []) (JsStr (d_FinalModel d)),
     Some (JsStr (d_Bucket d)),
     omitempty (d_FallbackReason d = []) (JsStr (d_FallbackReason d)),
     Some (if d_FeasibleModels d = [] then JsNull else JsArr (map JsStr (d_FeasibleModels d))),
     omitempty (d_ShadowModels d = []) (JsArr (map JsStr (d_ShadowModels d))),
     Some (JsObj (map (\<lambda>(k, p). (k, prediction_tree fmt p)) (in_key_order (d_Predictions d)))),
     Some (features_tree fmt (d_Features d)),
     Some (JsNum (fmt (d_EstimatedCostUSD d))),
     Some (JsNum (fmt (d_IncumbentEstimatedCostUSD d))),
     omitempty (d_ActualCostUSD d = Fin 0) (JsNum (fmt (d_ActualCostUSD d))),
     omitempty (d_InputTokens d = 0) (JsInt (d_InputTokens d)),
     omitempty (d_OutputTokens d = 0) (JsInt (d_OutputTokens d)),
     Some (JsInt (d_RoutingLatencyMicros d)),
     omitempty (d_ProviderLatencyMS d = 0) (JsInt (d_ProviderLatencyMS d)),
     omitempty (d_AttemptedModels d = []) (JsArr (map JsStr (d_AttemptedModels d))),
     omitempty (d_UpstreamStatus d = 0) (JsInt (d_UpstreamStatus d)),
     omitempty (d_Error d = []) (JsStr (d_Error d)),
     Some (JsStr (format_time 0 (d_CreatedAt d))),
     map_option (\<lambda>t. JsStr (format_time 0 t)) (d_CompletedAt d)]"

text \<open>\<open>html\<close> tells whether the encoder escapes the characters HTML treats specially.\<close>

definition encode_decision :: "bool \<Rightarrow> (float64 \<Rightarrow> string) \<Rightarrow> route_decision \<Rightarrow> string" where
  "encode_decision html fmt d = write_json html (decision_tree fmt d)"

subsection \<open>What can be written\<close>

text \<open>A text that is valid UTF-8, a float with a text that reads back as it, and records of such parts.\<close>

abbreviation valid_texts :: "string list \<Rightarrow> bool" where
  "valid_texts \<equiv> list_all (\<lambda>s. to_valid s = s)"

definition float_text :: "(float64 \<Rightarrow> string) \<Rightarrow> float64 \<Rightarrow> bool" where
  "float_text fmt x \<longleftrightarrow>
     scan_number (fmt x) = Some (fmt x, []) \<and> f64 (literal_value (fmt x)) = x \<and> (case x of Fin _ \<Rightarrow> True | _ \<Rightarrow> False)"

definition writable_prediction :: "(float64 \<Rightarrow> string) \<Rightarrow> prediction \<Rightarrow> bool" where
  "writable_prediction fmt p \<longleftrightarrow>
     valid_texts [pr_ModelID p, pr_Reason p] \<and> list_all is_int64 [pr_Samples p, pr_P95LatencyMS p] \<and>
     list_all (float_text fmt) [pr_Success p, pr_LowerBound p, pr_Uncertainty p, pr_EstimatedCostUSD p]"

definition writable_features :: "(float64 \<Rightarrow> string) \<Rightarrow> features \<Rightarrow> bool" where
  "writable_features fmt f \<longleftrightarrow>
     list_all is_int64 [f_InputTokens f, f_ExpectedOutputTokens f, f_MessageCount f, f_ToolCount f] \<and> float_text fmt (f_Risk f)"

definition writable_decision :: "(float64 \<Rightarrow> string) \<Rightarrow> route_decision \<Rightarrow> bool" where
  "writable_decision fmt d \<longleftrightarrow>
     valid_texts [d_ID d, d_ParentDecisionID d, d_TenantID d, d_TraceID d, d_Workflow d, d_Step d, d_RiskClass d, d_PolicyID d,
       d_PolicyVersion d, d_SnapshotVersion d, d_CatalogVersion d, d_IncumbentModel d, d_SelectedModel d, d_FinalModel d,
       d_Bucket d, d_FallbackReason d, d_Error d] \<and>
     valid_texts (d_FeasibleModels d) \<and> valid_texts (d_ShadowModels d) \<and> valid_texts (d_AttemptedModels d) \<and>
     wf_gomap (d_Predictions d) \<and> list_all (\<lambda>(k, p). to_valid k = k \<and> writable_prediction fmt p) (d_Predictions d) \<and>
     writable_features fmt (d_Features d) \<and>
     list_all (float_text fmt) [d_EstimatedCostUSD d, d_IncumbentEstimatedCostUSD d, d_ActualCostUSD d] \<and>
     list_all is_int64 [d_InputTokens d, d_OutputTokens d, d_RoutingLatencyMicros d, d_ProviderLatencyMS d, d_UpstreamStatus d] \<and>
     writable_time 0 (d_CreatedAt d) \<and> (case d_CompletedAt d of None \<Rightarrow> True | Some t \<Rightarrow> writable_time 0 t)"

subsection \<open>Reading what was written\<close>

definition field_names_ok :: "string list \<Rightarrow> bool" where
  "field_names_ok ns \<longleftrightarrow> distinct (map (map fold_char) ns) \<and> list_all (\<lambda>n. to_valid n = n) ns"

text \<open>The fields decoded one after the other; a field that is left out keeps its value.\<close>

fun decode_values :: "bool \<Rightarrow> 'r field_table \<Rightarrow> jtree option list \<Rightarrow> 'r \<Rightarrow> 'r option" where
  "decode_values html ((_, f) # fs) (v # vs) x =
     (case (case v of None \<Rightarrow> Some x | Some t \<Rightarrow> f (write_json html t) (value_of html t) x) of
        None \<Rightarrow> None
      | Some y \<Rightarrow> decode_values html fs vs y)"
| "decode_values _ _ _ x = Some x"

lemma find_field:
  assumes "distinct (map (map fold_char \<circ> fst) fs)" and "(n, f) \<in> set fs"
  shows "find (\<lambda>(name, _). EqualFold n name) fs = Some (n, f)"
  using assms
proof (induction fs)
  case (Cons g fs)
  obtain a b where g: "g = (a, b)" by (cases g)
  show ?case
  proof (cases "(n, f) = g")
    case False
    then have m: "(n, f) \<in> set fs" using Cons.prems(2) by auto
    then have "map fold_char n \<in> (map fold_char \<circ> fst) ` set fs" by force
    then have "\<not> EqualFold n a" using Cons.prems(1) by (force simp: g EqualFold_def)
    then show ?thesis using Cons.IH m Cons.prems(1) by (simp add: g)
  qed (use g in auto)
qed simp

lemma struct_members_written:
  assumes "distinct (map (map fold_char \<circ> fst) all)" and "set fs \<subseteq> set all" and "list_all (\<lambda>(n, _). to_valid n = n) fs"
  shows "struct_members all (map (\<lambda>(k, t). (to_valid k, write_json html t, value_of html t)) (written fs vs)) x =
    decode_values html fs vs x"
  using assms(2,3)
proof (induction fs vs arbitrary: x rule: written.induct)
  case (1 n f fs v vs)
  have "find (\<lambda>(name, _). EqualFold n name) all = Some (n, f)" by (rule find_field [OF assms(1)]) (use 1 in simp)
  then show ?case using 1 by (cases v) (simp_all split: option.split)
qed simp_all

lemma into_struct_written:
  assumes "field_names_ok (map fst fs)"
  shows "into_struct fs x (value_of html (marshal_struct fs vs)) = decode_values html fs vs x"
  using struct_members_written [of fs fs] assms
  by (simp add: into_struct_def marshal_struct_def field_names_ok_def list.pred_map comp_def case_prod_unfold)

lemma omitted_or_same: "(c \<Longrightarrow> a = b) \<Longrightarrow> (if c then a else b) = b"
  by simp

lemma case_omitempty [simp]: "(case omitempty c t of None \<Rightarrow> a | Some t \<Rightarrow> g t) = (if c then a else g t)"
  by (simp add: omitempty_def)

text \<open>Integers, floats, times, slices and maps.\<close>

lemma digits_value_decimal: "digits_value (decimal_nat n) = int n"
proof (induction n rule: decimal_nat.induct)
  case (1 n)
  show ?case
  proof (cases "n < 10")
    case True
    then show ?thesis by (simp add: decimal_nat.simps [of n] digits_value_def byte_digit)
  next
    case False
    then show ?thesis using 1 by (subst decimal_nat.simps) (simp add: digits_value_snoc byte_digit zmod_int zdiv_int)
  qed
qed

lemma into_int_decimal: "is_int64 n \<Longrightarrow> into_int cur (VNum (decimal_int n)) = Some n"
proof -
  have "hd (decimal_nat k) \<noteq> CHR ''-''" for k
    using decimal_nat_digits [of k] by (cases "decimal_nat k") (auto simp: is_digit_def byte_in_def byte_def)
  then show "is_int64 n \<Longrightarrow> into_int cur (VNum (decimal_int n)) = Some n"
    using decimal_nat_digits [of "nat n"] decimal_nat_digits [of "nat (- n)"]
    by (auto simp: into_int_def decimal_int_def digits_value_decimal Let_def)
qed

lemma encode_plain:
  assumes "list_all (\<lambda>c. is_digit c \<or> c \<in> {CHR ''-'', CHR ''+'', CHR '':'', CHR ''.'', CHR ''T'', CHR ''Z''}) s"
  shows "encode_chars html s = s"
  using assms
proof (induction s)
  case (Cons c s)
  have c: "is_digit c \<or> c \<in> {CHR ''-'', CHR ''+'', CHR '':'', CHR ''.'', CHR ''T'', CHR ''Z''}" using Cons.prems by simp
  have b: "byte c < 0x80" using c by (auto simp: is_digit_def byte_in_def byte_def)
  have "encode_ascii html e = [e]" if "byte e \<notin> {34, 92, 8, 12, 10, 13, 9, 60, 62, 38}" "32 \<le> byte e" for e
  proof -
    have "e \<notin> {CHR 0x22, CHR 0x5C, CHR 0x08, CHR 0x0C, CHR 0x0A, CHR 0x0D, CHR 0x09, CHR ''<'', CHR ''>'', CHR ''&''}"
      using that(1) by (auto simp: byte_def)
    moreover have "\<not> byte e < 0x20" using that(2) by simp
    ultimately show ?thesis by (simp add: encode_ascii_def)
  qed
  moreover have "byte c \<in> {43, 45, 46, 58, 84, 90} \<or> 48 \<le> byte c \<and> byte c \<le> 57"
    using c by (elim disjE insertE emptyE; simp add: is_digit_def byte_in_def byte_def)
  ultimately have "encode_ascii html c = [c]" by fastforce
  then show ?case using b Cons by (simp add: encode_chars.simps)
qed simp

lemma format_time_plain:
  "list_all (\<lambda>c. is_digit c \<or> c \<in> {CHR ''-'', CHR ''+'', CHR '':'', CHR ''.'', CHR ''T'', CHR ''Z''}) (format_time off t)"
proof -
  have p: "\<forall>c \<in> set (pad k n). is_digit c" for k n using pad_digits [of k n] by (simp add: list_all_iff)
  then have "\<forall>c \<in> set (format_nanoseconds n). is_digit c \<or> c = CHR ''.''" for n
    by (auto simp: format_nanoseconds_def dest: set_dropWhileD)
  moreover have "\<forall>c \<in> set (format_offset o'). is_digit c \<or> c \<in> {CHR ''-'', CHR ''+'', CHR '':'', CHR ''Z''}" for o'
    using p by (auto simp: format_offset_def)
  ultimately show ?thesis using p by (fastforce simp: format_time_def list_all_iff Let_def case_prod_unfold)
qed

lemma into_time_written:
  assumes "writable_time off t"
  shows "into_time cur (json_text html (format_time off t)) (VStr s) = Some t"
  using parse_format_time [OF assms] by (simp add: into_time_def json_text_def encode_plain [OF format_time_plain])

lemma into_elements_strings:
  "valid_texts xs \<Longrightarrow> into_elements into_string [] cur (map (\<lambda>t. (write_json html t, value_of html t)) (map JsStr xs)) = Some xs"
  by (induction xs arbitrary: cur) (simp_all add: into_string_def)

lemma into_entries_written:
  assumes "distinct (map fst m0 @ map fst es)"
    and "\<And>k x. (k, x) \<in> set es \<Longrightarrow> to_valid k = k \<and> into (value_of html (f x)) = Some (g x)"
  shows "into_entries into (map (\<lambda>(k, t). (to_valid k, write_json html t, value_of html t)) (map (\<lambda>(k, x). (k, f x)) es)) m0 =
    Some (m0 @ map (\<lambda>(k, x). (k, g x)) es)"
  using assms
proof (induction es arbitrary: m0)
  case (Cons e es)
  obtain k x where e: "e = (k, x)" by (cases e)
  have kx: "to_valid k = k" "into (value_of html (f x)) = Some (g x)" using Cons.prems(2) [of k x] by (simp_all add: e)
  have "k \<notin> fst ` set m0" using Cons.prems(1) by (auto simp: e)
  then have "AList.update k (g x) m0 = m0 @ [(k, g x)]" by (induction m0) auto
  then show ?case using Cons.IH [of "m0 @ [(k, g x)]"] Cons.prems by (auto simp: e kx)
qed simp

lemma into_map_entries:
  assumes "wf_gomap m" and "\<And>k x. (k, x) \<in> set m \<Longrightarrow> to_valid k = k \<and> into (value_of html (f x)) = Some (g x)"
  shows "into_map into [] (value_of html (JsObj (map (\<lambda>(k, x). (k, f x)) m))) = Some (map (\<lambda>(k, x). (k, g x)) m)"
proof -
  have "distinct (map fst ([] :: (string \<times> 'b) list) @ map fst m)" using assms(1) by (simp add: wf_gomap_def)
  from into_entries_written [where into = into and html = html and f = f and g = g, OF this assms(2)] show ?thesis
    by (simp add: into_map_def)
qed

lemma in_key_order_map:
  assumes "wf_gomap m"
  shows "wf_gomap (in_key_order m)" and "map_of (in_key_order m) = map_of m" and "set (in_key_order m) = set m"
proof -
  have ms: "mset (map fst (in_key_order m)) = mset (map fst m)" by (simp add: in_key_order_def mset_insertionSort)
  then show wf: "wf_gomap (in_key_order m)" using assms unfolding wf_gomap_def by (metis mset_eq_imp_distinct_iff)
  show set: "set (in_key_order m) = set m" unfolding in_key_order_def by (metis mset_insertionSort set_mset_mset)
  have "map_of (in_key_order m) k = Some v \<longleftrightarrow> map_of m k = Some v" for k v
    using wf assms set by (simp add: wf_gomap_def map_of_eq_Some_iff)
  then show "map_of (in_key_order m) = map_of m" by (metis (no_types) ext not_None_eq)
qed

lemma into_map_written:
  assumes "wf_gomap m" and "\<And>k x. (k, x) \<in> set m \<Longrightarrow> to_valid k = k \<and> into (value_of html (f x)) = Some (g x)"
  shows "into_map into [] (value_of html (JsObj (map (\<lambda>(k, x). (k, f x)) (in_key_order m)))) =
    Some (map (\<lambda>(k, x). (k, g x)) (in_key_order m))"
  using assms by (intro into_map_entries) (auto simp: in_key_order_map)

lemma into_float64_text: "float_text fmt x \<Longrightarrow> into_float64 cur (VNum (fmt x)) = Some x"
  by (auto simp: float_text_def into_float64_def split: float64.splits)

definition name_chars :: string where
  "name_chars = ''abcdefghijklmnopqrstuvwxyz0123456789_''"

lemma name_char: "c \<in> set name_chars \<Longrightarrow> fold_char c = c \<and> byte c < 0x80"
proof -
  have "list_all (\<lambda>c. fold_char c = c \<and> byte c < 0x80) name_chars" by code_simp
  then show "c \<in> set name_chars \<Longrightarrow> fold_char c = c \<and> byte c < 0x80" by (simp add: list_all_iff)
qed

lemma field_names_okI:
  assumes "distinct ns" and "list_all (list_all (\<lambda>c. c \<in> set name_chars)) ns"
  shows "field_names_ok ns"
proof -
  have "map fold_char n = n \<and> to_valid n = n" if "list_all (\<lambda>c. c \<in> set name_chars) n" for n
    using that by (induction n) (simp_all add: name_char to_valid.simps encode_ascii_rune)
  then have "map (map fold_char) ns = ns" "list_all (\<lambda>n. to_valid n = n) ns"
    using assms(2) by (auto simp: list_all_iff intro: map_idI)
  then show ?thesis using assms(1) by (simp add: field_names_ok_def)
qed

lemma field_names:
  "field_names_ok (map fst prediction_fields)" "field_names_ok (map fst features_fields)" "field_names_ok (map fst decision_fields)"
  by (rule field_names_okI; simp add: prediction_fields_def features_fields_def decision_fields_def name_chars_def)+

lemmas decode_steps = into_struct_written [OF field_names(1)] into_struct_written [OF field_names(2)]
  into_struct_written [OF field_names(3)] into_string_def into_bool_def into_int_decimal into_float64_text into_time_written

lemma into_prediction:
  "writable_prediction fmt p \<Longrightarrow> into_struct prediction_fields zero_prediction (value_of html (prediction_tree fmt p)) = Some p"
  unfolding prediction_tree_def decode_steps(1)
  by (simp add: prediction_fields_def zero_prediction_def writable_prediction_def decode_steps omitted_or_same)

lemma into_features:
  "writable_features fmt f \<Longrightarrow> into_struct features_fields x (value_of html (features_tree fmt f)) = Some f"
  unfolding features_tree_def decode_steps(2)
  by (simp add: features_fields_def writable_features_def decode_steps)

lemma into_predictions:
  assumes "wf_gomap m" and "list_all (\<lambda>(k, p). to_valid k = k \<and> writable_prediction fmt p) m"
  shows "into_map (into_struct prediction_fields zero_prediction) []
      (value_of html (JsObj (map (\<lambda>(k, p). (k, prediction_tree fmt p)) (in_key_order m)))) = Some (in_key_order m)"
proof -
  have "to_valid k = k \<and> into_struct prediction_fields zero_prediction (value_of html (prediction_tree fmt x)) = Some x"
    if "(k, x) \<in> set m" for k x
    using that assms(2) by (auto simp: list_all_iff into_prediction)
  from into_map_written [OF assms(1), where g = "\<lambda>x. x", OF this] show ?thesis by simp
qed

lemma into_strings:
  "valid_texts xs \<Longrightarrow> into_slice into_string [] cur (value_of html (JsArr (map JsStr xs))) = Some xs"
  using into_elements_strings [of xs cur html] by (simp add: into_slice_def)

lemma into_decision:
  assumes "writable_decision fmt d"
  shows "into_struct decision_fields zero_decision (value_of html (decision_tree fmt d)) =
    Some (d\<lparr>d_Predictions := in_key_order (d_Predictions d)\<rparr>)"
proof -
  define pm where "pm = JsObj (map (\<lambda>(k, p). (k, prediction_tree fmt p)) (in_key_order (d_Predictions d)))"
  have maps: "into_map (into_struct prediction_fields zero_prediction) [] (value_of html pm) = Some (in_key_order (d_Predictions d))"
    unfolding pm_def using assms by (intro into_predictions) (simp_all add: writable_decision_def)
  define feasible where "feasible = (if d_FeasibleModels d = [] then JsNull else JsArr (map JsStr (d_FeasibleModels d)))"
  have slice: "into_slice into_string [] [] (value_of html feasible) = Some (d_FeasibleModels d)"
    using into_strings [of "d_FeasibleModels d"] assms by (simp add: feasible_def into_slice_def writable_decision_def)
  define shadows where "shadows = JsArr (map JsStr (d_ShadowModels d))"
  define attempted where "attempted = JsArr (map JsStr (d_AttemptedModels d))"
  have slices: "into_slice into_string [] [] (value_of html shadows) = Some (d_ShadowModels d)"
      "into_slice into_string [] [] (value_of html attempted) = Some (d_AttemptedModels d)"
    unfolding shadows_def attempted_def using assms by (intro into_strings; simp add: writable_decision_def)+
  show ?thesis
    unfolding decision_tree_def decode_steps(3) pm_def [symmetric] feasible_def [symmetric] shadows_def [symmetric] attempted_def [symmetric]
    using assms
    by (cases "d_CompletedAt d")
      (simp_all add: decision_fields_def zero_decision_def writable_decision_def decode_steps maps slice slices into_features
        into_time_pointer_def omitted_or_same)
qed

subsection \<open>The text of a decision\<close>

lemma written_values: "(n, t) \<in> set (written fs vs) \<Longrightarrow> Some t \<in> set vs"
  by (induction fs vs rule: written.induct) (auto split: option.splits)

lemma literals_struct:
  "list_all (\<lambda>v. case v of None \<Rightarrow> True | Some t \<Rightarrow> literals t) vs \<Longrightarrow> literals (marshal_struct fs vs)"
  by (auto simp: marshal_struct_def list_all_iff dest!: written_values)

lemma nesting_struct:
  "list_all (\<lambda>v. case v of None \<Rightarrow> True | Some t \<Rightarrow> nesting t \<le> n) vs \<Longrightarrow> nesting (marshal_struct fs vs) \<le> Suc n"
  by (auto simp: marshal_struct_def list_all_iff dest!: written_values)

lemma nesting_map: "(\<And>k x. (k, x) \<in> set m \<Longrightarrow> nesting (f x) \<le> n) \<Longrightarrow> nesting (JsObj (map (\<lambda>(k, x). (k, f x)) m)) \<le> Suc n"
  by auto

lemma nesting_strings: "nesting (JsArr (map JsStr xs)) \<le> 1"
proof -
  have "Max (insert 0 (nesting ` JsStr ` set xs)) \<le> 0" by (subst Max_le_iff) auto
  then show ?thesis by simp
qed

lemma omitempty_all [simp]: "(case omitempty c t of None \<Rightarrow> True | Some t \<Rightarrow> P t) \<longleftrightarrow> c \<or> P t"
  by (simp add: omitempty_def)

lemma decision_literals:
  assumes "writable_decision fmt d" shows "literals (decision_tree fmt d)"
proof -
  have floats: "float_text fmt x \<Longrightarrow> scan_number (fmt x) = Some (fmt x, [])" for x by (simp add: float_text_def)
  have "literals (prediction_tree fmt p)" if "writable_prediction fmt p" for p
    unfolding prediction_tree_def using that by (intro literals_struct) (simp add: writable_prediction_def floats)
  moreover have "literals (features_tree fmt (d_Features d))"
    unfolding features_tree_def using assms
    by (intro literals_struct) (simp add: writable_decision_def writable_features_def floats)
  moreover have "writable_prediction fmt p" if "(k, p) \<in> set (in_key_order (d_Predictions d))" for k p
    using assms that by (auto simp: writable_decision_def in_key_order_map(3) list_all_iff)
  ultimately show ?thesis
    unfolding decision_tree_def using assms
    by (intro literals_struct) (auto simp: writable_decision_def floats list_all_iff split: option.split)
qed

lemma decision_nesting: "nesting (decision_tree fmt d) \<le> 4"
proof -
  have p: "nesting (prediction_tree fmt p) \<le> 1" for p
    unfolding prediction_tree_def One_nat_def by (intro nesting_struct) simp
  have f: "nesting (features_tree fmt f) \<le> 1" for f
    unfolding features_tree_def One_nat_def by (intro nesting_struct) simp
  have m: "nesting (JsObj (map (\<lambda>(k, p). (k, prediction_tree fmt p)) m)) \<le> Suc 1" for m by (intro nesting_map p)
  have s: "nesting (JsArr (map JsStr xs)) \<le> 3" for xs using nesting_strings [of xs] by simp
  have "nesting (decision_tree fmt d) \<le> Suc 3"
    unfolding decision_tree_def
    by (intro nesting_struct) (use f [of "d_Features d"] m [of "in_key_order (d_Predictions d)"] s in \<open>simp del: nesting.simps(1,2) split: option.split\<close>)
  then show ?thesis by simp
qed

lemma decision_text:
  assumes "writable_decision fmt d"
  shows "decode_decision (encode_decision html fmt d) = Some (d\<lparr>d_Predictions := in_key_order (d_Predictions d)\<rparr>)"
    and "decode_decision (encode_decision html fmt d @ [CHR 0x0A]) = Some (d\<lparr>d_Predictions := in_key_order (d_Predictions d)\<rparr>)"
proof -
  have "nesting (decision_tree fmt d) \<le> max_nesting" using decision_nesting [of fmt d] by (simp add: max_nesting_def)
  note read = json_value_write [OF this decision_literals [OF assms], of html]
  show "decode_decision (encode_decision html fmt d) = Some (d\<lparr>d_Predictions := in_key_order (d_Predictions d)\<rparr>)"
    "decode_decision (encode_decision html fmt d @ [CHR 0x0A]) = Some (d\<lparr>d_Predictions := in_key_order (d_Predictions d)\<rparr>)"
    using read into_decision [OF assms] by (simp_all add: decode_decision_def encode_decision_def)
qed

text \<open>C12: The text of a decision - whatever characters its strings hold and whether or not the encoder escapes HTML -
  decodes to that decision, with its predictions in key order, which is the same map; also when a line feed follows.\<close>

theorem decision_text_roundtrip:
  assumes "writable_decision fmt d"
  shows "decode_decision (encode_decision html fmt d) = Some (d\<lparr>d_Predictions := in_key_order (d_Predictions d)\<rparr>) \<and>
    decode_decision (encode_decision html fmt d @ [CHR 0x0A]) = Some (d\<lparr>d_Predictions := in_key_order (d_Predictions d)\<rparr>) \<and>
    map_of (in_key_order (d_Predictions d)) = map_of (d_Predictions d)"
  using decision_text [OF assms] in_key_order_map(2) [of "d_Predictions d"] assms by (simp add: writable_decision_def)

definition sample_float_text :: "float64 \<Rightarrow> string" where
  "sample_float_text x = (if x = Fin (1 / 2) then ''0.5'' else ''0'')"

definition text_decision :: route_decision where
  "text_decision = zero_decision\<lparr>d_ID := ''dec_01'', d_Error := ''a < b & c'', d_FeasibleModels := [''premium''],
     d_Predictions := [(''premium'', zero_prediction\<lparr>pr_ModelID := ''premium'', pr_Success := Fin (1 / 2), pr_Eligible := True\<rparr>)],
     d_EstimatedCostUSD := Fin (1 / 2), d_CreatedAt := 63900000000123000000, d_CompletedAt := Some 63900000001000000000\<rparr>"

lemma sample_float_texts: "float_text sample_float_text (Fin 0) \<and> float_text sample_float_text (Fin (1 / 2))"
  by code_simp

lemma text_decision_writable: "writable_decision sample_float_text text_decision"
proof -
  have "to_valid ''dec_01'' = ''dec_01''" "to_valid ''a < b & c'' = ''a < b & c''" "to_valid ''premium'' = ''premium''" by (simp_all add: to_valid_ascii byte_def)
  then show ?thesis
    by (simp add: writable_decision_def text_decision_def zero_decision_def zero_features_def zero_prediction_def
        writable_prediction_def writable_features_def writable_time_def sample_float_texts wf_gomap_def is_int64_def)
qed

theorem decision_text_roundtrip_witness:
  "decode_decision (encode_decision False sample_float_text text_decision) = Some text_decision"
proof -
  have "d_Predictions text_decision = in_key_order (d_Predictions text_decision)"
    by (simp add: text_decision_def in_key_order_def insertionSort_def)
  then show ?thesis using decision_text_roundtrip [OF text_decision_writable, of False] by simp
qed

subsection \<open>One line\<close>

abbreviation one_line :: "string \<Rightarrow> bool" where
  "one_line s \<equiv> CHR 0x0A \<notin> set s"

lemma hex_digit_line: "hex_digit (k mod 16) \<noteq> CHR 0x0A"
proof -
  have "\<forall>k\<in>set [0..<16]. hex_digit k \<noteq> CHR 0x0A" by code_simp
  then show ?thesis by simp
qed

lemma unicode_escape_line: "one_line (unicode_escape r)"
  using hex_digit_line by (simp add: unicode_escape_def) metis

lemma encode_chars_line: "one_line (encode_chars html s)"
proof (induction html s rule: encode_chars.induct)
  case (2 html c s)
  show ?case
  proof (cases "byte c < 0x80")
    case True
    have "one_line (encode_ascii html c)" using unicode_escape_line by (auto simp: encode_ascii_def)
    then show ?thesis using True 2 by (simp add: encode_chars.simps)
  next
    case False
    obtain r n where d: "decode_rune (c # s) = (r, n)" by (cases "decode_rune (c # s)")
    have "one_line (take n (c # s))" if "\<not> (r = rune_error \<and> n = 1)"
    proof -
      have "c \<noteq> CHR 0x0A" using False by (auto simp: byte_def)
      moreover have "one_line (take (n - 1) s)"
        using decode_rune_conts [OF d that] by (auto simp: list_all_iff byte_in_def byte_def)
      ultimately show ?thesis by (cases n) auto
    qed
    then show ?thesis using False 2 unicode_escape_line d
      by (auto simp: encode_chars.simps simp del: decode_rune.simps)
  qed
qed simp

lemma comma_separated_set: "set (comma_separated ts) \<subseteq> insert (CHR '','') (\<Union> (set ` set ts))"
  by (induction ts rule: comma_separated.induct) auto

lemma write_json_line: "literals t \<Longrightarrow> one_line (write_json html t)"
proof (induction html t rule: write_json.induct)
  case (3 html n)
  have "\<not> is_digit (CHR 0x0A)" by (simp add: is_digit_def byte_in_def byte_def)
  then show ?case using decimal_nat_digits [of "nat n"] decimal_nat_digits [of "nat (- n)"]
    by (auto simp: decimal_int_def list_all_iff)
next
  case (4 html l)
  then show ?case using scan_number_more(2) [of l l "[]" "[]"] by (auto simp: list_all_iff is_ws_def)
next
  case (6 html ts)
  then show ?case using comma_separated_set [of "map (write_json html) ts"] by (fastforce simp: list_all_iff)
next
  case (7 html ms)
  have "one_line (json_text html k)" for k using encode_chars_line [of html k] by (simp add: json_text_def)
  moreover have "one_line (write_json html t)" if "(k, t) \<in> set ms" for k t
    using "7.IH" [OF that refl] "7.prems" that by (auto simp: list_all_iff)
  ultimately have "one_line (json_text html k @ CHR '':'' # write_json html t)" if "(k, t) \<in> set ms" for k t
    using that by simp
  then have "one_line (comma_separated (map (\<lambda>(k, t). json_text html k @ CHR '':'' # write_json html t) ms))"
    using comma_separated_set [of "map (\<lambda>(k, t). json_text html k @ CHR '':'' # write_json html t) ms"] by auto
  then show ?case by simp
qed (use encode_chars_line in \<open>auto simp: json_text_def json_bool_def\<close>)

end
