(* ===== verification/LogFile.thy ===== *)
theory LogFile
  imports Marshal Store
begin

text \<open>
  The log files of \<^verbatim>\<open>FileStore\<close> byte by byte: \<^verbatim>\<open>appendJSONLine\<close> with writes that stop half-way, \<^verbatim>\<open>loadJSONLines\<close> with
  the tokens of \<^verbatim>\<open>bufio.Scanner\<close> and its limit; and the refinement of the lines of \<^verbatim>\<open>Store\<close> by these bytes.
\<close>

subsection \<open>Files\<close>

datatype disk_file = Absent | Denied | Content string

text \<open>How far a save gets: the file is not opened, \<^verbatim>\<open>Encode\<close> fails after some bytes of the line are written, \<^verbatim>\<open>Close\<close>
  fails after all of them are, or nothing fails.\<close>

datatype write_result = NotOpened | Stopped nat | NotClosed | Written

definition append_bytes :: "write_result \<Rightarrow> string \<Rightarrow> disk_file \<Rightarrow> bool \<times> disk_file" where
  "append_bytes r line disk =
    (let content = (case disk of Content c \<Rightarrow> c | _ \<Rightarrow> [])
     in if disk = Denied then (False, disk)
        else case r of
          NotOpened \<Rightarrow> (False, disk)
        | Stopped k \<Rightarrow> (False, Content (content @ take k line))
        | NotClosed \<Rightarrow> (False, Content (content @ line))
        | Written \<Rightarrow> (True, Content (content @ line)))"

subsection \<open>Scanning\<close>

text \<open>The buffer holds 32 MiB: a line, with its line feed, must fit in it.\<close>

definition max_token :: nat where
  "max_token = 32 * 2 ^ 20"

definition first_line :: "string \<Rightarrow> string" where
  "first_line s = takeWhile (\<lambda>c. c \<noteq> CHR 0x0A) s"

definition later_lines :: "string \<Rightarrow> string" where
  "later_lines s = tl (dropWhile (\<lambda>c. c \<noteq> CHR 0x0A) s)"

definition dropCR :: "string \<Rightarrow> string" where
  "dropCR l = (if l \<noteq> [] \<and> last l = CHR 0x0D then butlast l else l)"

lemma later_lines_shorter: "s \<noteq> [] \<Longrightarrow> length (later_lines s) < length s"
proof -
  assume "s \<noteq> []"
  then have "0 < length s" by simp
  moreover have "length (dropWhile (\<lambda>c. c \<noteq> CHR 0x0A) s) \<le> length s" by (rule length_dropWhile_le)
  ultimately show ?thesis unfolding later_lines_def length_tl by linarith
qed

function scan_lines ::
  "(string \<Rightarrow> 'a option) \<Rightarrow> ('a \<Rightarrow> 's \<Rightarrow> 's) \<Rightarrow> nat \<Rightarrow> string \<Rightarrow> 's \<Rightarrow> load_error + 's" where
  "scan_lines dec consume n s x =
    (if s = [] then Inr x
     else if max_token \<le> length (first_line s) then Inl ScanError
     else if dropCR (first_line s) = [] then scan_lines dec consume (Suc n) (later_lines s) x
     else case dec (dropCR (first_line s)) of
       None \<Rightarrow> Inl (LineError (Suc n))
     | Some v \<Rightarrow> scan_lines dec consume (Suc n) (later_lines s) (consume v x))"
  by pat_completeness auto
termination
  by (relation "measure (\<lambda>(_, _, _, s, _). length s)") (auto simp: later_lines_shorter)

declare scan_lines.simps [simp del]

fun load_file :: "(string \<Rightarrow> 'a option) \<Rightarrow> ('a \<Rightarrow> 's \<Rightarrow> 's) \<Rightarrow> disk_file \<Rightarrow> 's \<Rightarrow> load_error + 's" where
  "load_file dec consume Absent x = Inr x"
| "load_file dec consume Denied x = Inl OpenError"
| "load_file dec consume (Content s) x = scan_lines dec consume 0 s x"

subsection \<open>The lines of a file\<close>

definition classify :: "(string \<Rightarrow> 'a option) \<Rightarrow> string \<Rightarrow> 'a line" where
  "classify dec l =
    (if max_token \<le> length l then TooLong
     else if dropCR l = [] then Blank
     else case dec (dropCR l) of None \<Rightarrow> Bad | Some v \<Rightarrow> Line v)"

function file_lines :: "string \<Rightarrow> string list" where
  "file_lines s = (if s = [] then [] else first_line s # file_lines (later_lines s))"
  by pat_completeness auto
termination by (relation "measure length") (auto simp: later_lines_shorter)

declare file_lines.simps [simp del]

lemma file_lines_Nil [simp]: "file_lines [] = []"
  by (simp add: file_lines.simps)

fun log_of_file :: "(string \<Rightarrow> 'a option) \<Rightarrow> disk_file \<Rightarrow> 'a log" where
  "log_of_file dec Absent = Missing"
| "log_of_file dec Denied = Unreadable"
| "log_of_file dec (Content s) = Lines (map (classify dec) (file_lines s))"

text \<open>Loading the bytes is loading the lines.\<close>

lemma scan_lines_consume:
  "scan_lines dec consume n s x = consume_lines consume n (map (classify dec) (file_lines s)) x"
proof (induction dec consume n s x rule: scan_lines.induct)
  case (1 dec consume n s x)
  show ?case
    using 1 by (subst scan_lines.simps, subst file_lines.simps) (auto simp: classify_def [of dec "first_line s"] split: option.split)
qed

theorem load_file_lines: "load_file dec consume disk x = loadJSONLines consume (log_of_file dec disk) x"
  by (cases disk) (simp_all add: scan_lines_consume)

text \<open>A file whose last line is complete.\<close>

fun complete_file :: "disk_file \<Rightarrow> bool" where
  "complete_file (Content s) \<longleftrightarrow> s = [] \<or> last s = CHR 0x0A"
| "complete_file _ \<longleftrightarrow> True"

lemma first_line_append: "one_line l \<Longrightarrow> first_line (l @ CHR 0x0A # s) = l \<and> later_lines (l @ CHR 0x0A # s) = s"
  by (induction l) (auto simp: first_line_def later_lines_def)

lemma file_lines_line: "one_line l \<Longrightarrow> file_lines (l @ CHR 0x0A # s) = l # file_lines s"
  by (subst file_lines.simps) (simp add: first_line_append)

lemma file_lines_append:
  assumes "s = [] \<or> last s = CHR 0x0A"
  shows "file_lines (s @ t) = file_lines s @ file_lines t"
  using assms
proof (induction s rule: file_lines.induct)
  case (1 s)
  show ?case
  proof (cases "s = []")
    case False
    then have "CHR 0x0A \<in> set s" using 1 by (metis last_in_set)
    then obtain l r where s: "s = l @ CHR 0x0A # r" "one_line l" by (metis split_list_first)
    then have r: "first_line s = l" "later_lines s = r" by (simp_all add: first_line_append)
    have "r = [] \<or> last r = CHR 0x0A" using 1(2) False s by (auto split: if_splits)
    then have "file_lines (r @ t) = file_lines r @ file_lines t" using 1(1) False r by simp
    then show ?thesis using s(2) by (simp add: s(1) file_lines_line)
  qed simp
qed

subsection \<open>Saving and loading\<close>

text \<open>What the store relies on: the text of a value is one line that decodes to the value, up to the order in which its
  maps are kept.\<close>

locale line_codec =
  fixes enc :: "'a \<Rightarrow> string" and dec :: "string \<Rightarrow> 'a option" and canon :: "'a \<Rightarrow> 'a" and ok :: "'a \<Rightarrow> bool"
  assumes decode: "ok v \<Longrightarrow> dec (enc v) = Some (canon v)"
    and line: "ok v \<Longrightarrow> one_line (enc v)"
    and ends: "ok v \<Longrightarrow> enc v \<noteq> [] \<and> last (enc v) \<noteq> CHR 0x0D"
begin

lemma classify_enc: "ok v \<Longrightarrow> length (enc v) < max_token \<Longrightarrow> classify dec (enc v) = Line (canon v)"
  by (simp add: classify_def dropCR_def decode ends)

lemma append_complete:
  assumes "ok v" and "complete_file disk" and "disk \<noteq> Denied" and "r = Written \<or> r = NotClosed"
  shows "complete_file (snd (append_bytes r (enc v @ [CHR 0x0A]) disk))"
  using assms by (cases disk) (auto simp: append_bytes_def)

lemma append_refines:
  assumes "ok v" and "length (enc v) < max_token" and "complete_file disk" and "disk \<noteq> Denied" and "r = Written \<or> r = NotClosed"
  shows "log_of_file dec (snd (append_bytes r (enc v @ [CHR 0x0A]) disk)) = snd (appendJSONLine True (canon v) (log_of_file dec disk))"
proof -
  have l: "file_lines (enc v @ [CHR 0x0A]) = [enc v]"
    using file_lines_line [OF line [OF assms(1)], of "[]"] by simp
  then have "file_lines (s @ enc v @ [CHR 0x0A]) = file_lines s @ [enc v]" if "disk = Content s" for s
    using file_lines_append [of s "enc v @ [CHR 0x0A]"] assms(3) that by simp
  with assms(4,5) l show ?thesis
    by (cases disk; elim disjE) (simp_all add: append_bytes_def classify_enc [OF assms(1,2)])
qed

lemma append_nothing:
  assumes "complete_file disk" and "r = NotOpened \<or> r = Stopped 0"
  shows "complete_file (snd (append_bytes r l disk)) \<and>
    load_file dec consume (snd (append_bytes r l disk)) x = load_file dec consume disk x"
  using assms by (cases disk) (auto simp: append_bytes_def scan_lines.simps [of _ _ _ "[]"])

text \<open>Saves one after the other, each with its fate; which of them are in the file afterwards.\<close>

lemma saves_load:
  assumes "\<And>v r. (v, r) \<in> set ws \<Longrightarrow> ok v \<and> length (enc v) < max_token \<and> r \<in> {NotOpened, Stopped 0, NotClosed, Written}"
    and "complete_file disk" and "disk \<noteq> Denied" and "load_file dec consume disk x = Inr y"
  shows "load_file dec consume (foldl (\<lambda>d (v, r). snd (append_bytes r (enc v @ [CHR 0x0A]) d)) disk ws) x =
    Inr (foldl (\<lambda>y v. consume (canon v) y) y (map fst (filter (\<lambda>(v, r). r = NotClosed \<or> r = Written) ws)))"
  using assms
proof (induction ws arbitrary: disk y)
  case (Cons w ws)
  obtain v r where w: "w = (v, r)" by (cases w)
  have vr: "ok v" "length (enc v) < max_token" "r \<in> {NotOpened, Stopped 0, NotClosed, Written}"
    using Cons.prems(1) [of v r] by (simp_all add: w)
  let ?disk = "snd (append_bytes r (enc v @ [CHR 0x0A]) disk)"
  have ws: "ok v' \<and> length (enc v') < max_token \<and> r' \<in> {NotOpened, Stopped 0, NotClosed, Written}" if "(v', r') \<in> set ws" for v' r'
    using Cons.prems(1) [of v' r'] that by simp
  have d: "?disk \<noteq> Denied" using Cons.prems(3) by (cases disk; cases r) (auto simp: append_bytes_def)
  show ?case
  proof (cases "r = Written \<or> r = NotClosed")
    case True
    obtain l where l: "appendJSONLine True (canon v) (log_of_file dec disk) = (True, l)"
      by (cases "log_of_file dec disk") auto
    then have "log_of_file dec ?disk = l" using append_refines [OF vr(1,2) Cons.prems(2,3) True] by simp
    then have "load_file dec consume ?disk x = Inr (consume (canon v) y)"
      using load_append [OF Cons.prems(4) [unfolded load_file_lines] l] by (simp add: load_file_lines)
    from Cons.IH [OF ws append_complete [OF vr(1) Cons.prems(2,3) True] d this] show ?thesis
      using True by (auto simp: w)
  next
    case False
    then have "r = NotOpened \<or> r = Stopped 0" using vr(3) by auto
    note n = append_nothing [OF Cons.prems(2) this, of "enc v @ [CHR 0x0A]" consume x]
    then show ?thesis using Cons.IH [OF ws _ d, of y] Cons.prems(4) False by (simp add: w)
  qed
qed simp

end

subsection \<open>The decision log\<close>

definition canonical_decision :: "route_decision \<Rightarrow> route_decision" where
  "canonical_decision d = d\<lparr>d_Predictions := in_key_order (d_Predictions d)\<rparr>"

lemma encode_decision_ends:
  "\<exists>m. encode_decision html fmt d = CHR 0x7B # m @ [CHR 0x7D]"
  by (simp add: encode_decision_def decision_tree_def marshal_struct_def)

interpretation decisions: line_codec "encode_decision False fmt" decode_decision canonical_decision "writable_decision fmt" for fmt
proof
  fix d assume "writable_decision fmt d"
  then show "decode_decision (encode_decision False fmt d) = Some (canonical_decision d)" "one_line (encode_decision False fmt d)"
    using decision_text [of fmt d False] write_json_line [OF decision_literals]
    by (simp_all add: canonical_decision_def encode_decision_def)
next
  fix d show "encode_decision False fmt d \<noteq> [] \<and> last (encode_decision False fmt d) \<noteq> CHR 0x0D"
    using encode_decision_ends [of False fmt d] by auto
qed

definition load_decisions :: "disk_file \<Rightarrow> load_error + route_decision gomap" where
  "load_decisions disk = load_file decode_decision (\<lambda>d m. AList.update (d_ID d) d m) disk []"

definition save_decision :: "(float64 \<Rightarrow> string) \<Rightarrow> write_result \<Rightarrow> route_decision \<Rightarrow> disk_file \<Rightarrow> bool \<times> disk_file" where
  "save_decision fmt r d disk = append_bytes r (encode_decision False fmt d @ [CHR 0x0A]) disk"

lemma fold_decisions_last:
  "map_of (foldl (\<lambda>m d. AList.update (d_ID d) d m) m0 ds) i =
     (case find (\<lambda>d. d_ID d = i) (rev ds) of Some d \<Rightarrow> Some d | None \<Rightarrow> map_of m0 i)"
  by (induction ds rule: rev_induct) (simp_all add: gomap_simps)

lemma find_canonical: "find (\<lambda>d. d_ID d = i) (map canonical_decision ds) = map_option canonical_decision (find (\<lambda>d. d_ID d = i) ds)"
  by (induction ds) (simp_all add: canonical_decision_def)


lemma text_decision_short: "length (encode_decision False sample_float_text text_decision) < max_token"
proof -
  have "length (encode_decision False sample_float_text text_decision) = 741" by code_simp
  then show ?thesis by (simp add: max_token_def)
qed


subsection \<open>Writes that stop, and long lines\<close>

lemma consume_bad: "Bad \<in> set ls \<or> TooLong \<in> set ls \<Longrightarrow> \<exists>e. consume_lines f n ls s = Inl e"
  by (induction f n ls s rule: consume_lines.induct) auto

lemma load_bad_line:
  assumes "one_line l" and "classify dec l = Bad \<or> classify dec l = TooLong" and "complete_file disk" and "disk \<noteq> Denied"
  shows "\<exists>e. load_file dec f (snd (append_bytes Written (l @ [CHR 0x0A]) disk)) x = Inl e"
proof -
  define content where "content = (case disk of Content c \<Rightarrow> c | _ \<Rightarrow> [])"
  have c: "content = [] \<or> last content = CHR 0x0A" using assms(3) by (cases disk) (auto simp: content_def)
  have "append_bytes Written (l @ [CHR 0x0A]) disk = (True, Content (content @ l @ [CHR 0x0A]))"
    using assms(4) by (simp add: append_bytes_def content_def)
  moreover have "file_lines (content @ l @ [CHR 0x0A]) = file_lines content @ [l]"
    using file_lines_append [OF c, of "l @ [CHR 0x0A]"] file_lines_line [OF assms(1), of "[]"] by simp
  moreover have "\<exists>e. consume_lines f 0 (map (classify dec) (file_lines content @ [l])) x = Inl e"
    using assms(2) by (intro consume_bad) auto
  ultimately show ?thesis by (simp add: scan_lines_consume)
qed

text \<open>After an object, anything but white space is an error.\<close>

lemma json_value_object:
  assumes "nesting (JsObj ms) \<le> max_nesting" and "literals (JsObj ms)" and "\<not> is_ws c"
  shows "json_value (write_json html (JsObj ms) @ c # q) = None"
proof -
  obtain d where d: "max_nesting = Suc d" by (simp add: max_nesting_def numeral_eq_Suc)
  have "stands d (write_json html t) (value_of html t)" if "(k, t) \<in> set ms" for k t
  proof -
    have l: "literals t" using assms(2) that by (auto simp: list_all_iff)
    have "nesting t \<le> Max (insert 0 ((\<lambda>(k, t). nesting t) ` set ms))" by (rule Max_ge) (use that in force)+
    then have "nesting t \<le> d" using assms(1) d by simp
    then show ?thesis using parse_write [OF _ _ l] write_json_hd [OF l] by (simp add: stands_def)
  qed
  then have "list_all (\<lambda>(k, t, v). stands d t v) (map (\<lambda>(k, t). (k, write_json html t, value_of html t)) ms)"
    by (auto simp: list_all_iff)
  from parse_object_text [OF this, of html "c # q"]
  have "\<exists>v. parse_value max_nesting (write_json html (JsObj ms) @ c # q) = Some (v, c # q)"
    by (simp add: d comp_def case_prod_unfold)
  moreover have "skip_ws (write_json html (JsObj ms) @ c # q) = write_json html (JsObj ms) @ c # q" by (simp add: is_ws_def)
  ultimately show ?thesis using assms(3) by (auto simp: json_value_def simp del: write_json.simps)
qed

text \<open>C27: A save that fails after its whole line but for the line feed is on disk blocks the next start, whatever is
  saved later: the next save is acknowledged and its line is joined to the unfinished one, which then does
  not decode, so that the log cannot be loaded any more.\<close>

theorem torn_line_blocks_start:
  assumes "writable_decision fmt d" and "writable_decision fmt e" and "complete_file disk" and "disk \<noteq> Denied"
  shows "case save_decision fmt (Stopped (length (encode_decision False fmt d))) d disk of (ok1, disk1) \<Rightarrow>
    case save_decision fmt Written e disk1 of (ok2, disk2) \<Rightarrow> \<not> ok1 \<and> ok2 \<and> (\<exists>err. load_decisions disk2 = Inl err)"
proof -
  let ?l = "encode_decision False fmt d @ encode_decision False fmt e"
  obtain q where q: "encode_decision False fmt e = CHR 0x7B # q" using encode_decision_ends by blast
  obtain ms where ms: "decision_tree fmt d = JsObj ms" by (simp add: decision_tree_def marshal_struct_def)
  have small: "nesting (decision_tree fmt d) \<le> max_nesting" using decision_nesting [of fmt d] by (simp add: max_nesting_def)
  have "json_value ?l = None"
    unfolding q unfolding encode_decision_def ms
    by (rule json_value_object) (use small decision_literals [OF assms(1)] in \<open>simp_all add: ms is_ws_def del: nesting.simps\<close>)
  then have "decode_decision ?l = None" by (simp add: decode_decision_def)
  moreover have "dropCR ?l = ?l" using decisions.ends [OF assms(2)] by (simp add: dropCR_def)
  ultimately have bad: "classify decode_decision ?l = Bad \<or> classify decode_decision ?l = TooLong"
    using q by (simp add: classify_def)
  have one: "one_line ?l" using decisions.line assms(1,2) by simp
  define disk1 where "disk1 = snd (append_bytes Written (?l @ [CHR 0x0A]) disk)"
  have "\<exists>err. load_decisions disk1 = Inl err"
    unfolding load_decisions_def disk1_def by (rule load_bad_line [OF one bad assms(3,4)])
  moreover have "save_decision fmt Written e (snd (save_decision fmt (Stopped (length (encode_decision False fmt d))) d disk)) = (True, disk1)"
    "\<not> fst (save_decision fmt (Stopped (length (encode_decision False fmt d))) d disk)"
    using assms(4) by (auto simp: save_decision_def append_bytes_def disk1_def Let_def)
  ultimately show ?thesis
    by (cases "save_decision fmt (Stopped (length (encode_decision False fmt d))) d disk") simp
qed

theorem torn_line_blocks_start_witness:
  "\<exists>disk err. save_decision sample_float_text Written text_decision
       (snd (save_decision sample_float_text (Stopped (length (encode_decision False sample_float_text text_decision))) text_decision Absent)) =
     (True, disk) \<and> load_decisions disk = Inl err"
  using torn_line_blocks_start [OF text_decision_writable text_decision_writable, of Absent]
  by (auto split: prod.splits)

text \<open>A request whose trace identifier is \<open>n\<close> line separators: three bytes each in the request, six in the log.\<close>

definition separators :: "nat \<Rightarrow> string" where
  "separators n = concat (replicate n [CHR 0xE2, CHR 0x80, CHR 0xA8])"

definition separator_routing :: "nat \<Rightarrow> string" where
  "separator_routing n = ''{'' @ json_string ''trace_id'' @ '':'' @ CHR 0x22 # separators n @ [CHR 0x22] @ ''}''"

definition separator_request :: "nat \<Rightarrow> string" where
  "separator_request n =
     ''{'' @ json_string ''messages'' @ '':[{}],'' @ json_string ''routing'' @ '':'' @ separator_routing n @ ''}''"

lemma separator_bytes: "byte (CHR 0xE2) = 226" "byte (CHR 0x80) = 128" "byte (CHR 0xA8) = 168"
  by (simp_all add: byte_def)

lemma decode_separator: "decode_rune (CHR 0xE2 # CHR 0x80 # CHR 0xA8 # s) = (0x2028, 3)"
  by (simp add: byte_in_def separator_bytes Let_def)

lemma encode_separator: "encode_rune 0x2028 = [CHR 0xE2, CHR 0x80, CHR 0xA8]"
proof -
  have "char_of (226 :: nat) = CHR 0xE2" "char_of (128 :: nat) = CHR 0x80" "char_of (168 :: nat) = CHR 0xA8"
    by (simp_all add: char_of_eq_iff)
  then show ?thesis by (simp add: encode_rune.simps is_surrogate_def)
qed

lemma scan_separators: "scan_string (separators n @ CHR 0x22 # r) = Some (separators n, r)"
proof (induction n)
  case (Suc n)
  have "scan_string (CHR 0xE2 # CHR 0x80 # CHR 0xA8 # separators n @ CHR 0x22 # r) =
      Some (CHR 0xE2 # CHR 0x80 # CHR 0xA8 # separators n, r)"
    using Suc by (subst scan_string.simps) (simp add: decode_separator encode_separator separator_bytes del: decode_rune.simps)
  then show ?case by (simp add: separators_def)
qed (simp add: separators_def scan_string.simps)

lemma length_separators: "length (separators n) = 3 * n"
  by (induction n) (simp_all add: separators_def)

lemma length_encode_separators: "length (encode_chars html (separators n)) = 6 * n"
proof (induction n)
  case (Suc n)
  have "encode_chars html (CHR 0xE2 # CHR 0x80 # CHR 0xA8 # separators n) =
      unicode_escape 0x2028 @ encode_chars html (separators n)"
    by (subst encode_chars.simps) (simp add: decode_separator separator_bytes del: decode_rune.simps)
  then show ?case using Suc by (simp add: separators_def unicode_escape_def)
qed (simp add: separators_def)

lemma separators_valid: "to_valid (separators n) = separators n"
  using scan_separators [of n "[]"] by (rule scan_string_valid)

lemma parse_separators: "parse_value d (CHR 0x22 # separators n @ CHR 0x22 # r) = Some (VStr (separators n), r)"
  by (simp add: parse_value.simps [of d "CHR 0x22 # separators n @ CHR 0x22 # r"] scan_separators)

lemma parse_separator_routing:
  "parse_value (Suc d) (separator_routing n @ r) =
    Some (VObj [(''trace_id'', CHR 0x22 # separators n @ [CHR 0x22], VStr (separators n))], r)"
proof -
  have "to_valid ''trace_id'' = ''trace_id''" by (simp add: to_valid_ascii byte_def)
  moreover have "stands d (CHR 0x22 # separators n @ [CHR 0x22]) (VStr (separators n))"
    by (simp add: stands_def is_ws_def parse_separators)
  ultimately show ?thesis
    using parse_object_text [of d "[(''trace_id'', CHR 0x22 # separators n @ [CHR 0x22], VStr (separators n))]" True r]
    by (simp add: separator_routing_def)
qed

lemma parse_separator_request:
  "first_value (separator_request n) =
    Some (VObj [(''messages'', ''[{}]'', VArr [(''{}'', VObj [])]),
      (''routing'', separator_routing n, VObj [(''trace_id'', CHR 0x22 # separators n @ [CHR 0x22], VStr (separators n))])])"
proof -
  define d where "d = (9998 :: nat)"
  have d: "max_nesting = Suc (Suc d)" by (simp add: d_def max_nesting_def)
  have names: "to_valid ''messages'' = ''messages''" "to_valid ''routing'' = ''routing''" by (simp_all add: to_valid_ascii byte_def)
  have "stands (Suc d) (write_json True (JsArr [JsObj []])) (value_of True (JsArr [JsObj []]))"
    unfolding stands_def by (intro conjI allI impI parse_write) (simp_all add: is_ws_def d_def)
  then have m: "stands (Suc d) ''[{}]'' (VArr [(''{}'', VObj [])])" by simp
  have "separator_routing n \<noteq> [] \<and> \<not> is_ws (hd (separator_routing n))" by (simp add: separator_routing_def is_ws_def)
  then have r: "stands (Suc d) (separator_routing n)
      (VObj [(''trace_id'', CHR 0x22 # separators n @ [CHR 0x22], VStr (separators n))])"
    by (simp add: stands_def parse_separator_routing)
  have "parse_value max_nesting (separator_request n) =
      Some (VObj [(''messages'', ''[{}]'', VArr [(''{}'', VObj [])]),
        (''routing'', separator_routing n, VObj [(''trace_id'', CHR 0x22 # separators n @ [CHR 0x22], VStr (separators n))])], [])"
    using parse_object_text [of "Suc d" "[(''messages'', ''[{}]'', VArr [(''{}'', VObj [])]),
        (''routing'', separator_routing n, VObj [(''trace_id'', CHR 0x22 # separators n @ [CHR 0x22], VStr (separators n))])]" True "[]"] m r
    by (simp add: d names separator_request_def)
  moreover have "skip_ws (separator_request n) = separator_request n" by (simp add: separator_request_def is_ws_def)
  ultimately show ?thesis by (simp add: first_value_def)
qed

lemma separator_parsed:
  assumes "n \<le> 10000000"
  shows "\<exists>r. ParseRequest (separator_request n) = Inr r \<and> md_TraceID (rq_Metadata r) = separators n \<and>
    int (length (separator_request n)) \<le> maxRequestBytes"
proof -
  have "length (separator_request n) = 3 * n + length (separator_request 0)"
    by (simp add: separator_request_def separator_routing_def length_separators)
  moreover have "length (separator_request 0) = 43" by code_simp
  ultimately have len: "int (length (separator_request n)) \<le> maxRequestBytes" "separator_request n \<noteq> []"
    using assms by (auto simp: maxRequestBytes_def separator_request_def)
  have raw: "Option.bind (first_value (separator_request n)) into_raw_map =
      Some [(''messages'', ''[{}]''), (''routing'', separator_routing n)]"
    by (simp add: parse_separator_request into_raw_map_def)
  have messages: "Option.bind (json_value ''[{}]'') into_raw_map_slice = Some [[]]" by code_simp
  obtain e where e: "max_nesting = Suc e" by (simp add: max_nesting_def numeral_eq_Suc)
  have "skip_ws (separator_routing n) = separator_routing n" by (simp add: separator_routing_def is_ws_def)
  then have routing: "json_value (separator_routing n) =
      Some (VObj [(''trace_id'', CHR 0x22 # separators n @ [CHR 0x22], VStr (separators n))])"
    using parse_separator_routing [of e n "[]"] by (simp add: json_value_def e)
  have md: "into_metadata zero_metadata (VObj [(''trace_id'', CHR 0x22 # separators n @ [CHR 0x22], VStr (separators n))]) =
      Some (zero_metadata\<lparr>md_TraceID := separators n\<rparr>)"
    by (simp add: into_metadata_def metadata_field_def into_string_def)
  have "\<exists>r. ParseRequest (separator_request n) = Inr r \<and> rq_Metadata r = metadata_defaults (zero_metadata\<lparr>md_TraceID := separators n\<rparr>)"
    using len by (simp add: ParseRequest_def raw messages routing md)
  moreover have "md_TraceID (metadata_defaults md) = md_TraceID md" for md by (simp add: metadata_defaults_def Let_def)
  ultimately show ?thesis using len by auto
qed

lemma written_nth: "i < length fs \<Longrightarrow> i < length vs \<Longrightarrow> vs ! i = Some t \<Longrightarrow> (fst (fs ! i), t) \<in> set (written fs vs)"
proof (induction fs vs arbitrary: i rule: written.induct)
  case (1 n f fs v vs)
  then show ?case by (cases i) (auto split: option.split)
qed auto

lemma length_comma_separated: "t \<in> set ts \<Longrightarrow> length t \<le> length (comma_separated ts)"
  by (induction ts rule: comma_separated.induct) auto

lemma length_trace: "length (encode_chars html (d_TraceID d)) \<le> length (encode_decision html fmt d)"
proof -
  obtain vs where vs: "decision_tree fmt d = marshal_struct decision_fields vs" "vs ! 3 = Some (JsStr (d_TraceID d))" "length vs = 32"
    by (simp add: decision_tree_def)
  have "length decision_fields = 32" by (simp add: decision_fields_def)
  then have "(fst (decision_fields ! 3), JsStr (d_TraceID d)) \<in> set (written decision_fields vs)"
    using vs(2,3) by (intro written_nth) simp_all
  then have "json_text html (fst (decision_fields ! 3)) @ CHR '':'' # write_json html (JsStr (d_TraceID d)) \<in>
      set (map (\<lambda>(k, t). json_text html k @ CHR '':'' # write_json html t) (written decision_fields vs))"
    by force
  from length_comma_separated [OF this] show ?thesis
    by (simp add: encode_decision_def vs(1) marshal_struct_def json_text_def)
qed


end
