(* ===== verification/PolicyText.thy ===== *)
theory PolicyText
  imports LogFile
begin

text \<open>
  What \<^verbatim>\<open>encoding/json\<close> writes for a policy, and the round trip: the text of a policy decodes to the policy, in the
  policy log and as the payload of a publication.
\<close>

subsection \<open>Writing a policy\<close>

text \<open>A slice or map that is not omitted is \<open>null\<close> when it is nil. Whether an empty one is nil is not in the model: \<open>nil\<close> says it.\<close>

definition unless_nil :: "bool \<Rightarrow> bool \<Rightarrow> jtree \<Rightarrow> jtree" where
  "unless_nil nil absent t = (if nil \<and> absent then JsNull else t)"

definition map_tree :: "('a \<Rightarrow> jtree) \<Rightarrow> 'a gomap \<Rightarrow> jtree" where
  "map_tree f m = JsObj (map (\<lambda>(k, x). (k, f x)) (in_key_order m))"

definition score_tree :: "(float64 \<Rightarrow> string) \<Rightarrow> model_score \<Rightarrow> jtree" where
  "score_tree fmt s = marshal_struct score_fields [
     Some (JsNum (fmt (sc_SuccessRate s))),
     Some (JsNum (fmt (sc_Uncertainty s))),
     Some (JsInt (sc_Samples s)),
     omitempty (sc_Weights s = []) (map_tree (\<lambda>x. JsNum (fmt x)) (sc_Weights s)),
     omitempty (sc_Bias s = Fin 0) (JsNum (fmt (sc_Bias s)))]"

text \<open>\<open>zt\<close> and \<open>zc\<close> are the zones of the two times, in minutes east of UTC.\<close>

definition snapshot_tree :: "bool \<Rightarrow> (float64 \<Rightarrow> string) \<Rightarrow> int \<Rightarrow> snapshot \<Rightarrow> jtree" where
  "snapshot_tree nil fmt zt s = marshal_struct snapshot_fields [
     Some (JsStr (sn_Version s)),
     Some (JsStr (sn_CatalogVersion s)),
     Some (JsStr (format_time zt (sn_TrainedAt s))),
     Some (unless_nil nil ((sn_Global s) = []) (map_tree (score_tree fmt) (sn_Global s))),
     omitempty (sn_ByWorkflow s = []) (map_tree (\<lambda>m. unless_nil nil (m = []) (map_tree (score_tree fmt) m)) (sn_ByWorkflow s))]"

definition constraints_tree :: "(float64 \<Rightarrow> string) \<Rightarrow> policy_constraints \<Rightarrow> jtree" where
  "constraints_tree fmt c = marshal_struct constraints_fields [
     omitempty (pc_AllowedRegions c = []) (JsArr (map JsStr (pc_AllowedRegions c))),
     omitempty (pc_RequiredPrivacy c = []) (JsStr (pc_RequiredPrivacy c)),
     omitempty (pc_MaxEstimatedCostUSD c = Fin 0) (JsNum (fmt (pc_MaxEstimatedCostUSD c))),
     omitempty (pc_MaxP95LatencyMS c = 0) (JsInt (pc_MaxP95LatencyMS c))]"

definition policy_tree :: "bool \<Rightarrow> (float64 \<Rightarrow> string) \<Rightarrow> int \<Rightarrow> int \<Rightarrow> policy \<Rightarrow> jtree" where
  "policy_tree nil fmt zt zc p = marshal_struct policy_fields [
     Some (JsStr (p_ID p)),
     Some (JsStr (p_TenantID p)),
     Some (JsStr (p_Version p)),
     Some (JsStr (p_Mode p)),
     Some (JsStr (p_IncumbentModel p)),
     Some (unless_nil nil ((p_CandidateModels p) = []) (JsArr (map JsStr (p_CandidateModels p)))),
     omitempty (p_FallbackModels p = []) (JsArr (map JsStr (p_FallbackModels p))),
     Some (JsNum (fmt (p_QualityTolerance p))),
     Some (JsNum (fmt (p_ConfidenceZ p))),
     Some (JsInt (p_MinimumSamples p)),
     Some (JsNum (fmt (p_ControlPercent p))),
     Some (JsNum (fmt (p_CanaryPercent p))),
     Some (JsNum (fmt (p_ExplorationPercent p))),
     Some (JsNum (fmt (p_ShadowBudgetUSDPerDay p))),
     Some (JsStr (p_PrimaryOutcome p)),
     Some (constraints_tree fmt (p_Constraints p)),
     Some (snapshot_tree nil fmt zt (p_Snapshot p)),
     Some (JsBool (p_Drifted p)),
     Some (JsStr (format_time zc (p_CreatedAt p)))]"

definition encode_policy :: "bool \<Rightarrow> bool \<Rightarrow> (float64 \<Rightarrow> string) \<Rightarrow> int \<Rightarrow> int \<Rightarrow> policy \<Rightarrow> string" where
  "encode_policy html nil fmt zt zc p = write_json html (policy_tree nil fmt zt zc p)"

text \<open>\<^verbatim>\<open>json.Unmarshal\<close> of a line of the policy log.\<close>

definition unmarshal_policy :: "string \<Rightarrow> policy option" where
  "unmarshal_policy s = Option.bind (json_value s) (into_struct policy_fields zero_policy)"

subsection \<open>What can be written, and what is read back\<close>

definition valid_keys :: "'a gomap \<Rightarrow> bool" where
  "valid_keys m \<longleftrightarrow> wf_gomap m \<and> list_all (\<lambda>(k, _). to_valid k = k) m"

definition writable_score :: "(float64 \<Rightarrow> string) \<Rightarrow> model_score \<Rightarrow> bool" where
  "writable_score fmt s \<longleftrightarrow>
     list_all (float_text fmt) [sc_SuccessRate s, sc_Uncertainty s, sc_Bias s] \<and> is_int64 (sc_Samples s) \<and>
     valid_keys (sc_Weights s) \<and> list_all (\<lambda>(_, x). float_text fmt x) (sc_Weights s)"

definition writable_snapshot :: "(float64 \<Rightarrow> string) \<Rightarrow> int \<Rightarrow> snapshot \<Rightarrow> bool" where
  "writable_snapshot fmt zt s \<longleftrightarrow>
     valid_texts [sn_Version s, sn_CatalogVersion s] \<and> writable_time zt (sn_TrainedAt s) \<and>
     valid_keys (sn_Global s) \<and> list_all (\<lambda>(_, x). writable_score fmt x) (sn_Global s) \<and>
     valid_keys (sn_ByWorkflow s) \<and>
     list_all (\<lambda>(_, m). valid_keys m \<and> list_all (\<lambda>(_, x). writable_score fmt x) m) (sn_ByWorkflow s)"

definition writable_policy :: "(float64 \<Rightarrow> string) \<Rightarrow> int \<Rightarrow> int \<Rightarrow> policy \<Rightarrow> bool" where
  "writable_policy fmt zt zc p \<longleftrightarrow>
     valid_texts [p_ID p, p_TenantID p, p_Version p, p_Mode p, p_IncumbentModel p, p_PrimaryOutcome p,
       pc_RequiredPrivacy (p_Constraints p)] \<and>
     valid_texts (p_CandidateModels p) \<and> valid_texts (p_FallbackModels p) \<and> valid_texts (pc_AllowedRegions (p_Constraints p)) \<and>
     list_all (float_text fmt) [p_QualityTolerance p, p_ConfidenceZ p, p_ControlPercent p, p_CanaryPercent p,
       p_ExplorationPercent p, p_ShadowBudgetUSDPerDay p, pc_MaxEstimatedCostUSD (p_Constraints p)] \<and>
     is_int64 (p_MinimumSamples p) \<and> is_int64 (pc_MaxP95LatencyMS (p_Constraints p)) \<and>
     writable_snapshot fmt zt (p_Snapshot p) \<and> writable_time zc (p_CreatedAt p)"

text \<open>The same policy with every map in key order.\<close>

definition canonical_score :: "model_score \<Rightarrow> model_score" where
  "canonical_score s = s\<lparr>sc_Weights := in_key_order (sc_Weights s)\<rparr>"

definition canonical_scores :: "model_score gomap \<Rightarrow> model_score gomap" where
  "canonical_scores m = map (\<lambda>(k, x). (k, canonical_score x)) (in_key_order m)"

definition canonical_policy :: "policy \<Rightarrow> policy" where
  "canonical_policy p = p\<lparr>p_Snapshot := (p_Snapshot p)\<lparr>sn_Global := canonical_scores (sn_Global (p_Snapshot p)),
     sn_ByWorkflow := map (\<lambda>(k, m). (k, canonical_scores m)) (in_key_order (sn_ByWorkflow (p_Snapshot p)))\<rparr>\<rparr>"

subsection \<open>Round trip\<close>

lemma policy_field_names:
  "field_names_ok (map fst score_fields)" "field_names_ok (map fst snapshot_fields)" "field_names_ok (map fst constraints_fields)"
  "field_names_ok (map fst policy_fields)"
  by (rule field_names_okI; simp add: score_fields_def snapshot_fields_def constraints_fields_def policy_fields_def name_chars_def)+

lemmas policy_steps = into_struct_written [OF policy_field_names(1)] into_struct_written [OF policy_field_names(2)]
  into_struct_written [OF policy_field_names(3)] into_struct_written [OF policy_field_names(4)]

lemma into_map_tree:
  assumes "valid_keys m" and "\<And>k x. (k, x) \<in> set m \<Longrightarrow> into (value_of html (f x)) = Some (g x)"
  shows "into_map into [] (value_of html (map_tree f m)) = Some (map (\<lambda>(k, x). (k, g x)) (in_key_order m))"
  unfolding map_tree_def using assms by (intro into_map_written) (auto simp: valid_keys_def list_all_iff)

lemma in_key_order_Nil [simp]: "in_key_order [] = []"
  by (simp add: in_key_order_def insertionSort_def)

lemma into_score:
  assumes "writable_score fmt s"
  shows "into_struct score_fields zero_score (value_of html (score_tree fmt s)) = Some (canonical_score s)"
proof -
  have "into_map (into_float64 (Fin 0)) [] (value_of html (map_tree (\<lambda>x. JsNum (fmt x)) (sc_Weights s))) =
      Some (map (\<lambda>(k, x). (k, x)) (in_key_order (sc_Weights s)))"
    by (rule into_map_tree) (use assms in \<open>auto simp: writable_score_def list_all_iff into_float64_text\<close>)
  then have w: "into_map (into_float64 (Fin 0)) [] (value_of html (map_tree (\<lambda>x. JsNum (fmt x)) (sc_Weights s))) =
      Some (in_key_order (sc_Weights s))" by simp
  show ?thesis
    unfolding score_tree_def policy_steps(1)
    using assms
    by (simp add: score_fields_def zero_score_def writable_score_def canonical_score_def decode_steps w omitted_or_same)
qed

lemma into_scores:
  assumes "valid_keys m" and "list_all (\<lambda>(_, x). writable_score fmt x) m"
  shows "into_map (into_struct score_fields zero_score) [] (value_of html (unless_nil nil (m = []) (map_tree (score_tree fmt) m))) =
    Some (canonical_scores m)"
proof -
  have "into_map (into_struct score_fields zero_score) [] (value_of html (map_tree (score_tree fmt) m)) = Some (canonical_scores m)"
    unfolding canonical_scores_def by (rule into_map_tree) (use assms in \<open>auto simp: list_all_iff into_score\<close>)
  then show ?thesis by (simp add: unless_nil_def into_map_def canonical_scores_def)
qed

lemma into_snapshot:
  assumes "writable_snapshot fmt zt s"
  shows "into_struct snapshot_fields (p_Snapshot zero_policy) (value_of html (snapshot_tree nil fmt zt s)) =
    Some (s\<lparr>sn_Global := canonical_scores (sn_Global s),
      sn_ByWorkflow := map (\<lambda>(k, m). (k, canonical_scores m)) (in_key_order (sn_ByWorkflow s))\<rparr>)"
proof -
  define global where "global = unless_nil nil (sn_Global s = []) (map_tree (score_tree fmt) (sn_Global s))"
  have g: "into_map (into_struct score_fields zero_score) [] (value_of html global) = Some (canonical_scores (sn_Global s))"
    unfolding global_def using assms by (intro into_scores) (simp_all add: writable_snapshot_def)
  define flows where "flows = map_tree (\<lambda>m. unless_nil nil (m = []) (map_tree (score_tree fmt) m)) (sn_ByWorkflow s)"
  have f: "into_map (into_map (into_struct score_fields zero_score) []) [] (value_of html flows) =
      Some (map (\<lambda>(k, m). (k, canonical_scores m)) (in_key_order (sn_ByWorkflow s)))"
    unfolding flows_def
  proof (rule into_map_tree)
    fix k m assume "(k, m) \<in> set (sn_ByWorkflow s)"
    then show "into_map (into_struct score_fields zero_score) [] (value_of html (unless_nil nil (m = []) (map_tree (score_tree fmt) m))) =
        Some (canonical_scores m)"
      using assms by (intro into_scores) (auto simp: writable_snapshot_def list_all_iff)
  qed (use assms in \<open>simp add: writable_snapshot_def\<close>)
  show ?thesis
    unfolding snapshot_tree_def policy_steps(2) global_def [symmetric] flows_def [symmetric]
    using assms
    by (simp add: snapshot_fields_def zero_policy_def writable_snapshot_def decode_steps g f omitted_or_same)
qed

lemma into_slice_strings:
  "valid_texts xs \<Longrightarrow> into_slice into_string [] [] (value_of html (unless_nil nil (xs = []) (JsArr (map JsStr xs)))) = Some xs"
  using into_strings [of xs "[]" html] by (simp add: unless_nil_def into_slice_def)

lemma into_constraints:
  assumes "writable_policy fmt zt zc p"
  shows "into_struct constraints_fields (p_Constraints zero_policy) (value_of html (constraints_tree fmt (p_Constraints p))) =
    Some (p_Constraints p)"
proof -
  define regions where "regions = JsArr (map JsStr (pc_AllowedRegions (p_Constraints p)))"
  have r: "into_slice into_string [] [] (value_of html regions) = Some (pc_AllowedRegions (p_Constraints p))"
    unfolding regions_def using assms by (intro into_strings) (simp add: writable_policy_def)
  show ?thesis
    unfolding constraints_tree_def policy_steps(3) regions_def [symmetric]
    using assms
    by (simp add: constraints_fields_def zero_policy_def writable_policy_def decode_steps r omitted_or_same)
qed

lemma into_policy:
  assumes "writable_policy fmt zt zc p"
  shows "into_struct policy_fields zero_policy (value_of html (policy_tree nil fmt zt zc p)) = Some (canonical_policy p)"
proof -
  define candidates where "candidates = unless_nil nil (p_CandidateModels p = []) (JsArr (map JsStr (p_CandidateModels p)))"
  define fallbacks where "fallbacks = JsArr (map JsStr (p_FallbackModels p))"
  define snapshot where "snapshot = snapshot_tree nil fmt zt (p_Snapshot p)"
  define constraints where "constraints = constraints_tree fmt (p_Constraints p)"
  have c: "into_slice into_string [] [] (value_of html candidates) = Some (p_CandidateModels p)"
    unfolding candidates_def using assms by (intro into_slice_strings) (simp add: writable_policy_def)
  have f: "into_slice into_string [] [] (value_of html fallbacks) = Some (p_FallbackModels p)"
    unfolding fallbacks_def using assms by (intro into_strings) (simp add: writable_policy_def)
  have s: "into_struct snapshot_fields (p_Snapshot zero_policy) (value_of html snapshot) =
      Some ((p_Snapshot p)\<lparr>sn_Global := canonical_scores (sn_Global (p_Snapshot p)),
        sn_ByWorkflow := map (\<lambda>(k, m). (k, canonical_scores m)) (in_key_order (sn_ByWorkflow (p_Snapshot p)))\<rparr>)"
    unfolding snapshot_def using assms by (intro into_snapshot) (simp add: writable_policy_def)
  have k: "into_struct constraints_fields (p_Constraints zero_policy) (value_of html constraints) = Some (p_Constraints p)"
    unfolding constraints_def by (rule into_constraints [OF assms])
  show ?thesis
    unfolding policy_tree_def policy_steps(4) candidates_def [symmetric] fallbacks_def [symmetric] snapshot_def [symmetric]
      constraints_def [symmetric]
    using assms
    by (simp add: policy_fields_def zero_policy_def writable_policy_def decode_steps c f s [unfolded zero_policy_def, simplified]
        k [unfolded zero_policy_def, simplified] omitted_or_same canonical_policy_def)
qed

subsection \<open>The text of a policy\<close>

lemma float_literal: "float_text fmt x \<Longrightarrow> scan_number (fmt x) = Some (fmt x, [])"
  by (simp add: float_text_def)

lemma literals_map: "(\<And>k x. (k, x) \<in> set m \<Longrightarrow> literals (f x)) \<Longrightarrow> literals (map_tree f m)"
  proof -
  have "set (in_key_order m) = set m" unfolding in_key_order_def by (metis mset_insertionSort set_mset_mset)
  then show "(\<And>k x. (k, x) \<in> set m \<Longrightarrow> literals (f x)) \<Longrightarrow> literals (map_tree f m)"
    by (auto simp: map_tree_def list_all_iff)
qed

lemma literals_unless_nil: "literals t \<Longrightarrow> literals (unless_nil nil absent t)"
  by (simp add: unless_nil_def)

lemma nesting_map_tree: "(\<And>x. nesting (f x) \<le> n) \<Longrightarrow> nesting (map_tree f m) \<le> Suc n"
  unfolding map_tree_def by (rule nesting_map)

lemma nesting_unless_nil: "nesting t \<le> n \<Longrightarrow> nesting (unless_nil nil absent t) \<le> n"
  by (simp add: unless_nil_def)

lemma score_literals: "writable_score fmt s \<Longrightarrow> literals (score_tree fmt s)"
  unfolding score_tree_def
  by (intro literals_struct) (auto simp: writable_score_def float_literal list_all_iff intro!: literals_map)

lemma scores_literals: "list_all (\<lambda>(_, x). writable_score fmt x) m \<Longrightarrow> literals (unless_nil nil absent (map_tree (score_tree fmt) m))"
  by (intro literals_unless_nil literals_map score_literals) (auto simp: list_all_iff)

lemma snapshot_literals:
  assumes "writable_snapshot fmt zt s" shows "literals (snapshot_tree nil fmt zt s)"
proof -
  have "literals (unless_nil nil (sn_Global s = []) (map_tree (score_tree fmt) (sn_Global s)))"
    by (rule scores_literals) (use assms in \<open>simp add: writable_snapshot_def\<close>)
  moreover have "literals (map_tree (\<lambda>m. unless_nil nil (m = []) (map_tree (score_tree fmt) m)) (sn_ByWorkflow s))"
    by (rule literals_map, rule scores_literals) (use assms in \<open>auto simp: writable_snapshot_def list_all_iff\<close>)
  ultimately show ?thesis unfolding snapshot_tree_def by (intro literals_struct) simp
qed

lemma policy_literals:
  assumes "writable_policy fmt zt zc p" shows "literals (policy_tree nil fmt zt zc p)"
proof -
  have "literals (constraints_tree fmt (p_Constraints p))"
    unfolding constraints_tree_def using assms
    by (intro literals_struct) (auto simp: writable_policy_def float_literal list_all_iff)
  moreover have "literals (snapshot_tree nil fmt zt (p_Snapshot p))"
    by (rule snapshot_literals) (use assms in \<open>simp add: writable_policy_def\<close>)
  moreover have "literals (JsArr (map JsStr xs))" for xs by (simp add: list_all_iff)
  ultimately show ?thesis
    unfolding policy_tree_def using assms
    by (intro literals_struct) (simp add: writable_policy_def float_literal literals_unless_nil)
qed

lemma policy_nesting: "nesting (policy_tree nil fmt zt zc p) \<le> 6"
proof -
  have score: "nesting (score_tree fmt s) \<le> 2" for s
  proof -
    have "nesting (map_tree (\<lambda>x. JsNum (fmt x)) (sc_Weights s)) \<le> Suc 0" by (rule nesting_map_tree) simp
    then have "nesting (score_tree fmt s) \<le> Suc 1" unfolding score_tree_def by (intro nesting_struct) simp
    then show ?thesis by simp
  qed
  have scores: "nesting (unless_nil nil absent (map_tree (score_tree fmt) m)) \<le> 3" for absent m
    using nesting_map_tree [of "score_tree fmt", OF score] nesting_unless_nil by (simp add: numeral_3_eq_3 numeral_2_eq_2)
  have flows: "nesting (map_tree (\<lambda>m. unless_nil nil (m = []) (map_tree (score_tree fmt) m)) w) \<le> 4" for w
    using nesting_map_tree [of "\<lambda>m. unless_nil nil (m = []) (map_tree (score_tree fmt) m)", OF scores] by simp
  have snapshot: "nesting (snapshot_tree nil fmt zt s) \<le> 5" for s
  proof -
    have "nesting (unless_nil nil absent (map_tree (score_tree fmt) m)) \<le> 4" for absent m
      using scores [of absent m] by simp
    then have "nesting (snapshot_tree nil fmt zt s) \<le> Suc 4"
      unfolding snapshot_tree_def by (intro nesting_struct) (simp add: flows)
    then show ?thesis by simp
  qed
  have strings: "nesting (JsArr (map JsStr xs)) \<le> 5" for xs using nesting_strings [of xs] by simp
  have constraints: "nesting (constraints_tree fmt c) \<le> 5" for c
  proof -
    have "nesting (constraints_tree fmt c) \<le> Suc 1"
      unfolding constraints_tree_def using nesting_strings by (intro nesting_struct) (simp del: nesting.simps(1,2))
    then show ?thesis by simp
  qed
  have candidates: "nesting (unless_nil nil absent (JsArr (map JsStr xs))) \<le> 5" for absent xs
    by (rule nesting_unless_nil, rule strings)
  have "nesting (policy_tree nil fmt zt zc p) \<le> Suc 5"
    unfolding policy_tree_def
    by (intro nesting_struct) (use snapshot strings constraints candidates in \<open>simp del: nesting.simps(1,2)\<close>)
  then show ?thesis by simp
qed

lemma policy_text:
  assumes "writable_policy fmt zt zc p"
  shows "unmarshal_policy (encode_policy html nil fmt zt zc p) = Some (canonical_policy p)"
    and "unmarshal_policy (encode_policy html nil fmt zt zc p @ [CHR 0x0A]) = Some (canonical_policy p)"
    and "decode_policy (encode_policy html nil fmt zt zc p) = Some (canonical_policy p)"
proof -
  have "nesting (policy_tree nil fmt zt zc p) \<le> max_nesting" using policy_nesting [of nil fmt zt zc p] by (simp add: max_nesting_def)
  note read = json_value_write [OF this policy_literals [OF assms], of html]
  show "unmarshal_policy (encode_policy html nil fmt zt zc p) = Some (canonical_policy p)"
    "unmarshal_policy (encode_policy html nil fmt zt zc p @ [CHR 0x0A]) = Some (canonical_policy p)"
    "decode_policy (encode_policy html nil fmt zt zc p) = Some (canonical_policy p)"
    using read into_policy [OF assms] by (simp_all add: unmarshal_policy_def decode_policy_def encode_policy_def)
qed

text \<open>The policy read back answers every lookup in its maps as the policy written.\<close>

lemma map_of_values: "map_of (map (\<lambda>(k, x). (k, f x)) m) k = map_option f (map_of m k)"
  by (induction m) auto

lemma canonical_lookup:
  "valid_keys m \<Longrightarrow> map_of (canonical_scores m) k = map_option canonical_score (map_of m k)"
  by (simp add: canonical_scores_def map_of_values in_key_order_map(2) valid_keys_def)

text \<open>C28: A policy sent to the service as the text that the encoder writes - HTML escaped or not, its nil and empty
  slices and maps written as \<open>null\<close> or not, its times in any zone - is the policy that is decoded from the body; the
  same holds for the line of the policy log, with or without its line feed. The policy read back has its maps in key
  order and gives the same score for every model, globally and in every workflow.\<close>

theorem policy_text_roundtrip:
  assumes "writable_policy fmt zt zc p"
  shows "decode_policy (encode_policy html nil fmt zt zc p) = Some (canonical_policy p) \<and>
    unmarshal_policy (encode_policy html nil fmt zt zc p) = Some (canonical_policy p) \<and>
    unmarshal_policy (encode_policy html nil fmt zt zc p @ [CHR 0x0A]) = Some (canonical_policy p) \<and>
    map_of (sn_Global (p_Snapshot (canonical_policy p))) m = map_option canonical_score (map_of (sn_Global (p_Snapshot p)) m) \<and>
    map_of (sn_ByWorkflow (p_Snapshot (canonical_policy p))) w =
      map_option canonical_scores (map_of (sn_ByWorkflow (p_Snapshot p)) w)"
proof -
  have "valid_keys (sn_Global (p_Snapshot p))" "wf_gomap (sn_ByWorkflow (p_Snapshot p))"
    using assms by (simp_all add: writable_policy_def writable_snapshot_def valid_keys_def)
  then show ?thesis
    by (simp add: policy_text [OF assms] canonical_policy_def canonical_lookup map_of_values in_key_order_map(2))
qed

definition text_policy :: policy where
  "text_policy = zero_policy\<lparr>p_ID := ''policy'', p_TenantID := ''tenant'', p_Mode := ModeActive, p_CandidateModels := [''premium''],
     p_QualityTolerance := Fin (1 / 2), p_PrimaryOutcome := ''a < b'', p_CreatedAt := 63900000000123000000,
     p_Snapshot := (p_Snapshot zero_policy)\<lparr>sn_Version := ''1'', sn_TrainedAt := 63900000001000000000,
       sn_Global := [(''premium'', zero_score\<lparr>sc_SuccessRate := Fin (1 / 2), sc_Weights := [(''bias'', Fin (1 / 2))]\<rparr>)]\<rparr>\<rparr>"

lemma text_policy_writable: "writable_policy sample_float_text 0 0 text_policy"
proof -
  have "to_valid ''policy'' = ''policy''" "to_valid ''tenant'' = ''tenant''" "to_valid ''active'' = ''active''" "to_valid ''premium'' = ''premium''"
    "to_valid ''a < b'' = ''a < b''" "to_valid ''1'' = ''1''" "to_valid ''bias'' = ''bias''" by (simp_all add: to_valid_ascii byte_def)
  then show ?thesis
    by (simp add: writable_policy_def writable_snapshot_def writable_score_def text_policy_def zero_policy_def zero_score_def
        valid_keys_def writable_time_def sample_float_texts wf_gomap_def is_int64_def)
qed

theorem policy_text_roundtrip_witness:
  "decode_policy (encode_policy True True sample_float_text 0 0 text_policy) = Some text_policy"
proof -
  have "canonical_policy text_policy = text_policy"
    by (simp add: text_policy_def canonical_policy_def canonical_scores_def canonical_score_def zero_policy_def zero_score_def
        in_key_order_def insertionSort_def)
  then show ?thesis using policy_text_roundtrip [OF text_policy_writable, of True True] by simp
qed

subsection \<open>The policy log\<close>

lemma encode_policy_ends: "\<exists>m. encode_policy html nil fmt zt zc p = CHR 0x7B # m @ [CHR 0x7D]"
  by (simp add: encode_policy_def policy_tree_def marshal_struct_def)

interpretation policies: line_codec "encode_policy False nil fmt zt zc" unmarshal_policy canonical_policy "writable_policy fmt zt zc"
  for nil fmt zt zc
proof
  fix p assume "writable_policy fmt zt zc p"
  then show "unmarshal_policy (encode_policy False nil fmt zt zc p) = Some (canonical_policy p)"
      "one_line (encode_policy False nil fmt zt zc p)"
    using policy_text(1) [of fmt zt zc p False nil] write_json_line [OF policy_literals] by (simp_all add: encode_policy_def)
next
  fix p show "encode_policy False nil fmt zt zc p \<noteq> [] \<and> last (encode_policy False nil fmt zt zc p) \<noteq> CHR 0x0D"
    using encode_policy_ends [of False nil fmt zt zc p] by auto
qed

text \<open>The saves of policies that left a whole line are the policies the next process loads.\<close>

lemma saved_policies_reload:
  assumes "\<And>p r. (p, r) \<in> set ws \<Longrightarrow> writable_policy fmt zt zc p \<and> length (encode_policy False nil fmt zt zc p) < max_token \<and>
    r \<in> {NotOpened, Stopped 0, NotClosed, Written}"
  shows "load_file unmarshal_policy (\<lambda>p m. AList.update (p_ID p) p m)
      (foldl (\<lambda>disk (p, r). snd (append_bytes r (encode_policy False nil fmt zt zc p @ [CHR 0x0A]) disk)) Absent ws) [] =
    Inr (foldl (\<lambda>m p. AList.update (p_ID (canonical_policy p)) (canonical_policy p) m) []
      (map fst (filter (\<lambda>(_, r). r = NotClosed \<or> r = Written) ws)))"
  by (rule policies.saves_load) (use assms in auto)

end
