(* ===== verification/Startup.thy ===== *)
theory Startup
  imports Service Postgres PolicyText
begin

text \<open>
  The start of \<^verbatim>\<open>cmd/router/main.go\<close>: the configuration, decoded from its text, the store that \<^verbatim>\<open>DATABASE_URL\<close>
  selects, read from the bytes of its logs, the persisted policies and the server on them, with every exit before the
  listener as an error.
\<close>

subsection \<open>NewPostgresStore\<close>

datatype postgres_error = ParseDatabaseURL | ConnectPostgres

text \<open>\<open>parse\<close> is \<^verbatim>\<open>pgx.ParseConfig\<close>; \<open>reach\<close> is the database a successful ping finds.\<close>

definition NewPostgresStore ::
  "(string \<Rightarrow> 'c option) \<Rightarrow> ('c \<Rightarrow> postgres_store option) \<Rightarrow> string \<Rightarrow> postgres_error + postgres_store" where
  "NewPostgresStore parse reach databaseURL =
     (case parse databaseURL of
        None \<Rightarrow> Inl ParseDatabaseURL
      | Some c \<Rightarrow> (case reach c of None \<Rightarrow> Inl ConnectPostgres | Some db \<Rightarrow> Inr db))"

subsection \<open>NewFileStore on the files\<close>

text \<open>\<^verbatim>\<open>json.Unmarshal\<close> of a line of the outcome log.\<close>

definition unmarshal_outcome :: "string \<Rightarrow> outcome option" where
  "unmarshal_outcome s = Option.bind (json_value s) (into_struct outcome_fields zero_outcome)"

text \<open>\<open>files\<close> gives what is in the data directory under a name; the lines of the three logs are read from the bytes.\<close>

definition open_files :: "(string \<Rightarrow> disk_file) \<Rightarrow> string \<Rightarrow> bool \<Rightarrow> store_error + file_store" where
  "open_files files directory mkdir_ok =
     NewFileStore directory mkdir_ok (log_of_file decode_decision (files ''decisions.jsonl''))
       (log_of_file unmarshal_outcome (files ''outcomes.jsonl'')) (log_of_file unmarshal_policy (files ''policies.jsonl''))"

subsection \<open>main\<close>

datatype start_error =
    LoadConfiguration config_error
  | OpenPostgres postgres_error
  | OpenFiles store_error
  | LoadPersistedPolicies

datatype running = OnPostgres "postgres_store server" | OnFiles "file_store server"

text \<open>What the process finds: its environment, its files, and the database. \<open>pe_files\<close> takes a directory and a name in it.\<close>

record 'c process_env =
  pe_getenv :: "string \<Rightarrow> string"
  pe_read_file :: "string \<Rightarrow> string option"
  pe_order :: "policy \<Rightarrow> string list"
  pe_parse :: "string \<Rightarrow> 'c option"
  pe_reach :: "'c \<Rightarrow> postgres_store option"
  pe_query_ok :: bool
  pe_by_id :: "policy_row gomap \<Rightarrow> policy_row gomap"
  pe_mkdir_ok :: bool
  pe_files :: "string \<Rightarrow> string \<Rightarrow> disk_file"
  pe_pdqsort :: policy_sorter
  pe_visit :: "policy list \<Rightarrow> policy list"

definition config_path :: "(string \<Rightarrow> string) \<Rightarrow> string" where
  "config_path getenv =
    (let path = getenv ''OUTCOME_ROUTER_CONFIG'' in if path = [] then ''config/demo.json'' else path)"

definition start_on_postgres ::
  "config \<Rightarrow> policy list \<Rightarrow> postgres_store \<Rightarrow> postgres_store server" where
  "start_on_postgres cfg persistedPolicies db =
     NewServer (NewRegistry (cf_Catalog cfg) (cf_Policies cfg @ persistedPolicies)) NewClient_circuits db"

definition main_start :: "'c process_env \<Rightarrow> start_error + config \<times> running" where
  "main_start env =
    (case Load (pe_read_file env) decode_config (pe_getenv env) (pe_order env) (config_path (pe_getenv env)) of
       Inl e \<Rightarrow> Inl (LoadConfiguration e)
     | Inr cfg \<Rightarrow>
         (let databaseURL = pe_getenv env ''DATABASE_URL'' in
          if databaseURL \<noteq> []
          then (case NewPostgresStore (pe_parse env) (pe_reach env) databaseURL of
                  Inl e \<Rightarrow> Inl (OpenPostgres e)
                | Inr db \<Rightarrow>
                    (case PG_LoadPolicies (pe_query_ok env) (pe_by_id env) db of
                       None \<Rightarrow> Inl LoadPersistedPolicies
                     | Some persistedPolicies \<Rightarrow> Inr (cfg, OnPostgres (start_on_postgres cfg persistedPolicies db))))
          else (case open_files (pe_files env (cf_DataDirectory cfg)) (cf_DataDirectory cfg) (pe_mkdir_ok env) of
                  Inl e \<Rightarrow> Inl (OpenFiles e)
                | Inr store \<Rightarrow> Inr (cfg, OnFiles (start_server cfg (pe_pdqsort env) (pe_visit env) store)))))"

subsection \<open>What a started process serves\<close>

fun registry_of :: "running \<Rightarrow> registry" where
  "registry_of (OnPostgres sv) = sv_Registry sv"
| "registry_of (OnFiles sv) = sv_Registry sv"

fun spend_of :: "running \<Rightarrow> float64 gomap \<times> circuits" where
  "spend_of (OnPostgres sv) = (sv_ShadowSpend sv, sv_Circuits sv)"
| "spend_of (OnFiles sv) = (sv_ShadowSpend sv, sv_Circuits sv)"

text \<open>The registry's policies are the last of each identifier among the configured and the persisted ones.\<close>

lemma fold_policies_last:
  "map_of (foldl (\<lambda>m p. AList.update (p_ID p) p m) m0 ps) i =
     (case find (\<lambda>p. p_ID p = i) (rev ps) of Some p \<Rightarrow> Some p | None \<Rightarrow> map_of m0 i)"
proof (induction ps rule: rev_induct)
  case (snoc p ps)
  then show ?case by (simp add: gomap_simps)
qed simp

definition persisted :: "'c process_env \<Rightarrow> config \<Rightarrow> running \<Rightarrow> policy list" where
  "persisted env cfg run =
    (case run of
       OnPostgres sv \<Rightarrow> map (por_data \<circ> snd) (pe_by_id env (pg_policies (sv_Store sv)))
     | OnFiles sv \<Rightarrow> LoadPolicies (pe_pdqsort env) (pe_visit env) (sv_Store sv))"

text \<open>C25: A process that starts has a complete, valid configuration; its store is the database exactly when
  \<^verbatim>\<open>DATABASE_URL\<close> is set; for each identifier it serves the persisted policy if there is one and the configured
  one otherwise, never none of a configured identifier; and breaker and shadow budget start empty.\<close>

theorem start_serves:
  assumes "main_start env = Inr (cfg, run)" and "\<And>p. percent_order (pe_order env p)"
  shows "ready_config cfg \<and> ((\<exists>sv. run = OnPostgres sv) \<longleftrightarrow> pe_getenv env ''DATABASE_URL'' \<noteq> []) \<and>
    spend_of run = ([], []) \<and> rg_catalog (registry_of run) = cf_Catalog cfg \<and>
    (\<forall>i. map_of (rg_policies (registry_of run)) i =
      (case find (\<lambda>p. p_ID p = i) (rev (persisted env cfg run)) of
         Some p \<Rightarrow> Some p
       | None \<Rightarrow> find (\<lambda>p. p_ID p = i) (rev (cf_Policies cfg))))"
proof -
  have "ready_config cfg"
    using assms(1) load_ready [OF _ assms(2)]
    by (auto simp: main_start_def Let_def split: sum.splits option.splits if_splits)
  moreover have lookup: "map_of (foldl (\<lambda>m p. AList.update (p_ID p) p m) [] (base @ ps)) i =
      (case find (\<lambda>p. p_ID p = i) (rev ps) of Some p \<Rightarrow> Some p | None \<Rightarrow> find (\<lambda>p. p_ID p = i) (rev base))" for base ps i
    by (simp add: fold_policies_last split: option.split)
  ultimately show ?thesis
    using assms(1) lookup [of "cf_Policies cfg"]
    by (auto simp: main_start_def Let_def persisted_def start_on_postgres_def start_server_def NewServer_def
        NewRegistry_def NewClient_circuits_def PG_LoadPolicies_def split: sum.splits option.splits if_splits)
qed

text \<open>A process that starts on an empty data directory is in a state the service reaches, under a valid
  configuration: what is shown of every reachable state holds of it.\<close>

theorem start_reaches:
  assumes "main_start env = Inr (cfg, OnFiles sv)" and "\<And>p. percent_order (pe_order env p)"
    and "listing_store (pe_pdqsort env) (pe_visit env)" and "\<And>dir name. pe_files env dir name = Absent"
  shows "valid_config cfg \<and> service_reach cfg (started sv)"
proof -
  obtain store where load: "Load (pe_read_file env) decode_config (pe_getenv env) (pe_order env)
        (config_path (pe_getenv env)) = Inr cfg"
    and store: "NewFileStore (cf_DataDirectory cfg) (pe_mkdir_ok env) Missing Missing Missing = Inr store"
    and sv: "sv = start_server cfg (pe_pdqsort env) (pe_visit env) store"
    using assms(1) by (auto simp: main_start_def open_files_def Let_def assms(4) split: sum.splits option.splits if_splits)
  have "valid_config cfg" using load_ready [OF load assms(2)] by (simp add: ready_config_def)
  then show ?thesis unfolding sv using service_reach.init [OF assms(3) store] by blast
qed

subsection \<open>What a restarted process serves\<close>

lemma find_distinct:
  fixes ps :: "policy list"
  shows "distinct (map p_ID ps) \<Longrightarrow> find (\<lambda>p. p_ID p = i) (rev ps) = map_of (map (\<lambda>p. (p_ID p, p)) ps) i"
proof (induction ps)
  case (Cons p ps)
  have "find P (xs @ ys) = (case find P xs of None \<Rightarrow> find P ys | Some x \<Rightarrow> Some x)" for P :: "policy \<Rightarrow> bool" and xs ys
    by (induction xs) auto
  moreover have "map_of (map (\<lambda>p. (p_ID p, p)) ps) (p_ID p) = None" using Cons.prems by (force simp: map_of_eq_None_iff)
  ultimately show ?case using Cons by (auto split: option.split)
qed simp

definition policy_saves ::
  "(float64 \<Rightarrow> string) \<Rightarrow> bool \<Rightarrow> int \<Rightarrow> int \<Rightarrow> (policy \<times> write_result) list \<Rightarrow> disk_file" where
  "policy_saves fmt nil zt zc ws =
     foldl (\<lambda>disk (p, r). snd (append_bytes r (encode_policy False nil fmt zt zc p @ [CHR 0x0A]) disk)) Absent ws"


subsection \<open>A start\<close>

definition start_text :: string where
  \<open>start_text = ''{"catalog":{"m":{"id":"m"}},"tenants":[{"id":"t","router_api_key":"k"}]}''\<close>

definition start_config :: config where
  "start_config = \<lparr>cf_ListenAddress = '':8080'', cf_DataDirectory = ''./data'', cf_AdminKeyEnv = [], cf_AdminKey = [],
     cf_Catalog = [(''m'', empty_model\<lparr>m_ID := ''m''\<rparr>)], cf_Policies = [],
     cf_Tenants = [zero_tenant\<lparr>tn_ID := ''t'', tn_RouterAPIKey := ''k''\<rparr>]\<rparr>"

definition start_env :: "(string \<Rightarrow> string \<Rightarrow> disk_file) \<Rightarrow> unit process_env" where
  "start_env files = \<lparr>pe_getenv = (\<lambda>_. []), pe_read_file = (\<lambda>path. if path = ''config/demo.json'' then Some start_text else None),
     pe_order = sample_order, pe_parse = (\<lambda>_. None), pe_reach = (\<lambda>_. None), pe_query_ok = True, pe_by_id = rev,
     pe_mkdir_ok = True, pe_files = files, pe_pdqsort = insertionSort, pe_visit = rev\<rparr>"

lemma start_load:
  "Load (pe_read_file (start_env files)) decode_config (pe_getenv (start_env files)) (pe_order (start_env files))
     (config_path (pe_getenv (start_env files))) = Inr start_config"
proof -
  have decode: "decode_config start_text = Some (start_config\<lparr>cf_ListenAddress := [], cf_DataDirectory := []\<rparr>)" by code_simp
  have "valid_config start_config"
    by (simp add: valid_config_def valid_tenant_def start_config_def zero_tenant_def empty_model_def)
  then have "config_Validate sample_order start_config = None"
    using config_Validate_None [of sample_order, OF sample_order_ok] by simp
  moreover have "load_defaults (\<lambda>_. []) (start_config\<lparr>cf_ListenAddress := [], cf_DataDirectory := []\<rparr>) = start_config"
    by (simp add: load_defaults_def load_tenant_def start_config_def zero_tenant_def)
  ultimately show ?thesis by (simp add: Load_def start_env_def config_path_def decode Let_def)
qed

lemma start_order: "percent_order (pe_order (start_env files) p)"
  by (simp add: start_env_def sample_order_ok)

definition empty_files_server :: "file_store server" where
  "empty_files_server = start_server start_config insertionSort rev empty_files"

lemma empty_start: "main_start (start_env (\<lambda>_ _. Absent)) = Inr (start_config, OnFiles empty_files_server)"
proof -
  have "main_start env = Inr (start_config, OnFiles empty_files_server)" if env: "env = start_env (\<lambda>_ _. Absent)" for env
    using start_load [of "\<lambda>_ _. Absent"] unfolding env [symmetric]
    by (simp add: main_start_def) (simp add: env start_env_def start_config_def open_files_def NewFileStore_def empty_files_def
      empty_files_server_def)
  then show ?thesis by simp
qed

theorem start_reaches_witness: "service_reach start_config (started empty_files_server)"
  using start_reaches [OF empty_start start_order] by (simp add: start_env_def insertion_store.listing_store_axioms)

text \<open>The policy log with one line that was typed in by hand.\<close>

definition typed_text :: string where
  \<open>typed_text = ''{"id":"p","mode":"active"}''\<close>

definition typed_log :: "string \<Rightarrow> string \<Rightarrow> disk_file" where
  "typed_log dir name = (if name = ''policies.jsonl'' then Content typed_text else Absent)"

definition typed_policy :: policy where
  "typed_policy = zero_policy\<lparr>p_ID := ''p'', p_Mode := ModeActive\<rparr>"

lemma typed_lines: "log_of_file unmarshal_policy (Content typed_text) = Lines [Line typed_policy]"
proof -
  have "unmarshal_policy typed_text = Some typed_policy" by code_simp
  then have "classify unmarshal_policy typed_text = Line typed_policy"
    by (simp add: classify_def max_token_def dropCR_def) (simp add: typed_text_def)
  moreover have "first_line typed_text = typed_text" "later_lines typed_text = []" "typed_text \<noteq> []"
    by (simp_all add: typed_text_def first_line_def later_lines_def)
  ultimately show ?thesis by (simp add: file_lines.simps [of typed_text])
qed

definition typed_store :: file_store where
  "typed_store = empty_files\<lparr>fs_policies := [(''p'', typed_policy)], fs_policyLog := Lines [Line typed_policy]\<rparr>"

lemma typed_start: "main_start (start_env typed_log) = Inr (start_config, OnFiles (start_server start_config insertionSort rev typed_store))"
proof -
  have "p_ID typed_policy = ''p''" by (simp add: typed_policy_def)
  then have "open_files (typed_log dir) ''./data'' True = Inr typed_store" for dir
    by (simp add: open_files_def NewFileStore_def typed_log_def typed_lines typed_store_def empty_files_def del: log_of_file.simps(3))
  then show ?thesis
    using start_load [of typed_log] by (simp add: main_start_def) (simp add: start_env_def start_config_def)
qed

theorem start_serves_witness:
  "case main_start (start_env typed_log) of
     Inl e \<Rightarrow> False
   | Inr (cfg, run) \<Rightarrow> map_of (rg_policies (registry_of run)) ''p'' = Some (zero_policy\<lparr>p_ID := ''p'', p_Mode := ModeActive\<rparr>)"
proof -
  have "persisted (start_env typed_log) start_config (OnFiles (start_server start_config insertionSort rev typed_store)) = [typed_policy]"
    by (simp add: persisted_def start_server_parts start_env_def typed_store_def LoadPolicies_def sort_Slice_def insertionSort_def)
  moreover have "p_ID typed_policy = ''p''" by (simp add: typed_policy_def)
  ultimately show ?thesis
    using start_serves [OF typed_start start_order] by (simp add: typed_start) (simp add: typed_policy_def)
qed

lemma text_policy_short: "length (encode_policy False True sample_float_text 0 0 text_policy) < max_token"
proof -
  have "length (encode_policy False True sample_float_text 0 0 text_policy) \<le> 1000" by code_simp
  then show ?thesis by (simp add: max_token_def)
qed


end
