(* ===== verification/Spec2Isabelle.thy ===== *)
theory Spec2Isabelle
  imports Prelude Float64 GoText Domain Request Sample Policy_Validity Feasibility Prediction SortSlice Engine Config Provider Registry Store AuditSummary Postgres Json JsonText JsonPrint JsonWrite JsonCompact Timestamps Payloads Server Serving Service Forwarding Routes MockProvider Marshal LogFile PolicyText Startup
begin

text \<open>
  \<^bold>\<open>Outcome Router.\<close> A proxy in front of OpenAI-compatible providers: for each chat completion it
  predicts the success of every candidate model, sends the request to the cheapest one that is good
  enough, keeps a randomized share of the traffic on the incumbent model as a control, and reports
  costs and outcomes of both arms. This development models the Go service under
  \<^verbatim>\<open>internal/\<close>, its start in \<^verbatim>\<open>cmd/router/main.go\<close> and the mock provider in \<^verbatim>\<open>cmd/mock-provider/main.go\<close>: from the
  bytes of a request, a configuration or a log file to the status, headers and state that answer them.

  \<^bold>\<open>Theories and code.\<close>
  \<^item> \<open>Prelude\<close>: 64-bit integers as \<open>int\<close> with the wrap-around written out, Go maps as association lists
    (\<open>gomap\<close>) read by \<open>map_of\<close>. \<open>Float64\<close>: binary64 as NaN, two infinities or a rational, with round to
    nearest even. \<open>GoText\<close>: trimming, case folding, the FNV hash on 64-bit words, byte order of
    strings. \<open>SortSlice\<close>: \<^verbatim>\<open>sort.Slice\<close>, for short slices the insertion sort of the library, for long ones
    any function that sorts (\<open>pdq_sorter\<close>).
  \<^item> \<open>Domain\<close>, \<open>Policy_Validity\<close> (\<^verbatim>\<open>domain/types.go\<close>): every struct as a record, \<^verbatim>\<open>Policy.Validate\<close> and
    \<^verbatim>\<open>Outcome.NumericValue\<close>.
  \<^item> \<open>Engine\<close>, with \<open>Feasibility\<close> and \<open>Prediction\<close> (\<^verbatim>\<open>routing/engine.go\<close>): the hard constraints, the
    prediction, and \<^verbatim>\<open>Route\<close> step by step (\<open>initial_decision\<close>, \<open>record_prediction\<close>, \<open>select_live\<close>,
    \<open>choose_live\<close>). The clock, the random identifier and the iteration order of the weight map are arguments.
  \<^item> \<open>Json\<close>: a reader and writer of JSON texts in the way of \<^verbatim>\<open>encoding/json\<close>. \<open>JsonText\<close>, \<open>JsonPrint\<close>, \<open>JsonWrite\<close>: what
    the reader makes of the texts the writer produces, for strings, for objects of given members, and for trees
    of values (\<open>jtree\<close>). \<open>JsonCompact\<close>: \<^verbatim>\<open>json.Compact\<close>, which \<^verbatim>\<open>Marshal\<close> applies to raw members, does not change what is
    read. \<open>Timestamps\<close>: RFC 3339 texts and the instants they stand for, both ways.
  \<^item> \<open>Request\<close> (\<^verbatim>\<open>routing/request.go\<close>): \<^verbatim>\<open>ParseRequest\<close>, the token estimate and \<^verbatim>\<open>BodyForModel\<close>. \<open>Forwarding\<close>: what a
    provider reads in the body that is forwarded.
  \<^item> \<open>Payloads\<close>: the struct tags of \<^verbatim>\<open>domain/types.go\<close> and \<^verbatim>\<open>config/config.go\<close> as tables of fields (\<open>policy_fields\<close>,
    \<open>config_fields\<close> and so on), and what \<^verbatim>\<open>Unmarshal\<close> and \<^verbatim>\<open>Decode\<close> make of a text by them. \<open>Marshal\<close>, \<open>PolicyText\<close>: the texts
    that \<^verbatim>\<open>Encode\<close> writes for a decision and for a policy, and their decoding.
  \<^item> \<open>Registry\<close> (\<^verbatim>\<open>routing/registry.go\<close>): the policies behind their lock and the saver they write through.
  \<^item> \<open>Config\<close> (\<^verbatim>\<open>config/config.go\<close>): defaults, environment, validation and authentication.
  \<^item> \<open>Provider\<close> (\<^verbatim>\<open>provider/client.go\<close>): the circuit breaker as a state machine over the circuits of the
    client, header construction and \<^verbatim>\<open>Do\<close>.
  \<^item> \<open>Store\<close>, \<open>AuditSummary\<close> (\<^verbatim>\<open>store/store.go\<close>): the append-only logs, line by line, with the maps read from them, and the
    audit summary. \<open>LogFile\<close>: the logs byte by byte, with torn writes and the limit of the scanner, as a refinement of
    the lines. \<open>Postgres\<close> (\<^verbatim>\<open>store/postgres.go\<close>): the same repository on tables of rows.
  \<^item> \<open>Server\<close> (\<^verbatim>\<open>api/server.go\<close>): every handler. \<^verbatim>\<open>chatCompletions\<close> is \<open>admit\<close> (up to the first save),
    \<open>forward\<close> (attempts, shadows, response) and \<open>serve\<close> (the last save). \<open>Serving\<close>: what holds of one request.
    \<open>Service\<close>: the server on the persisted policies and a step relation in which requests, shadow evaluations,
    outcomes, publications and restarts interleave. \<open>Routes\<close>: the route table and the middleware around the handlers.
    This theory: authentication, tenant isolation, outcomes and the audit window.
  \<^item> \<open>Startup\<close> (\<^verbatim>\<open>cmd/router/main.go\<close>): \<^verbatim>\<open>main\<close> up to the listener, with every exit as an error.
    \<open>MockProvider\<close> (\<^verbatim>\<open>cmd/mock-provider/main.go\<close>): its routes and answers, behind the client of the service.
  \<^item> \<open>Sample\<close>: the values on which the witnesses evaluate the definitions.

  \<^bold>\<open>Interfaces.\<close> The laws one part relies on in another are locales, each interpreted on the definitions that
  provide them: the ledger of decisions (\<open>file_ledger\<close> and \<open>pg_ledger\<close>), the saver of the registry with
  the listing of policies (both stores), the sorter of a slice, and the codec of a log (\<open>line_codec\<close>: the text of a value
  is one line that decodes to it; interpreted on decisions and on policies). The client's lemmas are proved once,
  inside the locale.

  \<^bold>\<open>What is shown.\<close>
  \<^item> Routing: \<^verbatim>\<open>Route\<close> always returns a decision; the selected model meets every hard constraint and the quality
    floor or is the incumbent; in treatment it is a cheapest such model; the control share is exactly the
    configured percentage of hash values; feasibility, validation and authentication are equivalent to
    declarative specifications; predictions and estimates stay in their bounds under rounding.
  \<^item> Serving: the loop calls an initial part of the attempt order and only feasible models, nothing is sent
    before the decision is on record, every response names a decision its tenant can read, shadow
    reservations stay within the daily budget.
  \<^item> Storage and audit: acknowledged saves survive a restart, both stores answer alike, the summary counts
    each production decision and each trace once, and the interval lies between 0 and 1.
  \<^item> Texts: the forwarded body reads as the client's with only the model and the routing block changed; the text
    of a decision or a policy decodes to it whatever its strings hold; the logs read back byte for byte, except after a
    torn write and with lines the scanner cannot hold, which are shown to stop the next start.
  \<^item> HTTP and start: which routes reach a handler and which methods can change state, the whole way of an
    outcome and of a decision over HTTP, the headers on every answer; what a started process serves, and that a
    restart serves what was published.
  \<^item> The whole service: an invariant of all reachable states (\<open>service_inv\<close>), with the lawfulness of every
    decision on record, the validity of every policy served and the possibility of a restart.
  \<^item> Theorems without a claim number are variants, or show behaviour that the comments or documents do not lead one to
    expect.

  \<^bold>\<open>Bounds and termination.\<close> No definition uses fuel. The JSON reader recurses on the length of the text; its
  loops compare the length of the rest with the length before, and \<open>parse_shorter\<close> shows that these
  comparisons hold whenever they are made. The token estimate of a request is at most 95 per byte of its body
  (\<open>ParseRequest_wellformed\<close>), so that no integer of it reaches the limits of \<^verbatim>\<open>int\<close> or of an exact float.
  \<^verbatim>\<open>sort.Slice\<close> is insertion sort up to twelve elements.

  \<^bold>\<open>Modelling choices.\<close> Zeros have no sign and products are not fused with sums. Case folding, lower case and the
  matching of field names are those of ASCII; white space is Unicode's. Counters of the audit and the breaker are
  unbounded. In \<open>Store\<close> a log line is the value it encodes or a line that does not decode; \<open>LogFile\<close> justifies it. The
  text that \<^verbatim>\<open>strconv\<close> chooses for a float is an argument \<open>fmt\<close> of which only that it reads back is used; the zone of a time
  and whether an empty slice is nil are arguments of the writers. A header has one value per name. The order in which a map is
  visited, clock readings, identifiers, the network and the success of each I/O operation are arguments, so
  the theorems hold for all of them. Each handler is one step of the service, except that a chat completion is
  two, with its first save as the boundary; locks make the smaller operations atomic in the code.

  \<^bold>\<open>Not modelled.\<close> The target and body of the redirect with which \<^verbatim>\<open>net/http\<close> answers an unclean path; the JSON
  texts of the response bodies other than decisions, which are kept as the values they encode; cancellation by a context
  and the closing of bodies; logging; \<^verbatim>\<open>Close\<close> of the database; the listener, signals, shutdown and exit codes of
  \<^verbatim>\<open>main.go\<close>. The offline trainer in Python and the dashboard are not part of the service.
\<close>

subsection \<open>Authentication\<close>

text \<open>Without a tenant's key no endpoint does or reveals anything: every tenant endpoint answers with
  the same 401 and leaves the whole state as it was, and so does publishing without the
  administrator's key.\<close>

theorem unauthenticated_refused:
  assumes "Authenticate cfg (Header_Get headers ''Authorization'') = None"
    and "\<not> AuthenticateAdmin cfg (Header_Get headers ''Authorization'')"
  shows "chatCompletions rp cfg r headers body sv = (invalid_key, [], sv) \<and>
    outcomes rp cfg decode occurred created nano io headers text' sv = (invalid_key, sv) \<and>
    decision rp cfg headers i sv = invalid_key \<and>
    auditSummary rp cfg now generated headers days i kind sv = invalid_key \<and>
    policies pdqsort visit cfg headers sv = invalid_key \<and>
    snd (putPolicy rp cfg decode' ord now io headers text' sv) = sv \<and>
    re_Status (fst (putPolicy rp cfg decode' ord now io headers text' sv)) = 401 \<and> re_Status invalid_key = 401"
  using assms
  by (simp add: chatCompletions_def admit_def outcomes_def decision_def auditSummary_def policies_def putPolicy_def
      invalid_key_def writeError_def writeJSON_def)

theorem unauthenticated_refused_witness:
  "chatCompletions (file_repository rev rev) service_config sample_chat [] (Some sample_body) (sy_Server initial_service) =
     (invalid_key, [], sy_Server initial_service)"
proof -
  have none: "Header_Get [] ''Authorization'' = []" by (simp add: Header_Get_def)
  have "Authenticate service_config (Header_Get [] ''Authorization'') = None"
    and "\<not> AuthenticateAdmin service_config (Header_Get [] ''Authorization'')"
    unfolding none using no_key by simp_all
  then show ?thesis by (rule unauthenticated_refused [THEN conjunct1])
qed

subsection \<open>What a tenant can read\<close>

text \<open>The part of the state that belongs to a tenant.\<close>

definition own_slice :: "string \<Rightarrow> file_store server \<Rightarrow> file_store server" where
  "own_slice t sv = sv\<lparr>
     sv_Registry := (sv_Registry sv)\<lparr>rg_policies := filter (\<lambda>(_, p). p_TenantID p = t) (rg_policies (sv_Registry sv))\<rparr>,
     sv_Store := (sv_Store sv)\<lparr>fs_decisions := filter (\<lambda>(_, d). d_TenantID d = t) (fs_decisions (sv_Store sv)),
       fs_outcomes := filter (\<lambda>out. o_TenantID out = t) (fs_outcomes (sv_Store sv))\<rparr>\<rparr>"

lemma own_slice_parts:
  "rg_policies (sv_Registry (own_slice t sv)) = filter (\<lambda>(_, p). p_TenantID p = t) (rg_policies (sv_Registry sv))"
  "fs_decisions (sv_Store (own_slice t sv)) = filter (\<lambda>(_, d). d_TenantID d = t) (fs_decisions (sv_Store sv))"
  "fs_outcomes (sv_Store (own_slice t sv)) = filter (\<lambda>out. o_TenantID out = t) (fs_outcomes (sv_Store sv))"
  by (simp_all add: own_slice_def)

lemma map_of_filter_values:
  "wf_gomap m \<Longrightarrow> map_of (filter (\<lambda>(_, v). P v) m) k = (case map_of m k of Some v \<Rightarrow> if P v then Some v else None | None \<Rightarrow> None)"
  by (induction m) (auto simp: wf_gomap_def map_of_eq_None_iff split: option.splits dest: map_of_SomeD)

lemma map_snd_filter_values: "map snd (filter (\<lambda>(_, v). P v) m) = filter P (map snd m)"
  by (induction m) auto

lemma Registry_Get_own:
  "wf_gomap (rg_policies (sv_Registry sv)) \<Longrightarrow>
     Registry_Get (sv_Registry (own_slice t sv)) i t = Registry_Get (sv_Registry sv) i t"
  by (simp add: Registry_Get_def own_slice_parts map_of_filter_values split: option.splits)

lemma GetDecision_own:
  "wf_gomap (fs_decisions (sv_Store sv)) \<Longrightarrow> GetDecision (sv_Store (own_slice t sv)) t i = GetDecision (sv_Store sv) t i"
  by (simp add: GetDecision_def own_slice_parts map_of_filter_values split: option.splits)

lemma Summary_own:
  assumes "\<And>P ds. filter P (vd ds) = vd (filter P ds)"
  shows "Summary vd v now (sv_Store (own_slice t sv)) t p kind since = Summary vd v now (sv_Store sv) t p kind since"
  unfolding Summary_def own_slice_parts map_snd_filter_values assms [symmetric]
  by (rule summarize_filter) (simp_all add: in_scope_def outcome_in_scope_def)

lemma Registry_List_own:
  assumes "\<And>P ps. filter P (visit ps) = visit (filter P ps)" and "t \<noteq> []"
  shows "Registry_List pdqsort visit (sv_Registry (own_slice t sv)) t = Registry_List pdqsort visit (sv_Registry sv) t"
  unfolding Registry_List_def own_slice_parts map_snd_filter_values assms(1) [symmetric]
  using assms(2) by (simp add: filter_filter)

text \<open>C8: Tenants are isolated: what the read endpoints answer - a decision, the audit summary, the list of
  policies - is a function of the caller's own policies, decisions and outcomes; no record of another
  tenant, even one under the id asked for, changes an answer. (The maps are visited in an
  order that removing other tenants' entries does not change.)\<close>

theorem read_isolation:
  assumes "valid_config cfg" and "Authenticate cfg (Header_Get headers ''Authorization'') = Some tenant"
    and "wf_gomap (fs_decisions (sv_Store sv))" and "wf_gomap (rg_policies (sv_Registry sv))"
    and "\<And>P ds. filter P (vd ds) = vd (filter P ds)" and "\<And>P ps. filter P (visit ps) = visit (filter P ps)"
  shows "decision (file_repository vd v) cfg headers i sv =
      decision (file_repository vd v) cfg headers i (own_slice (tn_ID tenant) sv) \<and>
    auditSummary (file_repository vd v) cfg now generated headers days i kind sv =
      auditSummary (file_repository vd v) cfg now generated headers days i kind (own_slice (tn_ID tenant) sv) \<and>
    policies pdqsort visit cfg headers sv = policies pdqsort visit cfg headers (own_slice (tn_ID tenant) sv)"
proof -
  have "tn_ID tenant \<noteq> []"
    using assms(1) Authenticate_tenant [OF assms(2)] by (auto simp: valid_config_def valid_tenant_def)
  then show ?thesis
    unfolding decision_def auditSummary_def policies_def Let_def assms(2) option.case file_repository_simps
      GetDecision_own [OF assms(3)] Registry_Get_own [OF assms(4)] Summary_own [OF assms(5)]
    by (simp add: Registry_List_own [OF assms(6)])
qed

theorem read_isolation_witness:
  "decision (file_repository rev rev) service_config sample_headers ''dec_01'' (sy_Server initial_service) =
     decision (file_repository rev rev) service_config sample_headers ''dec_01'' (own_slice ''tenant'' (sy_Server initial_service))"
proof -
  have wf: "wf_gomap (fs_decisions (sv_Store (sy_Server initial_service)))"
    "wf_gomap (rg_policies (sv_Registry (sy_Server initial_service)))"
    by (simp_all add: initial_service_def started_def start_server_parts service_config_parts empty_files_def
        LoadPolicies_def sort_Slice_def insertionSort_def wf_gomap_def)
  have rev: "filter P (rev xs) = rev (filter P xs)" for P :: "'a \<Rightarrow> bool" and xs by (simp add: rev_filter)
  have "tn_ID (load_tenant sample_getenv sample_tenant) = ''tenant''"
    by (simp add: load_tenant_def sample_tenant_def Let_def)
  with read_isolation [OF service_config_valid sample_authenticated wf rev rev, where i = "''dec_01''"] show ?thesis
    by metis
qed

subsection \<open>Outcomes\<close>


subsection \<open>The audit window\<close>

text \<open>The number of days of an audit window is between 1 and 365 whatever the query says, so its start is
  computed in 64-bit nanoseconds without overflow.\<close>

theorem audit_window:
  "1 \<le> summary_days raw \<and> summary_days raw \<le> 365 \<and>
   now + wrap64 (- (wrap64 (wrap64 (summary_days raw * 24) * 3600000000000))) = now - summary_days raw * 86400000000000"
proof -
  have d: "1 \<le> summary_days raw" "summary_days raw \<le> 365"
    by (auto simp: summary_days_def split: option.splits)
  have w: "wrap64 x = x" if "- (2 ^ 63) \<le> x" "x < 2 ^ 63" for x
    using that by (simp add: wrap64_def)
  show ?thesis using d by (simp add: w)
qed

end
